(* ===== verification/Prelude.thy ===== *)
theory Prelude
  imports Main "HOL-Library.Word" "HOL-Library.Monad_Syntax" "HOL-Library.Signed_Division"
begin

text \<open>
  Shared vocabulary of the development: the machine types of the C program, C loops and
  array accesses, and the lemmas about them that every component uses.

  A C array (or a heap block) is a list, a pointer into it is an index, and an access outside
  the block is undefined behaviour, which the model makes visible as \<^verbatim>\<open>None\<close>
  (\<^verbatim>\<open>load\<close>, \<^verbatim>\<open>store\<close>).  The counting loop
  \<^verbatim>\<open>for (i = a; i < b; i++) body\<close> is \<^verbatim>\<open>foldM body [a..<b]\<close> when the
  body can fail and \<^verbatim>\<open>fold body [a..<b]\<close> when it cannot.
\<close>

unbundle bit_operations_syntax

type_synonym u8 = "8 word"
type_synonym u16 = "16 word"
type_synonym u32 = "32 word"
type_synonym u64 = "64 word"

named_theorems buffer_simps \<open>loops of stores and loads as operations on whole blocks\<close>
named_theorems bytes_simps \<open>byte strings and their lengths\<close>

section \<open>Loops with a failing body\<close>

fun foldM :: "('a \<Rightarrow> 's \<Rightarrow> 's option) \<Rightarrow> 'a list \<Rightarrow> 's \<Rightarrow> 's option" where
  "foldM f [] s = Some s"
| "foldM f (x # xs) s = Option.bind (f x s) (foldM f xs)"

lemma foldM_Nil: "foldM f [] = Some"
  by (rule ext) simp

lemma bind_Some_right [simp]: "Option.bind m Some = m"
  by (cases m) auto

lemma foldM_single: "foldM f [x] = f x"
  by (rule ext) (simp add: foldM_Nil)

lemma foldM_append:
  "foldM f (xs @ ys) s = Option.bind (foldM f xs s) (foldM f ys)"
  by (induction xs arbitrary: s) (auto split: Option.bind_splits)

lemma foldM_total [simp]: "foldM (\<lambda>x s. Some (f x s)) xs s = Some (fold f xs s)"
  by (induction xs arbitrary: s) auto

lemma foldM_cong:
  "(\<And>x s. x \<in> set xs \<Longrightarrow> f x s = g x s) \<Longrightarrow> foldM f xs s = foldM g xs s"
  by (induction xs arbitrary: s) (auto split: Option.bind_splits)

lemma foldM_map: "foldM f (map g xs) s = foldM (\<lambda>x. f (g x)) xs s"
  by (induction xs arbitrary: s) (auto split: Option.bind_splits)

lemma foldM_keeps:
  assumes "foldM f xs s = Some t" and "P s" and "\<And>x s t. f x s = Some t \<Longrightarrow> P s \<Longrightarrow> P t"
  shows "P t"
  using assms(1,2) by (induction xs arbitrary: s) (auto dest: assms(3) split: Option.bind_splits)

lemma foldM_runs:
  assumes "P s" and "\<And>x s. x \<in> set xs \<Longrightarrow> P s \<Longrightarrow> \<exists>t. f x s = Some t \<and> P t"
  shows "\<exists>t. foldM f xs s = Some t \<and> P t"
  using assms
proof (induction xs arbitrary: s)
  case (Cons x xs)
  then obtain t where "f x s = Some t" "P t" by fastforce
  then show ?case using Cons by simp
qed simp

lemma foldM_cong_fold:
  assumes "\<And>x s. x \<in> set xs \<Longrightarrow> P s \<Longrightarrow> f x s = Some (g x s) \<and> P (g x s)"
    and "P s"
  shows "foldM f xs s = Some (fold g xs s) \<and> P (fold g xs s)"
  using assms by (induction xs arbitrary: s) auto

lemma fold_invariant_upt:
  assumes "P 0 s" and "\<And>i s. i < n \<Longrightarrow> P i s \<Longrightarrow> P (Suc i) (f i s)"
  shows "P n (fold f [0..<n] s)"
  using assms by (induction n) auto

section \<open>Blocks of memory\<close>

definition load :: "'a list \<Rightarrow> nat \<Rightarrow> 'a option" where
  "load b i = (if i < length b then Some (b ! i) else None)"

definition store :: "'a list \<Rightarrow> nat \<Rightarrow> 'a \<Rightarrow> 'a list option" where
  "store b i v = (if i < length b then Some (b[i := v]) else None)"

lemma store_in [simp]: "i < length b \<Longrightarrow> store b i v = Some (b[i := v])"
  by (simp add: store_def)

lemma store_out [simp]: "length b \<le> i \<Longrightarrow> store b i v = None"
  by (simp add: store_def)

lemma load_in [simp]: "i < length b \<Longrightarrow> load b i = Some (b ! i)"
  by (simp add: load_def)

lemma load_out [simp]: "length b \<le> i \<Longrightarrow> load b i = None"
  by (simp add: load_def)

text \<open>
  \<^verbatim>\<open>splice b p xs\<close> is the block \<^verbatim>\<open>b\<close> after \<^verbatim>\<open>xs\<close> has been
  written at index \<^verbatim>\<open>p\<close>; \<^verbatim>\<open>slice p n b\<close> is the \<^verbatim>\<open>n\<close> cells at
  \<^verbatim>\<open>p\<close>.  They are the block-level reading of loops of stores and loads, and
  \<^verbatim>\<open>memcpy_from\<close> / \<^verbatim>\<open>memcpy_to\<close> are the two halves of \<^verbatim>\<open>memcpy\<close>.
\<close>

definition splice :: "'a list \<Rightarrow> nat \<Rightarrow> 'a list \<Rightarrow> 'a list" where
  "splice b p xs = take p b @ xs @ drop (p + length xs) b"

definition slice :: "nat \<Rightarrow> nat \<Rightarrow> 'a list \<Rightarrow> 'a list" where
  "slice p n b = take n (drop p b)"

definition memcpy_to :: "'a list \<Rightarrow> nat \<Rightarrow> 'a list \<Rightarrow> 'a list option" where
  "memcpy_to b p xs = (if p + length xs \<le> length b then Some (splice b p xs) else None)"

definition memcpy_from :: "'a list \<Rightarrow> nat \<Rightarrow> nat \<Rightarrow> 'a list option" where
  "memcpy_from b p n = (if p + n \<le> length b then Some (slice p n b) else None)"

lemma splice_Nil [simp]: "splice b p [] = b"
  by (simp add: splice_def)

lemma length_splice [bytes_simps, simp]:
  "p + length xs \<le> length b \<Longrightarrow> length (splice b p xs) = length b"
  by (simp add: splice_def)

lemma length_slice [bytes_simps, simp]:
  "p + n \<le> length b \<Longrightarrow> length (slice p n b) = n"
  by (simp add: slice_def)

lemma nth_splice:
  "p + length xs \<le> length b \<Longrightarrow> i < length b \<Longrightarrow>
     splice b p xs ! i = (if p \<le> i \<and> i < p + length xs then xs ! (i - p) else b ! i)"
  by (auto simp: splice_def nth_append min_def)

lemma splice_snoc:
  "p + length xs < length b \<Longrightarrow>
     (splice b p xs)[p + length xs := x] = splice b p (xs @ [x])"
  by (rule nth_equalityI) (auto simp: nth_splice nth_list_update nth_append)

lemma splice_splice:
  "p + length xs + length ys \<le> length b \<Longrightarrow>
     splice (splice b p xs) (p + length xs) ys = splice b p (xs @ ys)"
  by (cases xs) (auto simp: splice_def min_def ac_simps)

lemma splice_splice_at:
  "q = p + length xs \<Longrightarrow> p + length xs + length ys \<le> length b \<Longrightarrow>
     splice (splice b p xs) q ys = splice b p (xs @ ys)"
  by (simp add: splice_splice)

lemma slice_splice:
  "p + length xs \<le> length b \<Longrightarrow> slice p (length xs) (splice b p xs) = xs"
  by (simp add: slice_def splice_def)

lemma nth_slice [simp]: "i < n \<Longrightarrow> p + n \<le> length b \<Longrightarrow> slice p n b ! i = b ! (p + i)"
  by (simp add: slice_def)

lemma slice_as_map: "p + n \<le> length b \<Longrightarrow> slice p n b = map (\<lambda>i. b ! (p + i)) [0..<n]"
  by (rule nth_equalityI) auto

lemma slice_all [simp]: "slice 0 (length b) b = b"
  by (simp add: slice_def)

lemma slice_join: "q = p + m \<Longrightarrow> slice p m b @ slice q n b = slice p (m + n) b"
  by (simp add: slice_def take_add add.commute)

lemma Cons_slice: "q = Suc k \<Longrightarrow> k < length b \<Longrightarrow> b ! k # slice q n b = slice k (Suc n) b"
  by (simp add: slice_def Cons_nth_drop_Suc[symmetric])

lemma slice_0_append [simp]: "length xs = n \<Longrightarrow> slice 0 n (xs @ ys) = xs"
  by (simp add: slice_def)

lemma map_nth_map: "length xs = n \<Longrightarrow> map (\<lambda>i. f (xs ! i)) [0..<n] = map f xs"
  by (rule nth_equalityI) auto

text \<open>A counting loop that stores into consecutive cells writes a whole string.\<close>

lemma foldM_store_upt [buffer_simps]:
  "p + n \<le> length b \<Longrightarrow>
     foldM (\<lambda>i b. store b (p + i) (f i)) [0..<n] b = Some (splice b p (map f [0..<n]))"
proof (induction n)
  case 0
  then show ?case by simp
next
  case (Suc n)
  have "(splice b p (map f [0..<n]))[p + n := f n] = splice b p (map f [0..<n] @ [f n])"
    using splice_snoc[of p "map f [0..<n]" b "f n"] Suc.prems by simp
  with Suc show ?case by (simp add: foldM_append)
qed

lemma foldM_fill:
  assumes "\<And>i. i < n \<Longrightarrow> f i = Some (g i)" and "n \<le> length b"
  shows "foldM (\<lambda>i b. Option.bind (f i) (store b i)) [0..<n] b = Some (splice b 0 (map g [0..<n]))"
proof -
  have "foldM (\<lambda>i b. Option.bind (f i) (store b i)) [0..<n] b = foldM (\<lambda>i b. store b (0 + i) (g i)) [0..<n] b"
    using assms(1) by (intro foldM_cong) simp
  also have "\<dots> = Some (splice b 0 (map g [0..<n]))"
    using foldM_store_upt[of 0 n b g] assms(2) by simp
  finally show ?thesis .
qed

lemma foldM_store_upt_None:
  "length b < p + n \<Longrightarrow> 0 < n \<Longrightarrow> foldM (\<lambda>i b. store b (p + i) (f i)) [0..<n] b = None"
proof (induction n)
  case 0
  then show ?case by simp
next
  case (Suc n)
  show ?case
  proof (cases "length b < p + n \<and> 0 < n")
    case True
    with Suc show ?thesis by (simp add: foldM_append)
  next
    case False
    show ?thesis
    proof (cases "n = 0")
      case True
      with Suc.prems show ?thesis by simp
    next
      case False
      with \<open>\<not> (length b < p + n \<and> 0 < n)\<close> Suc.prems have "p + n = length b" by simp
      then show ?thesis by (simp add: foldM_append foldM_store_upt)
    qed
  qed
qed

lemma list_of_length4: "length xs = 4 \<Longrightarrow> \<exists>a b c d. xs = [a, b, c, d]"
  by (auto simp: numeral_eq_Suc length_Suc_conv)

lemma upt_0_8: "[0..<8] = [0, 1, 2, 3, 4, 5, 6, 7]"
  by code_simp

lemma those_map_Some: "(\<And>x. x \<in> set xs \<Longrightarrow> f x = Some (g x)) \<Longrightarrow> those (map f xs) = Some (map g xs)"
  by (induction xs) auto

lemma those_map_None: "x \<in> set xs \<Longrightarrow> f x = None \<Longrightarrow> those (map f xs) = None"
  by (induction xs) (auto split: option.splits)

lemma those_load:
  "0 < n \<Longrightarrow> those (map (load b) [0..<n]) = (if n \<le> length b then Some (take n b) else None)"
proof (cases "n \<le> length b")
  case True
  then have "those (map (load b) [0..<n]) = Some (map ((!) b) [0..<n])"
    by (intro those_map_Some) simp
  also have "map ((!) b) [0..<n] = take n b" using True by (intro nth_equalityI) auto
  finally show ?thesis using True by simp
next
  case False
  moreover assume "0 < n"
  ultimately show ?thesis using those_map_None[of "n - 1" "[0..<n]" "load b"] by simp
qed

section \<open>Words\<close>

lemma unat_less_of_take_bit: "take_bit n w = w \<Longrightarrow> unat w < 2 ^ n"
proof -
  assume w: "take_bit n w = w"
  have "unat (take_bit n w) < 2 ^ n" by (simp only: unsigned_take_bit_eq take_bit_nat_less_exp)
  then show ?thesis by (simp only: w)
qed

lemma bit_of_take_bit: "take_bit n w = w \<Longrightarrow> bit w i \<Longrightarrow> i < n"
  by (metis bit_take_bit_iff)

lemma sint_eq_unat:
  assumes "\<not> bit w (LENGTH('a) - 1)"
  shows "sint (w :: 'a::len word) = int (unat w)"
proof -
  have "i < LENGTH('a) - 1" if "bit w i" for i
    using that assms bit_imp_le_length[OF that] by (cases "i = LENGTH('a) - 1") auto
  then have "take_bit (LENGTH('a) - 1) (uint w) = uint w"
    by (intro bit_eqI) (auto simp: bit_take_bit_iff bit_uint_iff)
  then show ?thesis using assms
    by (simp add: sint_uint signed_take_bit_eq_if_positive bit_uint_iff)
qed

lemma sint_small: "uint w < 2 ^ (LENGTH('a) - 1) \<Longrightarrow> sint (w :: 'a::len word) = uint w"
proof -
  assume a: "uint w < 2 ^ (LENGTH('a) - 1)"
  have "- (2 ^ (LENGTH('a) - 1)) \<le> uint w" by (rule order_trans[of _ 0]) simp_all
  with a show ?thesis by (simp add: sint_uint signed_take_bit_int_eq_self)
qed

lemma bit_u8_high [simp]: "8 \<le> n \<Longrightarrow> \<not> bit (x :: u8) n"
  by (auto dest: bit_imp_le_length)

lemma ucast_u8_take_bit: "LENGTH('a) \<ge> 8 \<Longrightarrow> ucast (ucast (x :: 'a::len word) :: u8) = take_bit 8 x"
  by (rule bit_word_eqI) (auto simp: bit_simps)

lemma push_add_take_bit8:
  "push_bit 8 (drop_bit (m + 8) x) + take_bit 8 (drop_bit m x) = drop_bit m (x :: 'a::len word)"
  using bits_ident[of 8 "drop_bit m x"] by (simp add: drop_bit_drop_bit add.commute)

section \<open>Signed C integers\<close>

text \<open>
  A value of type \<^verbatim>\<open>int\<close> (or \<^verbatim>\<open>long long\<close>) is an \<^verbatim>\<open>int\<close> of
  HOL; \<^verbatim>\<open>int32\<close> is the two's complement wrap-around of the compilers the program
  is built with, written where the code's arithmetic can leave the 32 bits.  Division and
  remainder truncate towards zero: \<^verbatim>\<open>sdiv\<close> and \<^verbatim>\<open>smod\<close>.
\<close>

definition int32 :: "int \<Rightarrow> int" where
  "int32 x = signed_take_bit 31 x"

definition INT_MAX :: int where "INT_MAX = 2147483647"
definition INT_MIN :: int where "INT_MIN = -2147483648"

lemma int32_id [simp]: "INT_MIN \<le> x \<Longrightarrow> x \<le> INT_MAX \<Longrightarrow> int32 x = x"
  by (auto simp: int32_def INT_MIN_def INT_MAX_def intro!: signed_take_bit_int_eq_self)

lemma int32_range: "INT_MIN \<le> int32 x \<and> int32 x \<le> INT_MAX"
  using signed_take_bit_int_less_exp[of 31 x] signed_take_bit_int_greater_eq_minus_exp[of 31 x]
  by (auto simp: int32_def INT_MIN_def INT_MAX_def)

lemma sdiv_nonneg [simp]: "0 \<le> a \<Longrightarrow> 0 \<le> b \<Longrightarrow> (a :: int) sdiv b = a div b"
  by (auto simp: signed_divide_int_def sgn_if)

lemma smod_nonneg [simp]: "0 \<le> a \<Longrightarrow> 0 \<le> b \<Longrightarrow> (a :: int) smod b = a mod b"
  by (cases "a = 0") (auto simp: signed_modulo_int_def)

end
