(* ===== verification/SocketTools.thy ===== *)
theory SocketTools
  imports Prelude
begin

text \<open>
  \<^verbatim>\<open>socket_tools.c\<close>: the big-endian (network order) encoders and decoders of the
  wire format.  An encoder gets the block and the position of the pointer in it, stores byte
  by byte, and returns the block with the advanced pointer; a store outside the block is
  \<^verbatim>\<open>None\<close>.  \<^verbatim>\<open>be_bytes n v\<close> is the byte string the encoders are meant to
  write; \<^verbatim>\<open>codec\<close> is the contract the record encoders of \<^verbatim>\<open>Serialize\<close>
  rely on.
\<close>

unbundle bit_operations_syntax

section \<open>The functions of socket\_tools.c\<close>

definition serialize_u64 :: "u8 list \<Rightarrow> nat \<Rightarrow> u64 \<Rightarrow> (u8 list \<times> nat) option" where
  "serialize_u64 buffer p value =
     map_option (\<lambda>b. (b, p + 8))
       (foldM (\<lambda>bit b. store b (p + bit) (ucast (drop_bit ((7 - bit) * 8) value))) [0..<8] buffer)"

definition serialize_u32 :: "u8 list \<Rightarrow> nat \<Rightarrow> u32 \<Rightarrow> (u8 list \<times> nat) option" where
  "serialize_u32 buffer p value =
     map_option (\<lambda>b. (b, p + 4))
       (foldM (\<lambda>bit b. store b (p + bit) (ucast (drop_bit ((3 - bit) * 8) value))) [0..<4] buffer)"

definition serialize_u16 :: "u8 list \<Rightarrow> nat \<Rightarrow> u16 \<Rightarrow> (u8 list \<times> nat) option" where
  "serialize_u16 buffer p value =
     map_option (\<lambda>b. (b, p + 2))
       (foldM (\<lambda>bit b. store b (p + bit) (ucast (drop_bit ((1 - bit) * 8) value))) [0..<2] buffer)"

definition serialize_u8 :: "u8 list \<Rightarrow> nat \<Rightarrow> u8 \<Rightarrow> (u8 list \<times> nat) option" where
  "serialize_u8 buffer p value = map_option (\<lambda>b. (b, p + 1)) (store buffer p value)"

text \<open>
  The decoders accumulate \<^verbatim>\<open>value = (value << 8) + buffer[i]\<close>.  For 16 bits the
  sum is computed in \<^verbatim>\<open>int\<close> and truncated by the assignment, which is the sum
  modulo \<^verbatim>\<open>2^16\<close>, the word operation used here.
\<close>

definition deserialize_u8 :: "u8 list \<Rightarrow> nat \<Rightarrow> u8 option" where
  "deserialize_u8 buffer p = load buffer p"

definition deserialize_u16 :: "u8 list \<Rightarrow> nat \<Rightarrow> u16 option" where
  "deserialize_u16 buffer p =
     foldM (\<lambda>i value. map_option (\<lambda>x. push_bit 8 value + ucast x) (load buffer (p + i))) [0..<2] 0"

definition deserialize_u32 :: "u8 list \<Rightarrow> nat \<Rightarrow> u32 option" where
  "deserialize_u32 buffer p =
     foldM (\<lambda>i value. map_option (\<lambda>x. push_bit 8 value + ucast x) (load buffer (p + i))) [0..<4] 0"

definition deserialize_u64 :: "u8 list \<Rightarrow> nat \<Rightarrow> u64 option" where
  "deserialize_u64 buffer p =
     foldM (\<lambda>i value. map_option (\<lambda>x. push_bit 8 value + ucast x) (load buffer (p + i))) [0..<8] 0"

section \<open>Big-endian byte strings\<close>

definition be_bytes :: "nat \<Rightarrow> 'a::len word \<Rightarrow> u8 list" where
  "be_bytes n v = map (\<lambda>i. ucast (drop_bit ((n - 1 - i) * 8) v)) [0..<n]"

definition be_value :: "u8 list \<Rightarrow> 'a::len word" where
  "be_value bs = fold (\<lambda>x value. push_bit 8 value + ucast x) bs 0"

lemma length_be_bytes [simp, bytes_simps]: "length (be_bytes n v) = n"
  by (simp add: be_bytes_def)

text \<open>After \<^verbatim>\<open>k\<close> bytes the accumulator holds the top \<^verbatim>\<open>8 k\<close> bits.\<close>

lemma be_value_prefix:
  assumes "8 * n = LENGTH('a)" and "k \<le> n" and "0 < n"
  shows "be_value (take k (be_bytes n (v :: 'a::len word))) = drop_bit ((n - k) * 8) v"
  using assms(2)
proof (induction k)
  case 0
  have "drop_bit (n * 8) v = 0"
    using assms(1) by (intro bit_word_eqI) (auto simp: bit_simps dest: bit_imp_le_length)
  then show ?case by (simp add: be_value_def)
next
  case (Suc k)
  then have k: "k < n" by simp
  have "take (Suc k) (be_bytes n v) = take k (be_bytes n v) @ [be_bytes n v ! k]"
    using k by (simp add: take_Suc_conv_app_nth)
  moreover have "be_bytes n v ! k = ucast (drop_bit ((n - 1 - k) * 8) v)"
    using k by (simp add: be_bytes_def)
  moreover have "(ucast (ucast (drop_bit ((n - 1 - k) * 8) v) :: u8) :: 'a word)
      = take_bit 8 (drop_bit ((n - 1 - k) * 8) v)"
    using assms by (intro ucast_u8_take_bit) linarith
  moreover have "(n - k) * 8 = (n - 1 - k) * 8 + 8" using k by (cases "n - k") auto
  ultimately show ?case
    using Suc k push_add_take_bit8[of "(n - 1 - k) * 8" v]
    by (simp add: be_value_def)
qed

lemma be_value_be_bytes:
  "8 * n = LENGTH('a) \<Longrightarrow> 0 < n \<Longrightarrow> be_value (be_bytes n v) = (v :: 'a::len word)"
  using be_value_prefix[of n n v] by simp

text \<open>The other direction: the encoder restores every byte string of the right length.\<close>

lemma push_add_or:
  "push_bit 8 v + (ucast (x :: u8) :: 'a::len word) = push_bit 8 v OR ucast x"
  by (rule disjunctive_add) (auto simp: bit_simps dest: bit_imp_le_length)

lemma be_bytes_snoc:
  assumes "8 * Suc k \<le> LENGTH('a)"
  shows "be_bytes (Suc k) (push_bit 8 v + ucast x :: 'a::len word) = be_bytes k v @ [x]"
proof (rule nth_equalityI)
  fix i assume "i < length (be_bytes (Suc k) (push_bit 8 v + ucast x :: 'a word))"
  then have i: "i \<le> k" by simp
  show "be_bytes (Suc k) (push_bit 8 v + ucast x :: 'a word) ! i = (be_bytes k v @ [x]) ! i"
  proof (cases "i = k")
    case True
    then show ?thesis
      using assms
      by (auto simp: be_bytes_def nth_append push_add_or bit_simps simp del: upt_Suc
          intro!: bit_word_eqI)
  next
    case False
    with i have "i < k" by simp
    then obtain d where k: "k = Suc (i + d)" by (metis less_iff_Suc_add add_Suc_right)
    show ?thesis
      using assms unfolding k
      by (auto simp: be_bytes_def nth_append push_add_or bit_simps simp del: upt_Suc
          intro!: bit_word_eqI dest: bit_imp_le_length)
  qed
qed simp

lemma be_bytes_be_value:
  "8 * length bs \<le> LENGTH('a) \<Longrightarrow> be_bytes (length bs) (be_value bs :: 'a::len word) = bs"
proof (induction bs rule: rev_induct)
  case Nil
  then show ?case by (simp add: be_bytes_def)
next
  case (snoc x bs)
  then show ?case
    using be_bytes_snoc[of "length bs" "be_value bs :: 'a word" x] by (simp add: be_value_def)
qed

section \<open>Emitters and readers\<close>

text \<open>
  An \<^emph>\<open>emitter\<close> of a byte string stores it at the pointer and advances the pointer,
  and is \<^verbatim>\<open>None\<close> exactly when the string does not fit the block; a
  \<^emph>\<open>reader\<close> of \<^verbatim>\<open>n\<close> bytes updates its target, a struct of shape
  \<^verbatim>\<open>P\<close>, from the \<^verbatim>\<open>n\<close> bytes at the pointer.  Both compose, which is how \<^verbatim>\<open>serialize.c\<close> is built.
\<close>

definition emits :: "(u8 list \<Rightarrow> nat \<Rightarrow> (u8 list \<times> nat) option) \<Rightarrow> u8 list \<Rightarrow> bool" where
  "emits f bs \<longleftrightarrow> bs \<noteq> [] \<and> (\<forall>b p. f b p =
     (if p + length bs \<le> length b then Some (splice b p bs, p + length bs) else None))"

definition reads :: "('s \<Rightarrow> bool) \<Rightarrow> (u8 list \<Rightarrow> 's \<times> nat \<Rightarrow> ('s \<times> nat) option) \<Rightarrow> nat \<Rightarrow>
    (u8 list \<Rightarrow> 's \<Rightarrow> 's) \<Rightarrow> bool" where
  "reads P f n upd \<longleftrightarrow>
     (\<forall>b s p. P s \<longrightarrow> p + n \<le> length b \<longrightarrow> f b (s, p) = Some (upd (slice p n b) s, p + n)) \<and>
     (\<forall>bs s. length bs = n \<longrightarrow> P s \<longrightarrow> P (upd bs s))"

named_theorems emit_intros \<open>the emitters of the code\<close>
named_theorems read_intros \<open>the readers of the code\<close>

lemma emits_apply: "emits f bs \<Longrightarrow> f b p =
    (if p + length bs \<le> length b then Some (splice b p bs, p + length bs) else None)"
  by (simp add: emits_def)

lemma emits_bind [emit_intros]:
  assumes "emits f xs" and "emits g ys"
  shows "emits (\<lambda>b p. Option.bind (f b p) (\<lambda>(b, p). g b p)) (xs @ ys)"
  unfolding emits_def
proof (intro conjI allI)
  show "xs @ ys \<noteq> []" using assms by (simp add: emits_def)
  fix b p
  show "Option.bind (f b p) (\<lambda>(b, p). g b p) =
     (if p + length (xs @ ys) \<le> length b
      then Some (splice b p (xs @ ys), p + length (xs @ ys)) else None)"
    using splice_splice[of p xs ys b]
    by (auto simp: emits_apply[OF assms(1)] emits_apply[OF assms(2)] add.assoc)
qed

lemma emits_snoc_loop:
  "(\<And>i. i < n \<Longrightarrow> emits (\<lambda>b p. f i b p) (bs i)) \<Longrightarrow> 0 < n \<Longrightarrow>
     emits (\<lambda>b p. foldM (\<lambda>i (b, p). f i b p) [0..<n] (b, p)) (concat (map bs [0..<n]))"
proof (induction n)
  case 0
  then show ?case by simp
next
  case (Suc n)
  show ?case
  proof (cases "n = 0")
    case True
    then show ?thesis using Suc.prems(1)[of 0] by (simp add: foldM_Nil)
  next
    case False
    then have "emits (\<lambda>b p. Option.bind (foldM (\<lambda>i (b, p). f i b p) [0..<n] (b, p))
        (\<lambda>(b, p). f n b p)) (concat (map bs [0..<n]) @ bs n)"
      using Suc by (intro emits_bind) auto
    then show ?thesis by (simp add: foldM_append foldM_single case_prod_unfold)
  qed
qed

lemma reads_apply:
  "reads P f n upd \<Longrightarrow> P s \<Longrightarrow> p + n \<le> length b \<Longrightarrow> f b (s, p) = Some (upd (slice p n b) s, p + n)"
  by (simp add: reads_def)

lemma reads_keeps: "reads P f n upd \<Longrightarrow> P s \<Longrightarrow> length bs = n \<Longrightarrow> P (upd bs s)"
  by (simp add: reads_def)

lemma slice_split:
  "take m (slice p (m + n) b) = slice p m b" "drop m (slice p (m + n) b) = slice (p + m) n b"
  by (simp_all add: slice_def min_def drop_take add.commute)

text \<open>A decoder is a sequence of readers that ends by returning the struct.\<close>

definition decodes :: "('s \<Rightarrow> bool) \<Rightarrow> (u8 list \<Rightarrow> 's \<times> nat \<Rightarrow> 's option) \<Rightarrow> nat \<Rightarrow>
    (u8 list \<Rightarrow> 's \<Rightarrow> 's) \<Rightarrow> bool" where
  "decodes P f n upd \<longleftrightarrow>
     (\<forall>b s p. P s \<longrightarrow> p + n \<le> length b \<longrightarrow> f b (s, p) = Some (upd (slice p n b) s))"

lemma decodes_apply:
  "decodes P (\<lambda>b (s, p). f b p s) n upd \<Longrightarrow> P s \<Longrightarrow> p + n \<le> length b \<Longrightarrow>
     f b p s = Some (upd (slice p n b) s)"
  by (simp add: decodes_def)

lemma decodes_cong:
  "decodes P f n u \<Longrightarrow> n = m \<Longrightarrow> (\<And>bs s. length bs = m \<Longrightarrow> P s \<Longrightarrow> u bs s = v bs s) \<Longrightarrow>
     decodes P f m v"
  by (simp add: decodes_def)

lemma decodes_done [read_intros]: "decodes P (\<lambda>b (s, p). Some s) 0 (\<lambda>bs s. s)"
  by (simp add: decodes_def)

lemma decodes_bind:
  assumes f: "reads P f m u" and g: "decodes P g n v"
  shows "decodes P (\<lambda>b (s, p). Option.bind (f b (s, p)) (g b)) (m + n)
      (\<lambda>bs s. v (drop m bs) (u (take m bs) s))"
  unfolding decodes_def
proof (intro allI impI)
  fix b :: "u8 list" and s p assume "P s" and len: "p + (m + n) \<le> length b"
  then have "P (u (slice p m b) s)" using reads_keeps[OF f] by simp
  with \<open>P s\<close> len g show "(case (s, p) of (s, p) \<Rightarrow> Option.bind (f b (s, p)) (g b)) =
      Some (v (drop m (slice p (m + n) b)) (u (take m (slice p (m + n) b)) s))"
    by (simp add: reads_apply[OF f] slice_split decodes_def)
qed

section \<open>The functions as emitters and decoders\<close>

lemma foldM_store_iff:
  "0 < n \<Longrightarrow> foldM (\<lambda>i b. store b (p + i) (f i)) [0..<n] b =
     (if p + n \<le> length b then Some (splice b p (map f [0..<n])) else None)"
  using foldM_store_upt[of p n b f] foldM_store_upt_None[of b p n f] by auto

lemma serialize_u64_emits: "emits (\<lambda>b p. serialize_u64 b p v) (be_bytes 8 v)"
  unfolding emits_def serialize_u64_def
  by (subst foldM_store_iff) (auto simp: be_bytes_def simp del: upt_rec_numeral)

lemma serialize_u32_emits: "emits (\<lambda>b p. serialize_u32 b p v) (be_bytes 4 v)"
  unfolding emits_def serialize_u32_def
  by (subst foldM_store_iff) (auto simp: be_bytes_def simp del: upt_rec_numeral)

lemma serialize_u16_emits: "emits (\<lambda>b p. serialize_u16 b p v) (be_bytes 2 v)"
  unfolding emits_def serialize_u16_def
  by (subst foldM_store_iff) (auto simp: be_bytes_def simp del: upt_rec_numeral)

lemma be_bytes_1 [simp]: "be_bytes (Suc 0) (v :: u8) = [v]"
  by (simp add: be_bytes_def)

lemma serialize_u8_emits: "emits (\<lambda>b p. serialize_u8 b p v) (be_bytes 1 v)"
  using splice_snoc[of _ "[]" _ v] by (auto simp: serialize_u8_def emits_def store_def)

lemma foldM_load_iff:
  "0 < n \<Longrightarrow>
     foldM (\<lambda>i value. map_option (\<lambda>x. push_bit 8 value + ucast x) (load b (p + i))) [0..<n] 0
       = (if p + n \<le> length b then Some (be_value (slice p n b)) else None)"
proof (induction n)
  case (Suc n)
  then show ?case
    by (cases "n = 0")
      (auto simp: foldM_append slice_as_map be_value_def load_def map_option_case split: option.splits)
qed simp

lemma deserialize_u64_eq:
  "deserialize_u64 b p = (if p + 8 \<le> length b then Some (be_value (slice p 8 b)) else None)"
  unfolding deserialize_u64_def by (rule foldM_load_iff) simp

lemma deserialize_u32_eq:
  "deserialize_u32 b p = (if p + 4 \<le> length b then Some (be_value (slice p 4 b)) else None)"
  unfolding deserialize_u32_def by (rule foldM_load_iff) simp

lemma deserialize_u16_eq:
  "deserialize_u16 b p = (if p + 2 \<le> length b then Some (be_value (slice p 2 b)) else None)"
  unfolding deserialize_u16_def by (rule foldM_load_iff) simp

lemma deserialize_u8_eq:
  "deserialize_u8 b p = (if p + 1 \<le> length b then Some (be_value (slice p 1 b)) else None)"
  by (auto simp: deserialize_u8_def be_value_def slice_as_map load_def)

section \<open>The codec contract\<close>

text \<open>
  What the record encoders need of a scalar codec: a fixed width, encoding and decoding as
  block operations, and the two round trips between values and byte strings.  Arrays of
  scalars, which \<^verbatim>\<open>serialize.c\<close> writes and reads with one loop per field,
  follow once for all codecs.
\<close>

locale scalar_codec =
  fixes put :: "u8 list \<Rightarrow> nat \<Rightarrow> 'v \<Rightarrow> (u8 list \<times> nat) option"
    and get :: "u8 list \<Rightarrow> nat \<Rightarrow> 'v option"
    and width :: nat
    and bytes :: "'v \<Rightarrow> u8 list"
    and val :: "u8 list \<Rightarrow> 'v"
  assumes width_pos: "0 < width"
    and length_bytes: "length (bytes v) = width"
    and put_emits: "emits (\<lambda>b p. put b p v) (bytes v)"
    and get_eq: "get b p = (if p + width \<le> length b then Some (val (slice p width b)) else None)"
    and val_bytes: "val (bytes v) = v"
    and bytes_val: "length bs = width \<Longrightarrow> bytes (val bs) = bs"
begin

lemma get_put:
  assumes "put b p v = Some (b', q)"
  shows "get b' p = Some v \<and> q = p + width"
proof -
  have b': "b' = splice b p (bytes v)" and fits: "p + width \<le> length b" and q: "q = p + width"
    using assms emits_apply[OF put_emits] by (auto simp: length_bytes split: if_splits)
  then have "slice p width b' = bytes v"
    using slice_splice[of p "bytes v" b] by (simp add: length_bytes)
  moreover have "length b' = length b" using b' fits by (simp add: length_bytes)
  ultimately show ?thesis using fits q by (simp add: get_eq val_bytes)
qed

lemma put_array:
  "0 < n \<Longrightarrow> emits (\<lambda>b p. foldM (\<lambda>i (b, p). put b p (f i)) [0..<n] (b, p))
     (concat (map (\<lambda>i. bytes (f i)) [0..<n]))"
  by (rule emits_snoc_loop) (rule put_emits)

lemma put_list:
  "length xs = n \<Longrightarrow> 0 < n \<Longrightarrow> emits (\<lambda>b p. foldM (\<lambda>i (b, p). put b p (xs ! i)) [0..<n] (b, p))
     (concat (map bytes xs))"
  using put_array[of n "(!) xs"] by (simp add: map_nth_map)

lemma length_concat_bytes: "length (concat (map bytes xs)) = width * length xs"
  by (induction xs) (auto simp: length_bytes)

definition vals :: "nat \<Rightarrow> u8 list \<Rightarrow> 'v list" where
  "vals n bs = map (\<lambda>i. val (slice (width * i) width bs)) [0..<n]"

lemma width_mult_le: "i < n \<Longrightarrow> width * i + width \<le> width * n"
  by (metis Suc_leI mult_Suc_right add.commute mult_le_mono2)

lemma vals_append: "width * n \<le> length bs \<Longrightarrow> vals n (bs @ cs) = vals n bs"
  unfolding vals_def
proof (rule map_cong)
  fix i assume "i \<in> set [0..<n]" and "width * n \<le> length bs"
  then have "width * i + width \<le> length bs" using width_mult_le[of i n] by simp
  then show "val (slice (width * i) width (bs @ cs)) = val (slice (width * i) width bs)"
    by (simp add: slice_def)
qed simp

lemma vals_snoc:
  "length bs = width * n \<Longrightarrow> length cs = width \<Longrightarrow> vals (Suc n) (bs @ cs) = vals n bs @ [val cs]"
  using vals_append[of n bs cs] by (simp add: vals_def slice_def)

lemma vals_concat: "length xs = n \<Longrightarrow> vals n (concat (map bytes xs)) = xs"
proof (induction xs arbitrary: n rule: rev_induct)
  case Nil
  then show ?case by (simp add: vals_def)
next
  case (snoc x xs)
  then show ?case
    using vals_snoc[of "concat (map bytes xs)" "length xs" "bytes x"]
    by (auto simp: length_concat_bytes length_bytes val_bytes)
qed

lemma concat_vals:
  "length bs = width * n \<Longrightarrow> concat (map bytes (vals n bs)) = bs"
proof (induction n arbitrary: bs)
  case 0
  then show ?case by (simp add: vals_def)
next
  case (Suc n)
  let ?a = "take (width * n) bs" and ?z = "drop (width * n) bs"
  have "length ?a = width * n" "length ?z = width" using Suc.prems by simp_all
  then have "vals (Suc n) (?a @ ?z) = vals n ?a @ [val ?z]" by (rule vals_snoc)
  then show ?case using Suc.IH[of ?a] Suc.prems by (simp add: bytes_val)
qed

lemma length_vals [simp]: "length (vals n bs) = n"
  by (simp add: vals_def)

text \<open>
  The loop that decodes into an array field of a struct, one store per element; the field is
  given by its selector and its update.
\<close>

lemma slice_slice: "i + m \<le> n \<Longrightarrow> slice i m (slice p n b) = slice (p + i) m b"
  by (simp add: slice_def drop_take min_def add.commute)

lemma get_array_prefix:
  assumes lens: "\<And>x s. sel (upd x s) = x" "\<And>x y s. upd x (upd y s) = upd x s" "\<And>s. upd (sel s) s = s"
    and len: "length (sel s) = n" and k: "k \<le> n" and fits: "p + width * k \<le> length b"
  shows "foldM (\<lambda>i (s, p). Option.bind (get b p)
            (\<lambda>v. map_option (\<lambda>arr. (upd arr s, p + width)) (store (sel s) i v))) [0..<k] (s, p)
        = Some (upd (vals k (slice p (width * k) b) @ drop k (sel s)) s, p + width * k)"
  using k fits
proof (induction k)
  case 0
  then show ?case by (simp add: vals_def lens)
next
  case (Suc k)
  let ?xs = "vals k (slice p (width * k) b)" and ?x = "val (slice (p + width * k) width b)"
  have drop: "drop k (sel s) = sel s ! k # drop (Suc k) (sel s)"
    using Suc.prems len by (simp add: Cons_nth_drop_Suc)
  have "(?xs @ drop k (sel s))[k := ?x] = (?xs @ [?x]) @ drop (Suc k) (sel s)"
    by (simp add: drop list_update_append)
  moreover have "vals (Suc k) (slice p (width * Suc k) b) = ?xs @ [?x]"
  proof -
    have "width * i + width \<le> width * k" if "i < k" for i
      using width_mult_le that .
    then show ?thesis by (auto simp: vals_def slice_slice)
  qed
  moreover have "get b (p + width * k) = Some ?x" using Suc.prems by (simp add: get_eq)
  moreover have "k < length (?xs @ drop k (sel s))" using Suc.prems len by simp
  ultimately show ?case
    using Suc by (simp add: foldM_append lens add.assoc add.commute)
qed

lemma get_array:
  assumes lens: "\<And>x s. sel (upd x s) = x" "\<And>x y s. upd x (upd y s) = upd x s" "\<And>s. upd (sel s) s = s"
    and P: "\<And>s. P s \<Longrightarrow> length (sel s) = n" "\<And>x s. P s \<Longrightarrow> length x = n \<Longrightarrow> P (upd x s)"
  shows "reads P (\<lambda>b. foldM (\<lambda>i (s, p). Option.bind (get b p)
            (\<lambda>v. map_option (\<lambda>arr. (upd arr s, p + width)) (store (sel s) i v))) [0..<n])
        (width * n) (\<lambda>bs. upd (vals n bs))"
  unfolding reads_def
  using get_array_prefix[OF lens, of _ n n] P by simp

lemma get_one:
  assumes "\<And>x s. P s \<Longrightarrow> P (upd x s)"
  shows "reads P (\<lambda>b (s, p). Option.bind (get b p) (\<lambda>v. Some (upd v s, p + width)))
        width (\<lambda>bs. upd (val bs))"
  unfolding reads_def using assms by (simp add: get_eq)

lemma decodes_array:
  assumes "decodes P g m v"
    and "\<And>x s. sel (upd x s) = x" "\<And>x y s. upd x (upd y s) = upd x s" "\<And>s. upd (sel s) s = s"
    and "\<And>s. P s \<Longrightarrow> length (sel s) = n" "\<And>x s. P s \<Longrightarrow> length x = n \<Longrightarrow> P (upd x s)"
  shows "decodes P (\<lambda>b (s, p). Option.bind (foldM (\<lambda>i (s, p). Option.bind (get b p)
            (\<lambda>v. map_option (\<lambda>arr. (upd arr s, p + width)) (store (sel s) i v))) [0..<n] (s, p)) (g b))
        (width * n + m) (\<lambda>bs s. v (drop (width * n) bs) (upd (vals n (take (width * n) bs)) s))"
  by (rule decodes_bind[OF get_array assms(1)]) (fact assms)+

lemma decodes_one:
  assumes "decodes P g m v" and "\<And>x s. P s \<Longrightarrow> P (upd x s)"
  shows "decodes P (\<lambda>b (s, p). Option.bind (Option.bind (get b p) (\<lambda>v. Some (upd v s, p + width))) (g b))
        (width + m) (\<lambda>bs s. v (drop width bs) (upd (val (take width bs)) s))"
  using decodes_bind[OF get_one assms(1)] assms(2) by simp

end

lemma be_bytes_be_value_length:
  "length bs = n \<Longrightarrow> 8 * n \<le> LENGTH('a) \<Longrightarrow> be_bytes n (be_value bs :: 'a::len word) = bs"
  using be_bytes_be_value[of bs, where 'a = 'a] by simp

lemmas codec_simps = be_value_be_bytes be_bytes_be_value_length

interpretation u8c: scalar_codec serialize_u8 deserialize_u8 1 "be_bytes 1" be_value
  by unfold_locales
    (simp_all add: serialize_u8_emits One_nat_def[symmetric] deserialize_u8_eq codec_simps del: be_bytes_1 One_nat_def)

interpretation u16c: scalar_codec serialize_u16 deserialize_u16 2 "be_bytes 2" be_value
  by unfold_locales (simp_all add: serialize_u16_emits deserialize_u16_eq codec_simps)

interpretation u32c: scalar_codec serialize_u32 deserialize_u32 4 "be_bytes 4" be_value
  by unfold_locales (simp_all add: serialize_u32_emits deserialize_u32_eq codec_simps)

interpretation u64c: scalar_codec serialize_u64 deserialize_u64 8 "be_bytes 8" be_value
  by unfold_locales (simp_all add: serialize_u64_emits deserialize_u64_eq codec_simps)

end
