(* ===== verification/DesCipher.thy ===== *)
theory DesCipher
  imports SocketTools
begin

text \<open>
  \<^verbatim>\<open>DES/cipher.c\<close> (one copy in the client, one in the server): the key table, the
  choice of a key from the user identity, and the 8-byte block cipher
  \<^verbatim>\<open>own_encrypt\<close> / \<^verbatim>\<open>own_decrypt\<close>.  A \<^verbatim>\<open>long long\<close> is a
  \<^verbatim>\<open>u64\<close> in two's complement; its right shift is arithmetic
  (\<^verbatim>\<open>signed_drop_bit\<close>) and its arithmetic wraps around.  The code reads arrays of
  bytes through \<^verbatim>\<open>int\<close> and \<^verbatim>\<open>long long\<close> pointers; the model is that of
  the little-endian machines the program runs on (\<^verbatim>\<open>le_value\<close>).
\<close>

unbundle bit_operations_syntax

definition le_value :: "u8 list \<Rightarrow> 'a::len word" where
  "le_value bs = be_value (rev bs)"

section \<open>Strings of digits\<close>

function str2Int_loop :: "u8 list \<Rightarrow> int \<Rightarrow> nat \<Rightarrow> int \<Rightarrow> int option" where
  "str2Int_loop strIn strLen i temp =
     (case load strIn i of
        None \<Rightarrow> None
      | Some c \<Rightarrow>
          if c \<noteq> 0 \<and> int i < strLen
          then str2Int_loop strIn strLen (Suc i) (int32 (temp * 10 + sint c - 48))
          else Some temp)"
  by pat_completeness auto
termination
  by (relation "measure (\<lambda>(s, n, i, t). nat n - i)") auto

declare str2Int_loop.simps [simp del]

definition str2Int :: "u8 list \<Rightarrow> int \<Rightarrow> int option" where
  "str2Int strIn strLen = str2Int_loop strIn strLen 0 0"

function str2longlong_loop :: "u8 list \<Rightarrow> int \<Rightarrow> nat \<Rightarrow> u64 \<Rightarrow> u64 option" where
  "str2longlong_loop strIn strLen i num =
     (case load strIn i of
        None \<Rightarrow> None
      | Some c \<Rightarrow>
          if c \<noteq> 0 \<and> int i < strLen
          then str2longlong_loop strIn strLen (Suc i)
            (if 48 \<le> sint c \<and> sint c \<le> 57
             then num * 16 + word_of_int (sint c - 48)
             else num * 16 + word_of_int (sint c - 97 + 10))
          else Some num)"
  by pat_completeness auto
termination
  by (relation "measure (\<lambda>(s, n, i, t). nat n - i)") auto

declare str2longlong_loop.simps [simp del]

definition str2longlong :: "u8 list \<Rightarrow> int \<Rightarrow> u64 option" where
  "str2longlong strIn strLen = str2longlong_loop strIn strLen 0 0"

section \<open>The generator of the key table\<close>

text \<open>Bits are the characters 0 (48) and 1 (49), least significant bit first.\<close>

definition longlong2bits :: "u64 \<Rightarrow> u8 list \<Rightarrow> nat \<Rightarrow> u8 list option" where
  "longlong2bits longIn strOut strLen =
     map_option fst
       (foldM (\<lambda>i (strOut, temp).
          map_option
            (\<lambda>s. (s, if temp smod 2 = 0 then temp sdiv 2 else (temp - 1) sdiv 2))
            (store strOut i (if temp smod 2 = 0 then 48 else 49)))
        [0..<strLen] (strOut, sint longIn))"

definition bits2longlong :: "u8 list \<Rightarrow> nat \<Rightarrow> u64 option" where
  "bits2longlong strIn strLen =
     foldM (\<lambda>i temp. if i \<le> 63 then
         map_option (\<lambda>c. if c = 48 then temp * 2 else temp * 2 + 1) (load strIn (63 - i))
       else None) [0..<strLen] 0"

definition copy_bits :: "u8 list \<Rightarrow> nat \<Rightarrow> nat \<Rightarrow> u8 list \<Rightarrow> u8 list option" where
  "copy_bits oldBits a b newBits =
     foldM (\<lambda>i newBits. do { x \<leftarrow> load oldBits (i - 1); store newBits i x }) [a..<b] newBits"

definition tap_bit :: "u8 list \<Rightarrow> nat \<Rightarrow> nat \<Rightarrow> u8 list \<Rightarrow> u8 list option" where
  "tap_bit oldBits i fb newBits = do {
     x \<leftarrow> load oldBits (i - 1);
     y \<leftarrow> load oldBits fb;
     store newBits i (if x = y then 48 else 49)
   }"

definition move_bit :: "u8 list \<Rightarrow> nat \<Rightarrow> nat \<Rightarrow> u8 list \<Rightarrow> u8 list option" where
  "move_bit oldBits i j newBits = do { x \<leftarrow> load oldBits j; store newBits i x }"

definition nxt_Bits :: "u8 list \<Rightarrow> u8 list \<Rightarrow> u8 list option" where
  "nxt_Bits oldBits newBits = do {
     newBits \<leftarrow> move_bit oldBits 0 31 newBits;
     newBits \<leftarrow> move_bit oldBits 1 0 newBits;
     newBits \<leftarrow> tap_bit oldBits 2 31 newBits;
     newBits \<leftarrow> copy_bits oldBits 3 6 newBits;
     newBits \<leftarrow> tap_bit oldBits 6 31 newBits;
     newBits \<leftarrow> tap_bit oldBits 7 31 newBits;
     newBits \<leftarrow> copy_bits oldBits 8 32 newBits;
     newBits \<leftarrow> move_bit oldBits 32 63 newBits;
     newBits \<leftarrow> move_bit oldBits 33 32 newBits;
     newBits \<leftarrow> tap_bit oldBits 34 63 newBits;
     newBits \<leftarrow> copy_bits oldBits 35 38 newBits;
     newBits \<leftarrow> tap_bit oldBits 38 63 newBits;
     newBits \<leftarrow> tap_bit oldBits 39 63 newBits;
     copy_bits oldBits 40 64 newBits
   }"

definition nxt_Value :: "u64 \<Rightarrow> u64 option" where
  "nxt_Value old_l = do {
     oldBits \<leftarrow> longlong2bits old_l (replicate 65 0) 64;
     newBits \<leftarrow> nxt_Bits oldBits (replicate 65 0);
     bits2longlong newBits 64
   }"

definition INIT_SEED :: u64 where "INIT_SEED = 0x5555555555555557"
definition TABLE_SIZE :: nat where "TABLE_SIZE = 1024 * 16"

definition des_key_init :: "u64 list \<Rightarrow> nat \<Rightarrow> u64 \<Rightarrow> u64 list option" where
  "des_key_init keyTableBase keyTableSize initSeed =
     map_option fst
       (foldM (\<lambda>i (table, seed_l). do {
           table \<leftarrow> store table i seed_l;
           seed_l_nxt \<leftarrow> nxt_Value seed_l;
           Some (table, seed_l_nxt)
         }) [0..<keyTableSize] (keyTableBase, initSeed))"

section \<open>The key of a user\<close>

definition key_fold :: "u64 \<Rightarrow> nat \<Rightarrow> u64 \<times> nat \<Rightarrow> u64 \<times> nat" where
  "key_fold word i = (\<lambda>(keyOffset, shift).
     (keyOffset XOR (signed_drop_bit shift word AND 0x3fff), shift + 14))"

definition key_offset :: "u8 list \<Rightarrow> u8 list \<Rightarrow> u64" where
  "key_offset temp1UserID temp2UserID =
     (let (keyOffset, shift) = fold (key_fold (le_value temp1UserID)) [0..<4] (0, 0);
          (keyOffset, shift) = fold (key_fold (le_value temp2UserID)) [0..<4] (keyOffset, 0)
      in keyOffset)"

definition get_key_from_userID :: "u8 list \<Rightarrow> nat \<Rightarrow> u64 list \<Rightarrow> u64 option" where
  "get_key_from_userID b userID keyTableBase = do {
     temp1UserID \<leftarrow> those (map (\<lambda>k. load b (userID + k)) [15, 14, 13, 12, 11, 10, 9, 8]);
     temp2UserID \<leftarrow> those (map (\<lambda>k. load b (userID + k)) [8, 7, 6, 5, 4, 3, 2, 1]);
     let keyOffset = key_offset temp1UserID temp2UserID;
     let index = sint keyOffset smod int TABLE_SIZE;
     if index < 0 then None else load keyTableBase (nat index)
   }"

section \<open>The block cipher\<close>

definition longlong2char :: "u64 \<Rightarrow> u8 list \<Rightarrow> nat \<Rightarrow> u8 list option" where
  "longlong2char longIn strOut p =
     map_option fst
       (foldM (\<lambda>i (strOut, longIn).
          map_option (\<lambda>s. (s, signed_drop_bit 8 longIn)) (store strOut (p + i) (ucast (longIn AND 0xff))))
        [0..<8] (strOut, longIn))"

text \<open>\<^verbatim>\<open>n\<close> iterations of the counting loop are left; \<^verbatim>\<open>break\<close> ends it.\<close>

fun cal_loop :: "nat \<Rightarrow> int \<Rightarrow> nat \<Rightarrow> nat" where
  "cal_loop 0 dataIn result = result"
| "cal_loop (Suc n) dataIn result =
     (if dataIn = 0 then result
      else if dataIn smod 2 = 1 then cal_loop n ((dataIn - 1) sdiv 2) (result + 1)
      else cal_loop n (dataIn sdiv 2) result)"

definition cal_nonzero_bits :: "int \<Rightarrow> nat" where
  "cal_nonzero_bits dataIn = cal_loop 32 dataIn 0"

definition ENCRYPT :: u32 where "ENCRYPT = 0x00001234"

definition key_part :: "u64 \<Rightarrow> nat \<Rightarrow> u32" where
  "key_part key s = ucast (signed_drop_bit s key AND 0x000000000000ffff)"

definition own_encrypt :: "u8 list \<Rightarrow> u8 list \<Rightarrow> nat \<Rightarrow> u64 \<Rightarrow> u8 list option" where
  "own_encrypt strIn strOut p key = do {
     s \<leftarrow> those (map (load strIn) [0..<8]);
     let clr_data0 = le_value [s ! 0, s ! 1, 0, 0];
     let clr_data1 = le_value [s ! 2, s ! 3, 0, 0];
     let clr_data2 = le_value [s ! 4, s ! 5, 0, 0];
     let clr_data3 = le_value [s ! 6, s ! 7, 0, 0];
     let key0 = key_part key 0;
     let key1 = key_part key 16;
     let key2 = key_part key 32;
     let key3 = key_part key 48;
     let one_cnt0 = cal_nonzero_bits (sint key0);
     let one_cnt1 = cal_nonzero_bits (sint key1);
     let one_cnt2 = cal_nonzero_bits (sint key2);
     let one_cnt3 = cal_nonzero_bits (sint key3);
     let xor_r10 = ENCRYPT XOR clr_data0;
     let lp_left_r0 = push_bit one_cnt0 xor_r10;
     let xor_r20 = (drop_bit 16 lp_left_r0 XOR (lp_left_r0 AND 0x0000ffff)) XOR key0;
     let xor_r11 = xor_r20 XOR clr_data1;
     let lp_left_r1 = push_bit one_cnt1 xor_r11;
     let xor_r21 = (drop_bit 16 lp_left_r1 XOR (lp_left_r1 AND 0x0000ffff)) XOR key1;
     let xor_r12 = xor_r21 XOR clr_data2;
     let lp_left_r2 = push_bit one_cnt2 xor_r12;
     let xor_r22 = (drop_bit 16 lp_left_r2 XOR (lp_left_r2 AND 0x0000ffff)) XOR key2;
     let xor_r13 = xor_r22 XOR clr_data3;
     let lp_left_r3 = push_bit one_cnt3 xor_r13;
     let xor_r23 = (drop_bit 16 lp_left_r3 XOR (lp_left_r3 AND 0x0000ffff)) XOR key3;
     let result = (ucast xor_r23 :: u64);
     let result = push_bit 16 result OR ucast xor_r22;
     let result = push_bit 16 result OR ucast xor_r21;
     let result = push_bit 16 result OR ucast xor_r20;
     longlong2char result strOut p
   }"

definition own_decrypt :: "u8 list \<Rightarrow> u8 list \<Rightarrow> nat \<Rightarrow> u64 \<Rightarrow> u8 list option" where
  "own_decrypt strIn strOut p key = do {
     s \<leftarrow> those (map (load strIn) [0..<8]);
     let clr_data0 = le_value [s ! 0, s ! 1, 0, 0];
     let clr_data1 = le_value [s ! 2, s ! 3, 0, 0];
     let clr_data2 = le_value [s ! 4, s ! 5, 0, 0];
     let clr_data3 = le_value [s ! 6, s ! 7, 0, 0];
     let key0 = key_part key 0;
     let key1 = key_part key 16;
     let key2 = key_part key 32;
     let key3 = key_part key 48;
     let one_cnt0 = cal_nonzero_bits (sint key0);
     let one_cnt1 = cal_nonzero_bits (sint key1);
     let one_cnt2 = cal_nonzero_bits (sint key2);
     let one_cnt3 = cal_nonzero_bits (sint key3);
     let xor_r10 = key0 XOR clr_data0;
     let xor_r11 = key1 XOR clr_data1;
     let xor_r12 = key2 XOR clr_data2;
     let xor_r13 = key3 XOR clr_data3;
     let lp_right_r0 = drop_bit one_cnt0 (push_bit 16 xor_r10);
     let lp_right_r1 = drop_bit one_cnt1 (push_bit 16 xor_r11);
     let lp_right_r2 = drop_bit one_cnt2 (push_bit 16 xor_r12);
     let lp_right_r3 = drop_bit one_cnt3 (push_bit 16 xor_r13);
     let xor_r20 = (drop_bit 16 lp_right_r0 XOR (lp_right_r0 AND 0x0000ffff)) XOR ENCRYPT;
     let xor_r21 = (drop_bit 16 lp_right_r1 XOR (lp_right_r1 AND 0x0000ffff)) XOR clr_data0;
     let xor_r22 = (drop_bit 16 lp_right_r2 XOR (lp_right_r2 AND 0x0000ffff)) XOR clr_data1;
     let xor_r23 = (drop_bit 16 lp_right_r3 XOR (lp_right_r3 AND 0x0000ffff)) XOR clr_data2;
     let result = (ucast xor_r23 :: u64);
     let result = push_bit 16 result OR ucast xor_r22;
     let result = push_bit 16 result OR ucast xor_r21;
     let result = push_bit 16 result OR ucast xor_r20;
     longlong2char result strOut p
   }"

section \<open>Counting the one bits of a key part\<close>

definition ones :: "nat \<Rightarrow> int \<Rightarrow> nat" where
  "ones n x = card {i. i < n \<and> bit x i}"

lemma ones_0 [simp]: "ones 0 x = 0"
  by (simp add: ones_def)

lemma ones_zero [simp]: "ones n 0 = 0"
  by (simp add: ones_def)

lemma ones_le: "ones n x \<le> n"
  unfolding ones_def using card_mono[of "{..<n}" "{i. i < n \<and> bit x i}"] by auto

lemma ones_Suc: "ones (Suc n) x = of_bool (odd x) + ones n (x div 2)"
proof -
  have "{i. i < Suc n \<and> bit x i} = (if odd x then {0} else {}) \<union> Suc ` {i. i < n \<and> bit (x div 2) i}"
    by (auto simp: bit_0 bit_Suc image_iff elim: less_SucE intro: gr0_implies_Suc)
      (metis Suc_less_eq bit_0 bit_Suc not0_implies_Suc)+
  moreover have "card (Suc ` {i. i < n \<and> bit (x div 2) i}) = ones n (x div 2)"
    by (simp add: ones_def card_image)
  ultimately show ?thesis by (auto simp: ones_def card_insert_if)
qed

lemma cal_loop_ones: "0 \<le> x \<Longrightarrow> x < 2 ^ n \<Longrightarrow> cal_loop n x r = r + ones n x"
proof (induction n arbitrary: x r)
  case 0
  then show ?case by simp
next
  case (Suc n)
  have "x mod 2 = 1 \<longleftrightarrow> odd x" by presburger
  moreover have "(x - 1) div 2 = x div 2" if "odd x" using that by presburger
  moreover have "0 \<le> x div 2" "x div 2 < 2 ^ n" using Suc.prems by auto
  ultimately show ?case using Suc.prems Suc.IH[of "x div 2"] by (auto simp: ones_Suc)
qed

lemma ones_extend: "0 \<le> x \<Longrightarrow> x < 2 ^ m \<Longrightarrow> m \<le> n \<Longrightarrow> ones n x = ones m x"
proof -
  assume x: "0 \<le> x" "x < 2 ^ m" and "m \<le> n"
  have "take_bit m x = x" using x by (simp add: take_bit_int_eq_self)
  then have "i < m" if "bit x i" for i by (metis bit_take_bit_iff that)
  then have "{i. i < n \<and> bit x i} = {i. i < m \<and> bit x i}" using \<open>m \<le> n\<close> by fastforce
  then show ?thesis by (simp add: ones_def)
qed

lemma cal_nonzero_bits_ones: "0 \<le> x \<Longrightarrow> x < 2 ^ 32 \<Longrightarrow> cal_nonzero_bits x = ones 32 x"
  by (simp add: cal_nonzero_bits_def cal_loop_ones)

section \<open>Sixteen-bit words in 32-bit variables\<close>

definition is16 :: "u32 \<Rightarrow> bool" where
  "is16 x \<longleftrightarrow> take_bit 16 x = x"

lemma is16_bit: "is16 x \<Longrightarrow> bit x n \<Longrightarrow> n < 16"
  by (metis is16_def bit_take_bit_iff)

lemma is16_high: "is16 x \<Longrightarrow> 16 \<le> n \<Longrightarrow> \<not> bit x n"
  using is16_bit[of x n] by auto

lemma is16I: "(\<And>n. bit x n \<Longrightarrow> n < 16) \<Longrightarrow> is16 x"
  unfolding is16_def by (rule bit_word_eqI) (auto simp: bit_simps)

lemma is16_xor [simp]: "is16 x \<Longrightarrow> is16 y \<Longrightarrow> is16 (x XOR y)"
  by (auto intro!: is16I dest: is16_bit simp: bit_simps)

lemma is16_ENCRYPT [simp]: "is16 ENCRYPT"
  by (simp add: is16_def ENCRYPT_def)

lemma and_ff: "(x :: 'a::len word) AND 0xff = take_bit 8 x"
  by (simp add: take_bit_eq_mask mask_eq_exp_minus_1)

lemma and_ffff: "(x :: 'a::len word) AND 0xffff = take_bit 16 x"
  by (simp add: take_bit_eq_mask mask_eq_exp_minus_1)

lemma is16_key_part [simp]: "is16 (key_part key s)"
  by (rule is16I) (simp add: key_part_def and_ffff bit_simps)

text \<open>
  One rotation of the cipher, as the code computes it in 32 bits, and its inverse; on 16-bit
  values both are rotations by \<^verbatim>\<open>n\<close> places.
\<close>

definition rot_left :: "nat \<Rightarrow> u32 \<Rightarrow> u32" where
  "rot_left n x = drop_bit 16 (push_bit n x) XOR (push_bit n x AND 0x0000ffff)"

definition rot_right :: "nat \<Rightarrow> u32 \<Rightarrow> u32" where
  "rot_right n y = drop_bit 16 (drop_bit n (push_bit 16 y)) XOR (drop_bit n (push_bit 16 y) AND 0x0000ffff)"

lemma bit_rot_left:
  "n \<le> 16 \<Longrightarrow> is16 x \<Longrightarrow> bit (rot_left n x) i \<longleftrightarrow> i < 16 \<and> bit x (if n \<le> i then i - n else i + 16 - n)"
  by (auto simp: rot_left_def and_ffff bit_simps add.commute dest: is16_bit)

lemma bit_rot_right:
  "n \<le> 16 \<Longrightarrow> is16 x \<Longrightarrow> bit (rot_right n x) i \<longleftrightarrow> i < 16 \<and> bit x (if i + n < 16 then i + n else i + n - 16)"
  by (auto simp: rot_right_def and_ffff bit_simps add.commute dest: is16_bit)

lemma is16_rot [simp]:
  "n \<le> 16 \<Longrightarrow> is16 x \<Longrightarrow> is16 (rot_left n x)" "n \<le> 16 \<Longrightarrow> is16 x \<Longrightarrow> is16 (rot_right n x)"
  by (auto intro!: is16I simp: bit_rot_left bit_rot_right)

lemma rot_right_left: "n \<le> 16 \<Longrightarrow> is16 x \<Longrightarrow> rot_right n (rot_left n x) = x"
  by (rule bit_word_eqI) (auto simp: bit_rot_left bit_rot_right dest: is16_bit)

lemma rot_left_right: "n \<le> 16 \<Longrightarrow> is16 x \<Longrightarrow> rot_left n (rot_right n x) = x"
  by (rule bit_word_eqI) (auto simp: bit_rot_left bit_rot_right dest: is16_bit)

section \<open>The block cipher as chained rotations\<close>

text \<open>
  The specification of the cipher: each 16-bit word is combined with the previous ciphertext
  word, rotated by the number of ones of its key part, and combined with the key part.
\<close>

definition rot_count :: "u32 \<Rightarrow> nat" where
  "rot_count k = ones 16 (uint k)"

fun enc_words :: "u32 \<Rightarrow> u32 list \<Rightarrow> u32 list \<Rightarrow> u32 list" where
  "enc_words prev (k # ks) (x # xs) =
     (let y = rot_left (rot_count k) (prev XOR x) XOR k in y # enc_words y ks xs)"
| "enc_words prev ks xs = []"

fun dec_words :: "u32 \<Rightarrow> u32 list \<Rightarrow> u32 list \<Rightarrow> u32 list" where
  "dec_words prev (k # ks) (y # ys) =
     (rot_right (rot_count k) (k XOR y) XOR prev) # dec_words y ks ys"
| "dec_words prev ks ys = []"

lemma rot_count_le [simp]: "rot_count k \<le> 16"
  by (simp add: rot_count_def ones_le)

lemma enc_words_is16:
  "is16 prev \<Longrightarrow> list_all is16 ks \<Longrightarrow> list_all is16 xs \<Longrightarrow> list_all is16 (enc_words prev ks xs)"
  by (induction prev ks xs rule: enc_words.induct) (auto simp: Let_def)

lemma length_enc_words [simp]: "length (enc_words prev ks xs) = min (length ks) (length xs)"
  by (induction prev ks xs rule: enc_words.induct) (auto simp: Let_def)

lemma length_dec_words [simp]: "length (dec_words prev ks ys) = min (length ks) (length ys)"
  by (induction prev ks ys rule: dec_words.induct) auto

lemma xor_cancel: "k XOR (x XOR k) = (x :: 'a::len word)" "(p XOR x) XOR p = x" "(k XOR y) XOR k = y"
  by (rule bit_word_eqI; auto simp: bit_simps)+

lemma dec_enc_words:
  "is16 prev \<Longrightarrow> list_all is16 ks \<Longrightarrow> list_all is16 xs \<Longrightarrow> length xs \<le> length ks \<Longrightarrow>
     dec_words prev ks (enc_words prev ks xs) = xs"
  by (induction prev ks xs rule: enc_words.induct) (auto simp: Let_def xor_cancel rot_right_left)

lemma enc_dec_words:
  "is16 prev \<Longrightarrow> list_all is16 ks \<Longrightarrow> list_all is16 ys \<Longrightarrow> length ys \<le> length ks \<Longrightarrow>
     enc_words prev ks (dec_words prev ks ys) = ys"
  by (induction prev ks ys rule: dec_words.induct)
    (auto simp: Let_def xor_cancel rot_left_right)

text \<open>Both directions are causal: a prefix of the output needs a prefix of the input only.\<close>

lemma take_enc_words: "take n (enc_words prev ks xs) = enc_words prev ks (take n xs)"
  by (induction prev ks xs arbitrary: n rule: enc_words.induct)
    (auto simp: Let_def take_Cons split: nat.splits)

lemma take_dec_words: "take n (dec_words prev ks xs) = dec_words prev ks (take n xs)"
  by (induction prev ks xs arbitrary: n rule: dec_words.induct) (auto simp: take_Cons split: nat.splits)

section \<open>Words and bytes\<close>

definition word_of_pair :: "u8 \<Rightarrow> u8 \<Rightarrow> u32" where
  "word_of_pair a b = le_value [a, b, 0, 0]"

fun words_of :: "u8 list \<Rightarrow> u32 list" where
  "words_of (a # b # bs) = word_of_pair a b # words_of bs"
| "words_of bs = []"

fun bytes_of :: "u32 list \<Rightarrow> u8 list" where
  "bytes_of [] = []"
| "bytes_of (x # xs) = ucast x # ucast (drop_bit 8 x) # bytes_of xs"

definition key_parts :: "u64 \<Rightarrow> u32 list" where
  "key_parts key = map (key_part key) [0, 16, 32, 48]"

definition enc_block :: "u64 \<Rightarrow> u8 list \<Rightarrow> u8 list" where
  "enc_block key bs = bytes_of (enc_words ENCRYPT (key_parts key) (words_of bs))"

definition dec_block :: "u64 \<Rightarrow> u8 list \<Rightarrow> u8 list" where
  "dec_block key bs = bytes_of (dec_words ENCRYPT (key_parts key) (words_of bs))"

lemma bit_word_of_pair:
  "bit (word_of_pair a b) n \<longleftrightarrow> (if n < 8 then bit a n else bit b (n - 8))"
  by (auto simp: word_of_pair_def le_value_def be_value_def push_add_or bit_simps
      dest: bit_imp_le_length)

lemma is16_word_of_pair [simp]: "is16 (word_of_pair a b)"
  by (rule is16I) (auto simp: bit_word_of_pair split: if_splits dest: bit_imp_le_length)

lemma pair_word [simp]:
  "ucast (word_of_pair a b) = a" "ucast (drop_bit 8 (word_of_pair a b)) = b"
  by (rule bit_word_eqI; auto simp: bit_simps bit_word_of_pair)+

lemma word_pair: "is16 x \<Longrightarrow> word_of_pair (ucast x) (ucast (drop_bit 8 x)) = x"
  by (rule bit_word_eqI) (auto simp: bit_simps bit_word_of_pair add.commute dest: is16_bit)

lemma list_all_words_of [simp]: "list_all is16 (words_of bs)"
  by (induction bs rule: words_of.induct) auto

lemma words_of_bytes_of: "list_all is16 xs \<Longrightarrow> words_of (bytes_of xs) = xs"
  by (induction xs) (auto simp: word_pair)

lemma bytes_of_words_of: "even (length bs) \<Longrightarrow> bytes_of (words_of bs) = bs"
  by (induction bs rule: words_of.induct) auto

lemma length_words_of [simp]: "length (words_of bs) = length bs div 2"
  by (induction bs rule: words_of.induct) auto

lemma length_bytes_of [simp]: "length (bytes_of xs) = 2 * length xs"
  by (induction xs) auto

lemma take_words_of: "words_of (take (2 * n) bs) = take n (words_of bs)"
  by (induction bs arbitrary: n rule: words_of.induct) (auto simp: take_Cons split: nat.splits)

lemma take_bytes_of: "take (2 * n) (bytes_of xs) = bytes_of (take n xs)"
  by (induction xs arbitrary: n) (auto simp: take_Cons split: nat.splits)

lemma key_parts_simps [simp]: "length (key_parts key) = 4" "list_all is16 (key_parts key)"
  by (simp_all add: key_parts_def)

lemma length_enc_block [simp]: "length bs = 8 \<Longrightarrow> length (enc_block key bs) = 8"
  by (simp add: enc_block_def)

lemma length_dec_block [simp]: "length bs = 8 \<Longrightarrow> length (dec_block key bs) = 8"
  by (simp add: dec_block_def)

lemma dec_enc_block: "length bs = 8 \<Longrightarrow> dec_block key (enc_block key bs) = bs"
  by (simp add: enc_block_def dec_block_def words_of_bytes_of enc_words_is16 dec_enc_words
      bytes_of_words_of)

lemma dec_words_is16:
  "is16 prev \<Longrightarrow> list_all is16 ks \<Longrightarrow> list_all is16 xs \<Longrightarrow> list_all is16 (dec_words prev ks xs)"
  by (induction prev ks xs rule: dec_words.induct) auto

lemma enc_dec_block: "length bs = 8 \<Longrightarrow> enc_block key (dec_block key bs) = bs"
  by (simp add: enc_block_def dec_block_def words_of_bytes_of dec_words_is16 enc_dec_words
      bytes_of_words_of)

lemma dec_block_prefix:
  "take (2 * n) bs = take (2 * n) cs \<Longrightarrow> take (2 * n) (dec_block key bs) = take (2 * n) (dec_block key cs)"
  by (simp add: dec_block_def take_bytes_of take_dec_words flip: take_words_of)

lemma enc_block_prefix:
  "take (2 * n) bs = take (2 * n) cs \<Longrightarrow> take (2 * n) (enc_block key bs) = take (2 * n) (enc_block key cs)"
  by (simp add: enc_block_def take_bytes_of take_enc_words flip: take_words_of)

section \<open>The code computes the block functions\<close>

lemma longlong2char_prefix:
  fixes v :: u64 and b :: "u8 list"
  assumes "n \<le> 8"
  shows "foldM (\<lambda>i (strOut, longIn).
          map_option (\<lambda>s. (s, signed_drop_bit 8 longIn)) (store strOut (p + i) (ucast (longIn AND 0xff))))
        [0..<n] (b, v) =
      (if n = 0 \<or> p + n \<le> length b
       then Some (splice b p (map (\<lambda>i. ucast (drop_bit (8 * i) v)) [0..<n]), signed_drop_bit (8 * n) v)
       else None)"
  using assms
proof (induction n)
  case 0
  then show ?case by simp
next
  case (Suc n)
  have byte: "(ucast (signed_drop_bit (8 * n) v AND 0xff) :: u8) = ucast (drop_bit (8 * n) v)"
    using Suc.prems by (intro bit_word_eqI) (auto simp: and_ff bit_simps)
  have "length b \<le> p + n" if "\<not> p + Suc n \<le> length b" "n = 0 \<or> p + n \<le> length b"
    using that by auto
  moreover have "(splice b p (map (\<lambda>i. ucast (drop_bit (8 * i) v)) [0..<n]))[p + n := ucast (drop_bit (8 * n) v)]
      = splice b p (map (\<lambda>i. ucast (drop_bit (8 * i) v)) [0..<Suc n])" if "p + n < length b"
    using that splice_snoc[of p "map (\<lambda>i. ucast (drop_bit (8 * i) v)) [0..<n]" b] by simp
  ultimately show ?case
    using Suc byte
    by (cases "n = 0"; cases "p + n < length b") (simp_all add: foldM_append foldM_single)
qed

lemma longlong2char_eq:
  "longlong2char v b p =
     (if p + 8 \<le> length b then Some (splice b p (map (\<lambda>i. ucast (drop_bit (8 * i) v)) [0..<8])) else None)"
  unfolding longlong2char_def by (subst longlong2char_prefix) auto

lemma result_bytes:
  assumes "is16 r0" "is16 r1" "is16 r2" "is16 r3"
  shows "map (\<lambda>i. ucast (drop_bit (8 * i)
      (push_bit 16 (push_bit 16 (push_bit 16 (ucast r3 :: u64) OR ucast r2) OR ucast r1) OR ucast r0))) [0..<8]
    = bytes_of [r0, r1, r2, r3]"
  by (simp add: upt_rec)
    (intro conjI bit_word_eqI; simp add: bit_simps assms[THEN is16_high])

lemma uint_key_part: "uint (key_part key s) < 2 ^ 16"
  using is16_key_part[of key s]
  by (metis is16_def take_bit_int_less_exp unsigned_take_bit_eq)

lemma sint_key_part: "sint (key_part key s) = uint (key_part key s)"
proof -
  have "\<not> bit (key_part key s) 31" using is16_high[OF is16_key_part, of 31] by simp
  then show ?thesis by (simp add: sint_uint signed_take_bit_eq_if_positive take_bit_int_eq_self
        order.strict_trans[OF uint_key_part] bit_uint_iff)
qed

lemma one_cnt_key_part: "cal_nonzero_bits (sint (key_part key s)) = rot_count (key_part key s)"
  using uint_key_part[of key s]
  by (simp add: sint_key_part cal_nonzero_bits_ones rot_count_def ones_extend[of _ 16 32])

lemma word_of_pair_code: "le_value [a, b, 0, 0] = word_of_pair a b"
  by (simp add: word_of_pair_def)

lemma words_of_8:
  assumes "8 \<le> length s"
  shows "words_of (take 8 s) = [word_of_pair (s ! 0) (s ! 1), word_of_pair (s ! 2) (s ! 3),
    word_of_pair (s ! 4) (s ! 5), word_of_pair (s ! 6) (s ! 7)]"
proof -
  have "take 8 s = map ((!) s) [0..<8]" using assms by (intro nth_equalityI) auto
  then show ?thesis by (simp add: upt_0_8)
qed

lemma own_encrypt_words:
  assumes "8 \<le> length s" and "enc_words ENCRYPT (key_parts key) (words_of (take 8 s)) = [r0, r1, r2, r3]"
  shows "own_encrypt s b p key = longlong2char
      (push_bit 16 (push_bit 16 (push_bit 16 (ucast r3) OR ucast r2) OR ucast r1) OR ucast r0) b p"
proof -
  have r: "rot_left (rot_count (key_part key 0)) (ENCRYPT XOR word_of_pair (s ! 0) (s ! 1)) XOR key_part key 0 = r0"
    "rot_left (rot_count (key_part key 16)) (r0 XOR word_of_pair (s ! 2) (s ! 3)) XOR key_part key 16 = r1"
    "rot_left (rot_count (key_part key 32)) (r1 XOR word_of_pair (s ! 4) (s ! 5)) XOR key_part key 32 = r2"
    "rot_left (rot_count (key_part key 48)) (r2 XOR word_of_pair (s ! 6) (s ! 7)) XOR key_part key 48 = r3"
    using assms by (auto simp: words_of_8 key_parts_def Let_def simp del: One_nat_def)
  show ?thesis
    using assms(1) unfolding own_encrypt_def Let_def rot_left_def[symmetric] word_of_pair_code
    by (simp add: those_load one_cnt_key_part r del: One_nat_def)
qed

lemma own_encrypt_eq:
  "own_encrypt strIn strOut p key =
     (if 8 \<le> length strIn \<and> p + 8 \<le> length strOut
      then Some (splice strOut p (enc_block key (take 8 strIn))) else None)"
proof (cases "8 \<le> length strIn")
  case True
  let ?ws = "enc_words ENCRYPT (key_parts key) (words_of (take 8 strIn))"
  have "length ?ws = 4" using True by simp
  then obtain r0 r1 r2 r3 where r: "?ws = [r0, r1, r2, r3]"
    using list_of_length4 by blast
  have "list_all is16 ?ws" by (rule enc_words_is16) auto
  then have i: "is16 r0" "is16 r1" "is16 r2" "is16 r3" by (simp_all add: r)
  show ?thesis
    using True by (simp only: own_encrypt_words[OF True r] longlong2char_eq result_bytes[OF i] enc_block_def r simp_thms)
next
  case False
  then have "those (map (load strIn) [0..<8]) = None" by (simp add: those_load)
  with False show ?thesis by (simp only: own_encrypt_def Option.bind.simps simp_thms if_False)
qed

lemma own_decrypt_words:
  assumes "8 \<le> length s" and "dec_words ENCRYPT (key_parts key) (words_of (take 8 s)) = [r0, r1, r2, r3]"
  shows "own_decrypt s b p key = longlong2char
      (push_bit 16 (push_bit 16 (push_bit 16 (ucast r3) OR ucast r2) OR ucast r1) OR ucast r0) b p"
proof -
  have r: "rot_right (rot_count (key_part key 0)) (key_part key 0 XOR word_of_pair (s ! 0) (s ! 1)) XOR ENCRYPT = r0"
    "rot_right (rot_count (key_part key 16)) (key_part key 16 XOR word_of_pair (s ! 2) (s ! 3)) XOR word_of_pair (s ! 0) (s ! 1) = r1"
    "rot_right (rot_count (key_part key 32)) (key_part key 32 XOR word_of_pair (s ! 4) (s ! 5)) XOR word_of_pair (s ! 2) (s ! 3) = r2"
    "rot_right (rot_count (key_part key 48)) (key_part key 48 XOR word_of_pair (s ! 6) (s ! 7)) XOR word_of_pair (s ! 4) (s ! 5) = r3"
    using assms by (auto simp: words_of_8 key_parts_def simp del: One_nat_def)
  show ?thesis
    using assms(1) unfolding own_decrypt_def Let_def rot_right_def[symmetric] word_of_pair_code
    by (simp add: those_load one_cnt_key_part r del: One_nat_def)
qed

lemma own_decrypt_eq:
  "own_decrypt strIn strOut p key =
     (if 8 \<le> length strIn \<and> p + 8 \<le> length strOut
      then Some (splice strOut p (dec_block key (take 8 strIn))) else None)"
proof (cases "8 \<le> length strIn")
  case True
  let ?ws = "dec_words ENCRYPT (key_parts key) (words_of (take 8 strIn))"
  have "length ?ws = 4" using True by simp
  then obtain r0 r1 r2 r3 where r: "?ws = [r0, r1, r2, r3]"
    using list_of_length4 by blast
  have "list_all is16 ?ws" by (rule dec_words_is16) auto
  then have i: "is16 r0" "is16 r1" "is16 r2" "is16 r3" by (simp_all add: r)
  show ?thesis
    using True by (simp only: own_decrypt_words[OF True r] longlong2char_eq result_bytes[OF i] dec_block_def r simp_thms)
next
  case False
  then have "those (map (load strIn) [0..<8]) = None" by (simp add: those_load)
  with False show ?thesis by (simp only: own_decrypt_def Option.bind.simps simp_thms if_False)
qed

section \<open>The choice of a key\<close>

lemma be_value_acc:
  "fold (\<lambda>x value. push_bit 8 value + ucast x) bs (v :: 'a::len word)
     = push_bit (8 * length bs) v + be_value bs"
proof (induction bs arbitrary: v)
  case Nil
  then show ?case by (simp add: be_value_def)
next
  case (Cons x xs)
  have "be_value (x # xs) = push_bit (8 * length xs) (ucast x) + (be_value xs :: 'a word)"
    using Cons[of "ucast x"] by (simp add: be_value_def)
  then show ?case using Cons[of "push_bit 8 v + ucast x"] by (simp add: push_bit_add add.commute)
qed

lemma bit_be_value_less: "bit (be_value bs :: 'a::len word) n \<Longrightarrow> n < 8 * length bs"
proof (induction bs arbitrary: n rule: rev_induct)
  case Nil
  then show ?case by (simp add: be_value_def)
next
  case (snoc x bs)
  have "be_value (bs @ [x]) = push_bit 8 (be_value bs) OR (ucast x :: 'a word)"
    by (simp add: be_value_def push_add_or)
  with snoc.prems show ?case using snoc.IH[of "n - 8"] bit_imp_le_length[of x n]
    by (auto simp: bit_simps not_le)
qed

lemma take_bit_be_value_tl:
  "length xs = 7 \<Longrightarrow> take_bit 56 (be_value (x # xs) :: u64) = take_bit 56 (be_value xs)"
proof -
  assume len: "length xs = 7"
  have "be_value (x # xs) = push_bit 56 (ucast x) + (be_value xs :: u64)"
    using be_value_acc[of xs "ucast x :: u64"] len by (simp add: be_value_def)
  also have "\<dots> = push_bit 56 (ucast x) OR be_value xs"
    using bit_be_value_less[of xs] len by (intro disjunctive_add) (auto simp: bit_simps not_le)
  finally show ?thesis by (intro bit_word_eqI) (auto simp: bit_simps)
qed

definition key_piece :: "nat \<Rightarrow> u64 \<Rightarrow> u64" where
  "key_piece s w = take_bit 14 (drop_bit s w)"

lemma key_piece_code: "s + 14 \<le> 64 \<Longrightarrow> signed_drop_bit s w AND 0x3fff = key_piece s w"
proof -
  assume s: "s + 14 \<le> 64"
  have "signed_drop_bit s w AND 0x3fff = take_bit 14 (signed_drop_bit s w)"
    by (simp add: take_bit_eq_mask mask_eq_exp_minus_1)
  also have "\<dots> = key_piece s w"
    using s by (intro bit_word_eqI) (auto simp: key_piece_def bit_simps)
  finally show ?thesis .
qed

lemma key_piece_take: "s + 14 \<le> 56 \<Longrightarrow> key_piece s (take_bit 56 w) = key_piece s w"
  by (rule bit_word_eqI) (auto simp: key_piece_def bit_simps)

definition key_pieces :: "u64 \<Rightarrow> u64" where
  "key_pieces w = key_piece 0 w XOR key_piece 14 w XOR key_piece 28 w XOR key_piece 42 w"

lemma key_offset_pieces: "key_offset a b = key_pieces (le_value a) XOR key_pieces (le_value b)"
proof -
  have "[0..<4] = [0, 1, 2, 3]" by code_simp
  then show ?thesis
    by (simp add: key_offset_def key_fold_def key_pieces_def key_piece_code[symmetric] xor.assoc)
qed

lemma key_pieces_take: "key_pieces (take_bit 56 w) = key_pieces w"
  by (simp add: key_pieces_def key_piece_take)

lemma key_offset_small: "take_bit 14 (key_offset a b) = key_offset a b"
  by (rule bit_word_eqI) (auto simp: key_offset_pieces key_pieces_def key_piece_def bit_simps)

text \<open>
  The index of a user's key, from the sixteen identity bytes: bytes 2 to 15 as two numbers of
  seven bytes each, whose four 14-bit pieces are combined.
\<close>

definition key_index :: "u8 list \<Rightarrow> nat" where
  "key_index u = unat (key_pieces (be_value (slice 9 7 u)) XOR key_pieces (be_value (slice 2 7 u)))"

lemma key_offset_index:
  assumes "length u = 16"
  shows "unat (key_offset [u!15, u!14, u!13, u!12, u!11, u!10, u!9, u!8]
      [u!8, u!7, u!6, u!5, u!4, u!3, u!2, u!1]) = key_index u"
proof -
  have u: "[0..<7] = [0, 1, 2, 3, 4, 5, 6]" by code_simp
  have n: "Suc (Suc 0) = 2" by simp
  have "slice 9 7 u = [u!9, u!10, u!11, u!12, u!13, u!14, u!15]"
    "slice 2 7 u = [u!2, u!3, u!4, u!5, u!6, u!7, u!8]"
    using assms by (simp_all add: slice_as_map u n)
  moreover have "key_pieces (be_value [x, a, b, c, d, e, f, g]) = key_pieces (be_value [a, b, c, d, e, f, g])"
    for x a b c d e f g
    using take_bit_be_value_tl[of "[a, b, c, d, e, f, g]" x]
      key_pieces_take[of "be_value [x, a, b, c, d, e, f, g]"]
      key_pieces_take[of "be_value [a, b, c, d, e, f, g]"] by simp
  ultimately show ?thesis
    by (simp add: key_offset_pieces key_index_def le_value_def del: One_nat_def)
qed

lemma key_index_less: "key_index u < TABLE_SIZE"
proof -
  let ?w = "key_pieces (be_value (slice 9 7 u)) XOR key_pieces (be_value (slice 2 7 u))"
  have "take_bit 14 ?w = ?w"
    by (rule bit_word_eqI) (auto simp: key_pieces_def key_piece_def bit_simps)
  then have "unat ?w < 2 ^ 14" by (rule unat_less_of_take_bit)
  then show ?thesis by (simp add: key_index_def TABLE_SIZE_def)
qed

lemma sint_key_offset: "sint (key_offset a b) = int (unat (key_offset a b))"
  using bit_of_take_bit[OF key_offset_small, of a b 63] by (intro sint_eq_unat) auto

lemma get_key_from_userID_eq:
  "get_key_from_userID b p table =
     (if p + 16 \<le> length b then load table (key_index (slice p 16 b)) else None)"
proof (cases "p + 16 \<le> length b")
  case True
  let ?u = "slice p 16 b"
  let ?o = "key_offset [?u!15, ?u!14, ?u!13, ?u!12, ?u!11, ?u!10, ?u!9, ?u!8]
      [?u!8, ?u!7, ?u!6, ?u!5, ?u!4, ?u!3, ?u!2, ?u!1]"
  have "sint ?o = int (unat ?o)" by (rule sint_key_offset)
  also have "unat ?o = key_index ?u" by (rule key_offset_index) (use True in simp)
  finally have "sint ?o smod int TABLE_SIZE = int (key_index ?u)"
    using key_index_less[of ?u] by (simp only: smod_nonneg of_nat_0_le_iff flip: of_nat_mod) simp
  with True show ?thesis
    by (simp add: get_key_from_userID_def Let_def del: One_nat_def)
next
  case False
  then show ?thesis
    using those_map_None[of 15 "[15, 14, 13, 12, 11, 10, 9, 8]" "\<lambda>k. load b (p + k)"]
    by (simp add: get_key_from_userID_def)
qed

end
