(* ===== verification/KeyTable.thy ===== *)
theory KeyTable
  imports DesCipher
begin

text \<open>
  The key table of \<^verbatim>\<open>DES/cipher.c\<close>: what its bit-string generator computes. The bit
  strings of \<open>longlong2bits\<close>, \<open>nxt_Bits\<close> and \<open>bits2longlong\<close> implement one step of two
  32-bit Galois registers, the table holds the iterates of that step from the seed, and no key
  of the table has a zero half.
\<close>

section \<open>The key generator is a pair of linear feedback shift registers\<close>

text \<open>
  One step of the 32-bit Galois register with feedback polynomial
  \<^verbatim>\<open>x^32 + x^7 + x^6 + x^2 + 1\<close>, and the step on both halves of a key.
\<close>

definition galois32 :: "u32 \<Rightarrow> u32" where
  "galois32 x = push_bit 1 x XOR (if bit x 31 then 0xC5 else 0)"

definition lfsr_step :: "u64 \<Rightarrow> u64" where
  "lfsr_step w = push_bit 32 (ucast (galois32 (ucast (drop_bit 32 w)))) OR ucast (galois32 (ucast w))"

definition bit_char :: "bool \<Rightarrow> u8" where
  "bit_char b = (if b then 49 else 48)"

lemma bit_char_simps [simp]: "bit_char a = bit_char b \<longleftrightarrow> a = b" "bit_char a = 48 \<longleftrightarrow> \<not> a"
  "(if bit_char a = bit_char b then 48 else 49) = bit_char (a \<noteq> b)"
  by (auto simp: bit_char_def)

lemma signed_half:
  "temp smod 2 = 0 \<longleftrightarrow> even temp"
  "even temp \<Longrightarrow> temp sdiv 2 = temp div (2 :: int)"
  "odd temp \<Longrightarrow> (temp - 1) div 2 = temp div 2"
proof -
  have "temp smod 2 = sgn temp * (\<bar>temp\<bar> mod 2)" by (simp add: signed_modulo_int_def)
  then show "temp smod 2 = 0 \<longleftrightarrow> even temp"
    by (auto simp: sgn_if even_iff_mod_2_eq_zero abs_if)
  have half: "x sdiv 2 = x div 2" if "even x" for x :: int
    using that by (auto simp: signed_divide_int_def sgn_if elim!: evenE)
  show "even temp \<Longrightarrow> temp sdiv 2 = temp div (2 :: int)" by (rule half)
  show "odd temp \<Longrightarrow> (temp - 1) div 2 = temp div 2"
    by (auto elim!: oddE)
qed

lemma longlong2bits_eq:
  assumes "n \<le> 64" and "n \<le> length b"
  shows "longlong2bits w b n = Some (splice b 0 (map (\<lambda>i. bit_char (bit w i)) [0..<n]))"
proof -
  have "foldM (\<lambda>i (strOut, temp).
          map_option
            (\<lambda>s. (s, if temp smod 2 = 0 then temp sdiv 2 else (temp - 1) sdiv 2))
            (store strOut i (if temp smod 2 = 0 then 48 else 49)))
        [0..<k] (b, sint w) =
      Some (splice b 0 (map (\<lambda>i. bit_char (bit w i)) [0..<k]), drop_bit k (sint w))"
    if "k \<le> n" for k
    using that
  proof (induction k)
    case 0
    then show ?case by simp
  next
    case (Suc k)
    have "odd (drop_bit k (sint w)) \<longleftrightarrow> bit w k"
      using Suc.prems assms(1) by (simp add: bit_iff_odd_drop_bit[symmetric] bit_sint_iff min_def)
    then have "(if even (drop_bit k (sint w)) then 48 else 49) = bit_char (bit w k)"
      by (auto simp: bit_char_def)
    moreover have "drop_bit k (sint w) div 2 = drop_bit (Suc k) (sint w)"
      by (simp add: drop_bit_Suc drop_bit_half)
    moreover have "(splice b 0 (map (\<lambda>i. bit_char (bit w i)) [0..<k]))[k := bit_char (bit w k)]
        = splice b 0 (map (\<lambda>i. bit_char (bit w i)) [0..<Suc k])"
      using splice_snoc[of 0 "map (\<lambda>i. bit_char (bit w i)) [0..<k]" b "bit_char (bit w k)"]
        Suc.prems assms(2) by simp
    ultimately show ?case
      using Suc assms(2) by (simp add: foldM_append foldM_single signed_half)
  qed
  from this[of n] show ?thesis by (simp add: longlong2bits_def)
qed

lemma store_next:
  "i < length b \<Longrightarrow> g i = x \<Longrightarrow>
     store (splice b 0 (map g [0..<i])) i x = Some (splice b 0 (map g [0..<Suc i]))"
  using splice_snoc[of 0 "map g [0..<i]" b "g i"] by simp

lemma copy_bits_Suc:
  "a \<le> e \<Longrightarrow> copy_bits xs a (Suc e) s =
     copy_bits xs a e s \<bind> (\<lambda>s. load xs (e - 1) \<bind> (\<lambda>x. store s e x))"
  by (simp add: copy_bits_def foldM_append foldM_single del: store_in)

lemma copy_bits_next:
  assumes "a \<le> e" and "\<And>i. a \<le> i \<Longrightarrow> i < e \<Longrightarrow> 0 < i \<and> g i = xs ! (i - 1)"
    and "e \<le> length b" and "e \<le> length xs"
  shows "copy_bits xs a e (splice b 0 (map g [0..<a])) = Some (splice b 0 (map g [0..<e]))"
  using assms
proof (induction e rule: dec_induct)
  case base
  then show ?case by (simp add: copy_bits_def)
next
  case (step e)
  then show ?case using step.prems(1)[of e]
    by (simp add: copy_bits_Suc store_next[of e b g] del: store_in upt_Suc)
qed

definition next_char :: "u8 list \<Rightarrow> nat \<Rightarrow> u8" where
  "next_char xs i =
     (if i = 0 then xs ! 31 else if i = 32 then xs ! 63
      else if i \<in> {2, 6, 7} then (if xs ! (i - 1) = xs ! 31 then 48 else 49)
      else if i \<in> {34, 38, 39} then (if xs ! (i - 1) = xs ! 63 then 48 else 49)
      else xs ! (i - 1))"

lemma nxt_Bits_eq:
  assumes "64 \<le> length xs" and "64 \<le> length b"
  shows "nxt_Bits xs b = Some (splice b 0 (map (next_char xs) [0..<64]))"
proof -
  define pre where "pre i = splice b 0 (map (next_char xs) [0..<i])" for i
  have move: "move_bit xs i j (pre i) = Some (pre (Suc i))"
    if "i < 64" "j < 64" "next_char xs i = xs ! j" for i j
    using that assms by (simp add: pre_def move_bit_def store_next del: store_in upt_Suc)
  have tap: "tap_bit xs i f (pre i) = Some (pre (Suc i))"
    if "i < 64" "f < 64" "next_char xs i = (if xs ! (i - 1) = xs ! f then 48 else 49)" for i f
    using that assms by (simp add: pre_def tap_bit_def store_next del: store_in upt_Suc)
  have copy: "copy_bits xs a e (pre a) = Some (pre e)"
    if "a \<le> e" "e \<le> 64" "\<And>i. a \<le> i \<Longrightarrow> i < e \<Longrightarrow> 0 < i \<and> next_char xs i = xs ! (i - 1)" for a e
    unfolding pre_def using that assms by (intro copy_bits_next) auto
  have b: "b = pre 0" by (simp add: pre_def)
  have "nxt_Bits xs (pre 0) = Some (pre 64)"
    unfolding nxt_Bits_def
    using move[of 0 31] move[of 1 0] tap[of 2 31] copy[of 3 6] tap[of 6 31] tap[of 7 31]
      copy[of 8 32] move[of 32 63] move[of 33 32] tap[of 34 63] copy[of 35 38] tap[of 38 63]
      tap[of 39 63] copy[of 40 64]
    by (simp add: next_char_def flip: numeral_2_eq_2)
  then show ?thesis unfolding b[symmetric] by (simp add: pre_def)
qed

lemma bit_C5: "bit (0xC5 :: u32) j \<longleftrightarrow> j \<in> {0, 2, 6, 7}"
proof -
  have e: "(0xC5 :: u32) = push_bit 0 1 OR push_bit 2 1 OR push_bit 6 1 OR push_bit 7 1" by simp
  show ?thesis
    unfolding e by (simp only: bit_or_iff bit_push_bit_iff bit_1_iff possible_bit_word) auto
qed

lemma bit_galois32:
  "bit (galois32 x) j \<longleftrightarrow> ((0 < j \<and> j < 32 \<and> bit x (j - 1)) \<noteq> (bit x 31 \<and> j \<in> {0, 2, 6, 7}))"
proof -
  have "bit (galois32 x) j \<longleftrightarrow> bit (push_bit 1 x) j \<noteq> (bit x 31 \<and> bit (0xC5 :: u32) j)"
    by (simp add: galois32_def bit_xor_iff del: push_bit_Suc One_nat_def bit_numeral_word_iff)
  also have "bit (push_bit 1 x) j \<longleftrightarrow> 0 < j \<and> j < 32 \<and> bit x (j - 1)"
    by (simp only: bit_push_bit_iff possible_bit_word) auto
  finally show ?thesis by (simp only: bit_C5)
qed

lemma bit_lfsr_step:
  assumes "j < 64"
  shows "bit (lfsr_step w) j \<longleftrightarrow>
    (if j < 32 then (0 < j \<and> bit w (j - 1)) \<noteq> (bit w 31 \<and> j \<in> {0, 2, 6, 7})
     else (32 < j \<and> bit w (j - 1)) \<noteq> (bit w 63 \<and> j \<in> {32, 34, 38, 39}))"
proof (cases "j < 32")
  case True
  then show ?thesis by (auto simp: lfsr_step_def bit_simps bit_galois32)
next
  case False
  then obtain k where "j = 32 + k" using nat_le_iff_add[of 32 j] by auto
  then show ?thesis using assms by (auto simp: lfsr_step_def bit_simps bit_galois32)
qed

lemma bits2longlong_eq:
  assumes "64 \<le> length bs"
  obtains t where "bits2longlong bs 64 = Some t" and "\<And>j. j < 64 \<Longrightarrow> bit t j \<longleftrightarrow> bs ! j \<noteq> 48"
proof -
  let ?f = "\<lambda>i temp. if i \<le> 63 then map_option (\<lambda>c. if c = 48 then temp * 2 else temp * 2 + 1)
      (load bs (63 - i)) else None"
  have double: "bit (t * 2) j \<longleftrightarrow> 0 < j \<and> j < 64 \<and> bit t (j - 1)"
    "bit (t * 2 + 1) j \<longleftrightarrow> j = 0 \<or> j < 64 \<and> bit t (j - 1)" for t :: u64 and j
  proof -
    have "t * 2 = push_bit 1 t" by (simp add: push_bit_eq_mult)
    then show d: "bit (t * 2) j \<longleftrightarrow> 0 < j \<and> j < 64 \<and> bit t (j - 1)"
      by (simp only: bit_push_bit_iff possible_bit_word) auto
    have "bit (1 + t * 2) j \<longleftrightarrow> bit (t * 2) j \<or> j = 0" by (intro even_bit_succ_iff) simp
    then show "bit (t * 2 + 1) j \<longleftrightarrow> j = 0 \<or> j < 64 \<and> bit t (j - 1)"
      by (simp only: d add.commute) auto
  qed
  have "\<exists>t :: u64. foldM ?f [0..<k] 0 = Some t \<and> (\<forall>j < 64. bit t j \<longleftrightarrow> j < k \<and> bs ! (64 - k + j) \<noteq> 48)"
    if "k \<le> 64" for k
    using that
  proof (induction k)
    case 0
    then show ?case by simp
  next
    case (Suc k)
    then obtain t :: u64 where t: "foldM ?f [0..<k] 0 = Some t"
      "\<And>j. j < 64 \<Longrightarrow> bit t j \<longleftrightarrow> j < k \<and> bs ! (64 - k + j) \<noteq> 48" by auto
    let ?t = "if bs ! (63 - k) = 48 then t * 2 else t * 2 + 1"
    have "foldM ?f [0..<Suc k] 0 = Some ?t"
      using t(1) Suc.prems assms by (simp add: foldM_append foldM_single)
    moreover have "bit ?t j \<longleftrightarrow> j < Suc k \<and> bs ! (64 - Suc k + j) \<noteq> 48" if "j < 64" for j
    proof -
      have "Suc (63 + n - k) = 64 + n - k" for n using Suc.prems by simp
      then show ?thesis
        using that t(2)[of "j - 1"] Suc.prems by (cases j) (auto simp: double)
    qed
    ultimately show ?case by blast
  qed
  from this[of 64] that show ?thesis by (auto simp: bits2longlong_def)
qed

lemma nxt_Value_step: "nxt_Value w = Some (lfsr_step w)"
proof -
  let ?z = "replicate 65 (0 :: u8)"
  let ?xs = "splice ?z 0 (map (\<lambda>i. bit_char (bit w i)) [0..<64])"
  let ?ys = "splice ?z 0 (map (next_char ?xs) [0..<64])"
  have xs: "?xs ! i = bit_char (bit w i)" if "i < 64" for i
    using that by (subst nth_splice) auto
  have ys: "?ys ! i = next_char ?xs i" if "i < 64" for i
    using that by (subst nth_splice) auto
  obtain t where t: "bits2longlong ?ys 64 = Some t" "\<And>j. j < 64 \<Longrightarrow> bit t j \<longleftrightarrow> ?ys ! j \<noteq> 48"
    by (rule bits2longlong_eq[of ?ys]) auto
  have "nxt_Value w = Some t"
    using t(1) by (simp add: nxt_Value_def longlong2bits_eq nxt_Bits_eq)
  moreover have "t = lfsr_step w"
  proof (rule bit_word_eqI)
    fix j assume "j < LENGTH(64)"
    then have j: "j < 64" by simp
    then have "bit t j \<longleftrightarrow> next_char ?xs j \<noteq> 48" using t(2) ys by simp
    also have "\<dots> \<longleftrightarrow> bit (lfsr_step w) j"
      using j by (auto simp: next_char_def xs bit_lfsr_step)
    finally show "bit t j \<longleftrightarrow> bit (lfsr_step w) j" .
  qed
  ultimately show ?thesis by simp
qed

lemma galois32_inj: "inj galois32"
proof (rule injI)
  fix x y assume e: "galois32 x = galois32 y"
  have b: "bit (galois32 x) j \<longleftrightarrow> bit (galois32 y) j" for j by (simp add: e)
  have m: "bit x 31 \<longleftrightarrow> bit y 31" using b[of 0] by (simp add: bit_galois32)
  show "x = y"
  proof (rule bit_word_eqI)
    fix j assume "j < LENGTH(32)"
    then show "bit x j \<longleftrightarrow> bit y j"
      using b[of "Suc j"] m by (cases "j = 31") (auto simp: bit_galois32)
  qed
qed

lemma galois32_nonzero: "galois32 x = 0 \<longleftrightarrow> x = 0"
  using injD[OF galois32_inj, of x 0] by (auto simp: galois32_def)

definition high_half :: "u64 \<Rightarrow> u32" where "high_half w = ucast (drop_bit 32 w)"
definition low_half :: "u64 \<Rightarrow> u32" where "low_half w = ucast w"

lemma halves_lfsr_step:
  "high_half (lfsr_step w) = galois32 (high_half w)"
  "low_half (lfsr_step w) = galois32 (low_half w)"
proof -
  have "\<not> bit (galois32 x) (32 + n)" for x n using bit_galois32[of x "32 + n"] by simp
  then show "high_half (lfsr_step w) = galois32 (high_half w)"
    unfolding high_half_def lfsr_step_def
    by (intro bit_word_eqI) (auto simp: bit_simps)
  show "low_half (lfsr_step w) = galois32 (low_half w)"
    unfolding low_half_def lfsr_step_def
    by (rule bit_word_eqI) (auto simp: bit_simps)
qed

lemma halves_eq: "w = v \<longleftrightarrow> high_half w = high_half v \<and> low_half w = low_half v"
proof
  assume h: "high_half w = high_half v \<and> low_half w = low_half v"
  show "w = v"
  proof (rule bit_word_eqI)
    fix j assume "j < LENGTH(64)"
    moreover have "bit (high_half w) (j - 32) = bit (high_half v) (j - 32)"
      "bit (low_half w) j = bit (low_half v) j" using h by auto
    ultimately show "bit w j = bit v j"
      by (cases "j < 32") (auto simp: high_half_def low_half_def bit_simps)
  qed
qed simp

lemma lfsr_step_inj: "inj lfsr_step"
  by (rule injI) (auto simp: halves_eq halves_lfsr_step dest: injD[OF galois32_inj])

lemma halves_iterate:
  "high_half ((lfsr_step ^^ i) w) = (galois32 ^^ i) (high_half w)"
  "low_half ((lfsr_step ^^ i) w) = (galois32 ^^ i) (low_half w)"
  by (induction i) (simp_all add: halves_lfsr_step)

lemma galois32_iterate_nonzero: "(galois32 ^^ i) x = 0 \<longleftrightarrow> x = 0"
  by (induction i) (simp_all add: galois32_nonzero)

lemma des_key_init_eq:
  assumes "n \<le> length table"
  shows "des_key_init table n seed =
    Some (splice table 0 (map (\<lambda>i. (lfsr_step ^^ i) seed) [0..<n]))"
proof -
  let ?g = "\<lambda>i. (lfsr_step ^^ i) seed"
  have "foldM (\<lambda>i (table, seed_l). do {
           table \<leftarrow> store table i seed_l;
           seed_l_nxt \<leftarrow> nxt_Value seed_l;
           Some (table, seed_l_nxt)
         }) [0..<k] (table, seed) = Some (splice table 0 (map ?g [0..<k]), ?g k)"
    if "k \<le> n" for k
    using that
  proof (induction k)
    case 0
    then show ?case by simp
  next
    case (Suc k)
    have "store (splice table 0 (map ?g [0..<k])) k (?g k) = Some (splice table 0 (map ?g [0..<Suc k]))"
      using Suc.prems assms by (intro store_next) auto
    with Suc show ?case
      by (simp add: foldM_append foldM_single nxt_Value_step del: store_in)
  qed
  from this[of n] show ?thesis by (simp add: des_key_init_def)
qed

end
