(* ===== verification/Utils.thy ===== *)
theory Utils
  imports Prelude "HOL-Library.Multiset"
begin

text \<open>
  \<^verbatim>\<open>client/utils.c\<close>: \<^verbatim>\<open>shuffer\<close>, the random permutation behind the
  ID map and the connection map.  \<^verbatim>\<open>rand()\<close> is a parameter: \<^verbatim>\<open>rnd i\<close> is
  the number drawn in iteration \<^verbatim>\<open>i\<close>, and the C library promises
  \<^verbatim>\<open>0 <= rnd i <= RAND_MAX\<close> (glibc's value of \<^verbatim>\<open>RAND_MAX\<close> is the
  largest \<^verbatim>\<open>int\<close>).  \<^verbatim>\<open>showMap\<close> only prints and is not modelled.
\<close>

definition RAND_MAX :: int where "RAND_MAX = 2147483647"

definition swap_index :: "(nat \<Rightarrow> int) \<Rightarrow> nat \<Rightarrow> nat \<Rightarrow> int" where
  "swap_index rnd sz i =
     int i + rnd i sdiv int32 (RAND_MAX sdiv (int sz - int i) + 1)"

definition swap_cells :: "'a list \<Rightarrow> nat \<Rightarrow> int \<Rightarrow> 'a list option" where
  "swap_cells array i j = (if j < 0 then None else do {
     tmp \<leftarrow> load array (nat j);
     x \<leftarrow> load array i;
     array \<leftarrow> store array (nat j) x;
     store array i tmp
   })"

definition shuffer :: "(nat \<Rightarrow> int) \<Rightarrow> 'a list \<Rightarrow> nat \<Rightarrow> 'a list option" where
  "shuffer rnd array sz =
     (if sz > 1
      then foldM (\<lambda>i array. swap_cells array i (swap_index rnd sz i)) [0..<sz] array
      else Some array)"

definition rand_ok :: "(nat \<Rightarrow> int) \<Rightarrow> bool" where
  "rand_ok rnd \<longleftrightarrow> (\<forall>i. 0 \<le> rnd i \<and> rnd i \<le> RAND_MAX)"

text \<open>
  The drawn index stays in \<^verbatim>\<open>[i, sz)\<close>.  In the last iteration the divisor is
  \<^verbatim>\<open>RAND_MAX / 1 + 1\<close>, which overflows \<^verbatim>\<open>int\<close>; wrapped around it is
  \<^verbatim>\<open>INT_MIN\<close>, and the truncating division by it still gives zero.
\<close>

lemma div_quotient_bound:
  assumes "0 \<le> r" and "r \<le> m" and "0 < (n::int)"
  shows "r div (m div n + 1) < n"
proof -
  let ?k = "m div n + 1"
  have pos: "0 < ?k" using assms by (simp add: add_nonneg_pos pos_imp_zdiv_nonneg_iff)
  have "m < n * ?k"
    using mult_div_mod_eq[of n m] pos_mod_bound[OF assms(3), of m] unfolding distrib_left mult_1_right
    by linarith
  moreover have "?k * (r div ?k) \<le> r"
    using pos_mod_sign[OF pos, of r] mult_div_mod_eq[of ?k r] by linarith
  ultimately have "?k * (r div ?k) < ?k * n" using assms(2) by (simp only: mult.commute)
  then show ?thesis using pos by (simp only: mult_less_cancel_left_pos)
qed

lemma swap_index_range:
  assumes "rand_ok rnd" and "i < sz"
  shows "int i \<le> swap_index rnd sz i \<and> swap_index rnd sz i < int sz"
proof -
  let ?n = "int sz - int i"
  have r: "0 \<le> rnd i" "rnd i \<le> RAND_MAX" using assms(1) by (auto simp: rand_ok_def)
  show ?thesis
  proof (cases "?n = 1")
    case True
    have "int32 (RAND_MAX sdiv ?n + 1) = -2147483648"
      unfolding True by (simp add: RAND_MAX_def int32_def)
    moreover have "rnd i sdiv -2147483648 = 0"
      using r by (auto simp: signed_divide_int_def RAND_MAX_def sgn_if)
    ultimately show ?thesis using assms(2) by (simp add: swap_index_def)
  next
    case False
    with assms(2) have n: "2 \<le> ?n" by linarith
    have "RAND_MAX div ?n \<le> RAND_MAX div 2"
      using n by (intro zdiv_mono2) (auto simp: RAND_MAX_def)
    moreover have "0 \<le> RAND_MAX div ?n" using n by (simp add: RAND_MAX_def pos_imp_zdiv_nonneg_iff)
    ultimately have "swap_index rnd sz i = int i + rnd i div (RAND_MAX div ?n + 1)"
      using n r by (simp add: swap_index_def RAND_MAX_def INT_MIN_def INT_MAX_def)
    moreover have "rnd i div (RAND_MAX div ?n + 1) < ?n"
      using div_quotient_bound[of "rnd i" RAND_MAX ?n] r n by simp
    moreover have "0 \<le> rnd i div (RAND_MAX div ?n + 1)"
      using r n by (simp add: RAND_MAX_def pos_imp_zdiv_nonneg_iff)
    ultimately show ?thesis by linarith
  qed
qed

lemma swap_cells_perm:
  assumes "i < length a" and "0 \<le> j" and "nat j < length a"
  shows "\<exists>a'. swap_cells a i j = Some a' \<and> mset a' = mset a \<and> length a' = length a"
  using assms by (auto simp: swap_cells_def mset_swap)

lemma shuffer_perm:
  assumes "rand_ok rnd" and "length array = sz"
  shows "\<exists>a'. shuffer rnd array sz = Some a' \<and> mset a' = mset array"
proof -
  have "\<exists>a'. foldM (\<lambda>i a. swap_cells a i (swap_index rnd sz i)) [0..<n] array = Some a' \<and>
      mset a' = mset array \<and> length a' = length array" if "n \<le> sz" for n
    using that
  proof (induction n)
    case 0
    then show ?case by simp
  next
    case (Suc n)
    then obtain a where a: "foldM (\<lambda>i a. swap_cells a i (swap_index rnd sz i)) [0..<n] array = Some a"
      "mset a = mset array" "length a = length array" by auto
    have "int n \<le> swap_index rnd sz n \<and> swap_index rnd sz n < int sz"
      using swap_index_range[OF assms(1)] Suc.prems by simp
    then have "0 \<le> swap_index rnd sz n" "nat (swap_index rnd sz n) < length a" "n < length a"
      using Suc.prems a(3) assms(2) by auto
    then obtain a' where "swap_cells a n (swap_index rnd sz n) = Some a'"
      "mset a' = mset a" "length a' = length a"
      using swap_cells_perm by blast
    with a show ?case by (simp add: foldM_append)
  qed
  from this[of sz] show ?thesis by (auto simp: shuffer_def)
qed

end
