(* ===== verification/Payload.thy ===== *)
theory Payload
  imports Utils
begin

text \<open>
  \<^verbatim>\<open>payload.h\<close>: the packet of the wire protocol and the sizes it is meant to have.
  The fixed-length arrays of the C struct are lists; \<^verbatim>\<open>wf_packet\<close> is the array
  lengths of the struct type, which every operation keeps.  Then the operations of the two
  \<^verbatim>\<open>payload.c\<close> files: the server fills the identity fields from one
  number, the client through the global \<^verbatim>\<open>map\<close>, a permutation of the session
  identities that \<^verbatim>\<open>initIDMap\<close> sets up.  \<^verbatim>\<open>freePayload\<close> and
  \<^verbatim>\<open>freeIDMap\<close> only call \<^verbatim>\<open>free\<close>.
\<close>

definition ZERO_FILL_OFFSET :: nat where "ZERO_FILL_OFFSET = 6"
definition STATE_SIZE :: nat where "STATE_SIZE = 67"
definition PAYLOAD_SIZE :: nat where "PAYLOAD_SIZE = 146"
definition PAYLOAD_OFFSET :: nat where "PAYLOAD_OFFSET = 22"

lemmas payload_sizes [simp] =
  ZERO_FILL_OFFSET_def STATE_SIZE_def PAYLOAD_SIZE_def PAYLOAD_OFFSET_def

record packet_format =
  zero :: "u8 list"
  direction :: u8
  type :: u8
  userID :: "u32 list"
  reserve :: u16
  type_affirm :: u8
  family :: u64
  srcDeviceID :: "u32 list"
  dstDeviceID :: "u32 list"
  operation :: "u32 list"
  state :: "u8 list"

definition wf_packet :: "packet_format \<Rightarrow> bool" where
  "wf_packet pk \<longleftrightarrow> length (zero pk) = ZERO_FILL_OFFSET \<and> length (userID pk) = 3 \<and>
     length (srcDeviceID pk) = 4 \<and> length (dstDeviceID pk) = 4 \<and> length (operation pk) = 4 \<and>
     length (state pk) = STATE_SIZE"

section \<open>Filling a packet\<close>

text \<open>\<^verbatim>\<open>memset\<close> to zero, then the state field to the letter a.\<close>

definition initPayload :: packet_format where
  "initPayload = \<lparr>zero = replicate ZERO_FILL_OFFSET 0, direction = 0, type = 0,
     userID = replicate 3 0, reserve = 0, type_affirm = 0, family = 0,
     srcDeviceID = replicate 4 0, dstDeviceID = replicate 4 0, operation = replicate 4 0,
     state = replicate STATE_SIZE 97\<rparr>"

definition server_setPayload :: "packet_format \<Rightarrow> u8 \<Rightarrow> u8 \<Rightarrow> u32 \<Rightarrow> packet_format" where
  "server_setPayload payload pkt_type dir ID =
     payload\<lparr>direction := dir, type := pkt_type, type_affirm := pkt_type,
       userID := (userID payload)[0 := ID],
       srcDeviceID := (srcDeviceID payload)[0 := ID],
       dstDeviceID := (dstDeviceID payload)[0 := ID]\<rparr>"

definition client_setPayload ::
    "u32 list \<Rightarrow> packet_format \<Rightarrow> u8 \<Rightarrow> u8 \<Rightarrow> u32 \<Rightarrow> packet_format option" where
  "client_setPayload idmap payload pkt_type dir ID = do {
     m \<leftarrow> load idmap (unat ID);
     Some (payload\<lparr>type := pkt_type, direction := dir,
       userID := (userID payload)[0 := ID, 1 := m, 2 := ID],
       type_affirm := pkt_type,
       srcDeviceID := (srcDeviceID payload)[0 := m],
       dstDeviceID := (dstDeviceID payload)[0 := ID]\<rparr>)
   }"

text \<open>
  \<^verbatim>\<open>initIDMap\<close>: the failing assertion and the failing store are \<^verbatim>\<open>None\<close>.
  Cells are \<^verbatim>\<open>unsigned int\<close>, the sum is one of \<^verbatim>\<open>int\<close>.
\<close>

definition initIDMap :: "(nat \<Rightarrow> int) \<Rightarrow> int \<Rightarrow> int \<Rightarrow> u32 list option" where
  "initIDMap rnd index_start index_end =
     (let map_size = int32 (index_end - index_start) in
      if map_size > 0 then do {
        idmap \<leftarrow> foldM (\<lambda>id idmap. store idmap id (word_of_int (int32 (int id + index_start))))
                  [0..<nat map_size] (replicate (nat map_size) 0);
        shuffer rnd idmap (nat map_size)
      } else None)"

lemma wf_initPayload [simp]: "wf_packet initPayload"
  by (simp add: wf_packet_def initPayload_def)

lemma wf_server_setPayload [simp]: "wf_packet pk \<Longrightarrow> wf_packet (server_setPayload pk t d i)"
  by (simp add: wf_packet_def server_setPayload_def)

lemma wf_client_setPayload: "client_setPayload m pk t d i = Some pk' \<Longrightarrow> wf_packet pk \<Longrightarrow> wf_packet pk'"
  by (auto simp: wf_packet_def client_setPayload_def Option.bind_eq_Some_conv)

lemma client_setPayload_in:
  "unat ID < length m \<Longrightarrow> \<exists>pk'. client_setPayload m pk t d ID = Some pk' \<and>
     type pk' = t \<and> direction pk' = d \<and> type_affirm pk' = t \<and>
     userID pk' = (userID pk)[0 := ID, 1 := m ! unat ID, 2 := ID]"
  by (simp add: client_setPayload_def)

text \<open>The ID map is a permutation of \<^verbatim>\<open>[index_start, index_end)\<close>.\<close>

lemma initIDMap_fill:
  "foldM (\<lambda>id m. store m id (f id)) [0..<n] (replicate n 0) = Some (map f [0..<n])"
  using foldM_store_upt[of 0 n "replicate n 0" f] by (simp add: splice_def)

lemma initIDMap_perm:
  assumes "rand_ok rnd" and "0 \<le> s" and "s < e" and "e \<le> INT_MAX"
  shows "\<exists>m. initIDMap rnd s e = Some m \<and> mset m = mset (map word_of_int [s..e - 1])"
proof -
  let ?n = "nat (e - s)"
  let ?fill = "map (\<lambda>id. word_of_int (int32 (int id + s)) :: u32) [0..<?n]"
  have sz: "int32 (e - s) = e - s" using assms by (simp add: INT_MIN_def INT_MAX_def)
  have "?fill = map word_of_int [s..e - 1]"
  proof (rule nth_equalityI)
    fix i assume "i < length ?fill"
    then have "int i + s < e" "i < ?n" by auto
    then have "int32 (int i + s) = int i + s" using assms by (simp add: INT_MIN_def)
    then show "?fill ! i = map word_of_int [s..e - 1] ! i"
      using \<open>i < ?n\<close> \<open>int i + s < e\<close> by (simp add: add.commute)
  qed (use assms in auto)
  moreover obtain m where "shuffer rnd ?fill ?n = Some m" "mset m = mset ?fill"
    using shuffer_perm[OF assms(1), of ?fill ?n] by auto
  ultimately show ?thesis
    using assms by (auto simp: initIDMap_def sz initIDMap_fill Let_def)
qed

lemma inj_word_of_int_u32: "inj_on (word_of_int :: int \<Rightarrow> u32) {0..INT_MAX}"
  by (rule inj_onI) (auto simp: word_of_int_eq_iff INT_MAX_def take_bit_int_eq_self)

lemma distinct_initIDMap:
  assumes "rand_ok rnd" and "0 \<le> s" and "s < e" and "e \<le> INT_MAX" and "initIDMap rnd s e = Some m"
  shows "distinct m \<and> length m = nat (e - s) \<and> set m = word_of_int ` {s..<e}"
proof -
  have m: "mset m = mset (map word_of_int [s..e - 1] :: u32 list)"
    using initIDMap_perm[OF assms(1-4)] assms(5) by auto
  have "inj_on (word_of_int :: int \<Rightarrow> u32) (set [s..e - 1])"
    by (rule inj_on_subset[OF inj_word_of_int_u32]) (use assms in auto)
  then have d: "distinct (map word_of_int [s..e - 1] :: u32 list)" by (simp add: distinct_map)
  have "set m = set (map word_of_int [s..e - 1] :: u32 list)" by (rule mset_eq_setD[OF m])
  also have "\<dots> = word_of_int ` {s..<e}" by (auto simp: image_iff)
  finally have "set m = word_of_int ` {s..<e}" .
  moreover have "length m = nat (e - s)" using mset_eq_length[OF m] by simp
  moreover have "distinct m" using mset_eq_imp_distinct_iff[OF m] d by simp
  ultimately show ?thesis by simp
qed

end
