(* ===== verification/Serialize.thy ===== *)
theory Serialize
  imports SocketTools Payload
begin

text \<open>
  \<^verbatim>\<open>serialize.c\<close> of the server and of the client, and \<^verbatim>\<open>protocol.h\<close>:
  the wire form of packets and of the two configuration messages.  The loops of the C code
  are \<^verbatim>\<open>foldM\<close> over the index range; \<^verbatim>\<open>packet_bytes\<close> is the layout the
  protocol promises.  The two copies of the file differ in one line of
  \<^verbatim>\<open>deserialize_payload\<close>, so that function has two definitions.
\<close>

section \<open>Encoders\<close>

definition serialize_payload :: "u8 list \<Rightarrow> nat \<Rightarrow> packet_format \<Rightarrow> (u8 list \<times> nat) option" where
  "serialize_payload buffer p info = do {
     (buffer, p) \<leftarrow> foldM (\<lambda>i (buffer, p). serialize_u8 buffer p (zero info ! i))
                        [0..<ZERO_FILL_OFFSET] (buffer, p);
     (buffer, p) \<leftarrow> serialize_u8 buffer p (direction info);
     (buffer, p) \<leftarrow> serialize_u8 buffer p (type info);
     (buffer, p) \<leftarrow> foldM (\<lambda>i (buffer, p). serialize_u32 buffer p (userID info ! i)) [0..<3] (buffer, p);
     (buffer, p) \<leftarrow> serialize_u16 buffer p (reserve info);
     (buffer, p) \<leftarrow> serialize_u8 buffer p (type_affirm info);
     (buffer, p) \<leftarrow> serialize_u64 buffer p (family info);
     (buffer, p) \<leftarrow> foldM (\<lambda>i (buffer, p). serialize_u32 buffer p (srcDeviceID info ! i)) [0..<4] (buffer, p);
     (buffer, p) \<leftarrow> foldM (\<lambda>i (buffer, p). serialize_u32 buffer p (dstDeviceID info ! i)) [0..<4] (buffer, p);
     (buffer, p) \<leftarrow> foldM (\<lambda>i (buffer, p). serialize_u32 buffer p (operation info ! i)) [0..<4] (buffer, p);
     foldM (\<lambda>i (buffer, p). serialize_u8 buffer p (state info ! i)) [0..<STATE_SIZE] (buffer, p)
   }"

definition IPLEN :: nat where "IPLEN = 16"

record client_init_configs =
  epoch :: u32
  connections :: u32
  requestRate :: u32
  burst :: u32
  vburst :: u32
  server_ip :: "u8 list"
  server_port :: u32

record client_update_configs =
  u_epoch :: u32
  u_connections :: u32
  u_requestRate :: u32
  u_burst :: u32

definition serialize_init_configs ::
    "u8 list \<Rightarrow> nat \<Rightarrow> client_init_configs \<Rightarrow> (u8 list \<times> nat) option" where
  "serialize_init_configs buffer p info = do {
     (buffer, p) \<leftarrow> serialize_u32 buffer p (epoch info);
     (buffer, p) \<leftarrow> serialize_u32 buffer p (connections info);
     (buffer, p) \<leftarrow> serialize_u32 buffer p (requestRate info);
     (buffer, p) \<leftarrow> serialize_u32 buffer p (burst info);
     (buffer, p) \<leftarrow> serialize_u32 buffer p (vburst info);
     (buffer, p) \<leftarrow> foldM (\<lambda>i (buffer, p). serialize_u8 buffer p (server_ip info ! i)) [0..<IPLEN] (buffer, p);
     serialize_u32 buffer p (server_port info)
   }"

definition serialize_update_configs ::
    "u8 list \<Rightarrow> nat \<Rightarrow> client_update_configs \<Rightarrow> (u8 list \<times> nat) option" where
  "serialize_update_configs buffer p info = do {
     (buffer, p) \<leftarrow> serialize_u32 buffer p (u_epoch info);
     (buffer, p) \<leftarrow> serialize_u32 buffer p (u_connections info);
     (buffer, p) \<leftarrow> serialize_u32 buffer p (u_requestRate info);
     serialize_u32 buffer p (u_burst info)
   }"

section \<open>Decoders\<close>

text \<open>
  A decoder updates the struct field by field and moves the pointer \<^verbatim>\<open>tmp_buf\<close> by
  hand; its state is the struct with the pointer.  The decoders of the configuration messages
  are declared to return a pointer but have no \<^verbatim>\<open>return\<close>: no caller may use the
  value, so the model returns the struct only.
\<close>

definition server_deserialize_payload :: "u8 list \<Rightarrow> nat \<Rightarrow> packet_format \<Rightarrow> packet_format option" where
  "server_deserialize_payload b t info = do {
     (info, t) \<leftarrow> foldM (\<lambda>i (info, t). do { v \<leftarrow> deserialize_u8 b t;
                     map_option (\<lambda>a. (info\<lparr>zero := a\<rparr>, t + 1)) (store (zero info) i v) })
                   [0..<ZERO_FILL_OFFSET] (info, t);
     (info, t) \<leftarrow> do { v \<leftarrow> deserialize_u8 b t; Some (info\<lparr>direction := v\<rparr>, t + 1) };
     (info, t) \<leftarrow> do { v \<leftarrow> deserialize_u8 b t; Some (info\<lparr>type := v\<rparr>, t + 1) };
     (info, t) \<leftarrow> foldM (\<lambda>i (info, t). do { v \<leftarrow> deserialize_u32 b t;
                     map_option (\<lambda>a. (info\<lparr>userID := a\<rparr>, t + 4)) (store (userID info) i v) })
                   [0..<3] (info, t);
     (info, t) \<leftarrow> do { v \<leftarrow> deserialize_u16 b t; Some (info\<lparr>reserve := v\<rparr>, t + 2) };
     (info, t) \<leftarrow> do { v \<leftarrow> deserialize_u8 b t; Some (info\<lparr>type_affirm := v\<rparr>, t + 1) };
     (info, t) \<leftarrow> do { v \<leftarrow> deserialize_u64 b t; Some (info\<lparr>family := v\<rparr>, t + 8) };
     (info, t) \<leftarrow> foldM (\<lambda>i (info, t). do { v \<leftarrow> deserialize_u32 b t;
                     map_option (\<lambda>a. (info\<lparr>srcDeviceID := a\<rparr>, t + 4)) (store (srcDeviceID info) i v) })
                   [0..<4] (info, t);
     (info, t) \<leftarrow> foldM (\<lambda>i (info, t). do { v \<leftarrow> deserialize_u32 b t;
                     map_option (\<lambda>a. (info\<lparr>dstDeviceID := a\<rparr>, t + 4)) (store (dstDeviceID info) i v) })
                   [0..<4] (info, t);
     (info, t) \<leftarrow> foldM (\<lambda>i (info, t). do { v \<leftarrow> deserialize_u32 b t;
                     map_option (\<lambda>a. (info\<lparr>operation := a\<rparr>, t + 4)) (store (operation info) i v) })
                   [0..<4] (info, t);
     (info, t) \<leftarrow> foldM (\<lambda>i (info, t). do { v \<leftarrow> deserialize_u8 b t;
                     map_option (\<lambda>a. (info\<lparr>state := a\<rparr>, t + 1)) (store (state info) i v) })
                   [0..<STATE_SIZE] (info, t);
     Some info
   }"

text \<open>The client's copy stores the destination identifiers into \<^verbatim>\<open>srcDeviceID\<close>.\<close>

definition client_deserialize_payload :: "u8 list \<Rightarrow> nat \<Rightarrow> packet_format \<Rightarrow> packet_format option" where
  "client_deserialize_payload b t info = do {
     (info, t) \<leftarrow> foldM (\<lambda>i (info, t). do { v \<leftarrow> deserialize_u8 b t;
                     map_option (\<lambda>a. (info\<lparr>zero := a\<rparr>, t + 1)) (store (zero info) i v) })
                   [0..<ZERO_FILL_OFFSET] (info, t);
     (info, t) \<leftarrow> do { v \<leftarrow> deserialize_u8 b t; Some (info\<lparr>direction := v\<rparr>, t + 1) };
     (info, t) \<leftarrow> do { v \<leftarrow> deserialize_u8 b t; Some (info\<lparr>type := v\<rparr>, t + 1) };
     (info, t) \<leftarrow> foldM (\<lambda>i (info, t). do { v \<leftarrow> deserialize_u32 b t;
                     map_option (\<lambda>a. (info\<lparr>userID := a\<rparr>, t + 4)) (store (userID info) i v) })
                   [0..<3] (info, t);
     (info, t) \<leftarrow> do { v \<leftarrow> deserialize_u16 b t; Some (info\<lparr>reserve := v\<rparr>, t + 2) };
     (info, t) \<leftarrow> do { v \<leftarrow> deserialize_u8 b t; Some (info\<lparr>type_affirm := v\<rparr>, t + 1) };
     (info, t) \<leftarrow> do { v \<leftarrow> deserialize_u64 b t; Some (info\<lparr>family := v\<rparr>, t + 8) };
     (info, t) \<leftarrow> foldM (\<lambda>i (info, t). do { v \<leftarrow> deserialize_u32 b t;
                     map_option (\<lambda>a. (info\<lparr>srcDeviceID := a\<rparr>, t + 4)) (store (srcDeviceID info) i v) })
                   [0..<4] (info, t);
     (info, t) \<leftarrow> foldM (\<lambda>i (info, t). do { v \<leftarrow> deserialize_u32 b t;
                     map_option (\<lambda>a. (info\<lparr>srcDeviceID := a\<rparr>, t + 4)) (store (srcDeviceID info) i v) })
                   [0..<4] (info, t);
     (info, t) \<leftarrow> foldM (\<lambda>i (info, t). do { v \<leftarrow> deserialize_u32 b t;
                     map_option (\<lambda>a. (info\<lparr>operation := a\<rparr>, t + 4)) (store (operation info) i v) })
                   [0..<4] (info, t);
     (info, t) \<leftarrow> foldM (\<lambda>i (info, t). do { v \<leftarrow> deserialize_u8 b t;
                     map_option (\<lambda>a. (info\<lparr>state := a\<rparr>, t + 1)) (store (state info) i v) })
                   [0..<STATE_SIZE] (info, t);
     Some info
   }"

definition deserialize_init_configs ::
    "u8 list \<Rightarrow> nat \<Rightarrow> client_init_configs \<Rightarrow> client_init_configs option" where
  "deserialize_init_configs b t info = do {
     (info, t) \<leftarrow> do { v \<leftarrow> deserialize_u32 b t; Some (info\<lparr>epoch := v\<rparr>, t + 4) };
     (info, t) \<leftarrow> do { v \<leftarrow> deserialize_u32 b t; Some (info\<lparr>connections := v\<rparr>, t + 4) };
     (info, t) \<leftarrow> do { v \<leftarrow> deserialize_u32 b t; Some (info\<lparr>requestRate := v\<rparr>, t + 4) };
     (info, t) \<leftarrow> do { v \<leftarrow> deserialize_u32 b t; Some (info\<lparr>burst := v\<rparr>, t + 4) };
     (info, t) \<leftarrow> do { v \<leftarrow> deserialize_u32 b t; Some (info\<lparr>vburst := v\<rparr>, t + 4) };
     (info, t) \<leftarrow> foldM (\<lambda>i (info, t). do { v \<leftarrow> deserialize_u8 b t;
                     map_option (\<lambda>a. (info\<lparr>server_ip := a\<rparr>, t + 1)) (store (server_ip info) i v) })
                   [0..<IPLEN] (info, t);
     (info, t) \<leftarrow> do { v \<leftarrow> deserialize_u32 b t; Some (info\<lparr>server_port := v\<rparr>, t + 4) };
     Some info
   }"

definition deserialize_update_configs ::
    "u8 list \<Rightarrow> nat \<Rightarrow> client_update_configs \<Rightarrow> client_update_configs option" where
  "deserialize_update_configs b t info = do {
     (info, t) \<leftarrow> do { v \<leftarrow> deserialize_u32 b t; Some (info\<lparr>u_epoch := v\<rparr>, t + 4) };
     (info, t) \<leftarrow> do { v \<leftarrow> deserialize_u32 b t; Some (info\<lparr>u_connections := v\<rparr>, t + 4) };
     (info, t) \<leftarrow> do { v \<leftarrow> deserialize_u32 b t; Some (info\<lparr>u_requestRate := v\<rparr>, t + 4) };
     (info, t) \<leftarrow> do { v \<leftarrow> deserialize_u32 b t; Some (info\<lparr>u_burst := v\<rparr>, t + 4) };
     Some info
   }"

section \<open>The layout\<close>

definition packet_bytes :: "packet_format \<Rightarrow> u8 list" where
  "packet_bytes pk = concat (map (be_bytes 1) (zero pk)) @ be_bytes 1 (direction pk) @
     be_bytes 1 (type pk) @ concat (map (be_bytes 4) (userID pk)) @ be_bytes 2 (reserve pk) @
     be_bytes 1 (type_affirm pk) @ be_bytes 8 (family pk) @
     concat (map (be_bytes 4) (srcDeviceID pk)) @ concat (map (be_bytes 4) (dstDeviceID pk)) @
     concat (map (be_bytes 4) (operation pk)) @ concat (map (be_bytes 1) (state pk))"

definition init_configs_bytes :: "client_init_configs \<Rightarrow> u8 list" where
  "init_configs_bytes c = be_bytes 4 (epoch c) @ be_bytes 4 (connections c) @
     be_bytes 4 (requestRate c) @ be_bytes 4 (burst c) @ be_bytes 4 (vburst c) @
     concat (map (be_bytes 1) (server_ip c)) @ be_bytes 4 (server_port c)"

definition update_configs_bytes :: "client_update_configs \<Rightarrow> u8 list" where
  "update_configs_bytes c = be_bytes 4 (u_epoch c) @ be_bytes 4 (u_connections c) @
     be_bytes 4 (u_requestRate c) @ be_bytes 4 (u_burst c)"

definition wf_init_configs :: "client_init_configs \<Rightarrow> bool" where
  "wf_init_configs c \<longleftrightarrow> length (server_ip c) = IPLEN"

lemmas length_arrays = u8c.length_concat_bytes u16c.length_concat_bytes u32c.length_concat_bytes

lemma length_packet_bytes [bytes_simps]: "wf_packet pk \<Longrightarrow> length (packet_bytes pk) = PAYLOAD_SIZE"
  by (simp add: packet_bytes_def wf_packet_def length_arrays[simplified])

lemma length_init_configs_bytes: "wf_init_configs c \<Longrightarrow> length (init_configs_bytes c) = 40"
  by (simp add: init_configs_bytes_def wf_init_configs_def length_arrays[simplified] IPLEN_def)

lemma length_update_configs_bytes: "length (update_configs_bytes c) = 16"
  by (simp add: update_configs_bytes_def)

lemma serialize_payload_emits:
  assumes "wf_packet pk"
  shows "emits (\<lambda>b p. serialize_payload b p pk) (packet_bytes pk)"
  unfolding serialize_payload_def packet_bytes_def
  by (intro emit_intros u8c.put_emits u16c.put_emits u32c.put_emits u64c.put_emits
      u8c.put_list u32c.put_list) (use assms in \<open>auto simp: wf_packet_def\<close>)

lemma serialize_init_configs_emits:
  assumes "wf_init_configs c"
  shows "emits (\<lambda>b p. serialize_init_configs b p c) (init_configs_bytes c)"
  unfolding serialize_init_configs_def init_configs_bytes_def
  by (intro emit_intros u8c.put_emits u32c.put_emits u8c.put_list)
    (use assms in \<open>auto simp: wf_init_configs_def IPLEN_def\<close>)

lemma serialize_update_configs_emits:
  "emits (\<lambda>b p. serialize_update_configs b p c) (update_configs_bytes c)"
  unfolding serialize_update_configs_def update_configs_bytes_def
  by (intro emit_intros u32c.put_emits)

section \<open>What the decoders compute\<close>

definition packet_of :: "u8 list \<Rightarrow> packet_format" where
  "packet_of bs = \<lparr>zero = slice 0 6 bs, direction = bs ! 6, type = bs ! 7,
     userID = u32c.vals 3 (slice 8 12 bs), reserve = be_value (slice 20 2 bs),
     type_affirm = bs ! 22, family = be_value (slice 23 8 bs),
     srcDeviceID = u32c.vals 4 (slice 31 16 bs), dstDeviceID = u32c.vals 4 (slice 47 16 bs),
     operation = u32c.vals 4 (slice 63 16 bs), state = slice 79 67 bs\<rparr>"

lemmas decode_rules = decodes_done u8c.decodes_one u16c.decodes_one u32c.decodes_one
  u64c.decodes_one u8c.decodes_array u32c.decodes_array

lemma u8_val_at: "k < length bs \<Longrightarrow> (be_value (take (Suc 0) (drop k bs)) :: u8) = bs ! k"
  by (simp add: be_value_def take_Suc_conv_app_nth hd_drop_conv_nth take_Suc)

lemma u8_vals_id: "length bs = n \<Longrightarrow> scalar_codec.vals (Suc 0) be_value n bs = bs"
  by (rule nth_equalityI) (auto simp: u8c.vals_def[simplified] slice_def u8_val_at)

lemmas decoded_simps = u8_val_at u8_vals_id slice_def wf_packet_def wf_init_configs_def

lemma server_deserialize_payload_decodes:
  "decodes wf_packet (\<lambda>b (s, p). server_deserialize_payload b p s) 146 (\<lambda>bs s. packet_of bs)"
  unfolding server_deserialize_payload_def
  by (rule decodes_cong, (rule decode_rules)+)
    (auto intro!: packet_format.equality simp: decoded_simps packet_of_def add.commute)

lemma client_deserialize_payload_decodes:
  "decodes wf_packet (\<lambda>b (s, p). client_deserialize_payload b p s) 146
     (\<lambda>bs s. (packet_of bs)\<lparr>srcDeviceID := dstDeviceID (packet_of bs), dstDeviceID := dstDeviceID s\<rparr>)"
  unfolding client_deserialize_payload_def
  by (rule decodes_cong, (rule decode_rules)+)
    (auto intro!: packet_format.equality simp: decoded_simps packet_of_def add.commute)

text \<open>Encoding and decoding are inverse on the layout.\<close>

lemma wf_packet_of [simp]: "length bs = 146 \<Longrightarrow> wf_packet (packet_of bs)"
  by (simp add: wf_packet_def packet_of_def)

lemma concat_be_bytes_1: "concat (map (be_bytes (Suc 0)) xs) = (xs :: u8 list)"
  by (induction xs) auto

lemma packet_of_packet_bytes:
  assumes "wf_packet pk"
  shows "packet_of (packet_bytes pk) = pk"
proof -
  have len: "length (concat (map (be_bytes 4) (xs :: u32 list))) = 4 * length xs" for xs
    by (rule u32c.length_concat_bytes)
  show ?thesis
    using assms
    by (intro packet_format.equality)
      (simp_all add: packet_of_def packet_bytes_def wf_packet_def slice_def concat_be_bytes_1 len
        nth_append u32c.vals_concat be_value_be_bytes)
qed

lemma packet_bytes_packet_of:
  assumes "length bs = 146"
  shows "packet_bytes (packet_of bs) = bs"
proof -
  have arr: "concat (map (be_bytes 4) (u32c.vals n (slice p (4 * n) bs))) = slice p (4 * n) bs"
    if "p + 4 * n \<le> 146" for n p
    by (rule u32c.concat_vals) (use assms that in simp)
  have "slice 0 146 bs = bs" using slice_all[of bs] assms by simp
  then show ?thesis
    using arr[of 8 3] arr[of 31 4] arr[of 47 4] arr[of 63 4] assms
    by (simp add: packet_of_def packet_bytes_def concat_be_bytes_1 be_bytes_be_value_length
        slice_join Cons_slice)
qed

text \<open>The wire form of a packet determines the packet.\<close>

lemma packet_bytes_inj: "wf_packet a \<Longrightarrow> wf_packet b \<Longrightarrow> packet_bytes a = packet_bytes b \<Longrightarrow> a = b"
  by (metis packet_of_packet_bytes)

section \<open>The configuration messages\<close>

lemma deserialize_init_configs_decodes:
  "decodes wf_init_configs (\<lambda>b (s, p). deserialize_init_configs b p s) 40
     (\<lambda>bs s. \<lparr>epoch = be_value (slice 0 4 bs), connections = be_value (slice 4 4 bs),
        requestRate = be_value (slice 8 4 bs), burst = be_value (slice 12 4 bs),
        vburst = be_value (slice 16 4 bs), server_ip = slice 20 16 bs,
        server_port = be_value (slice 36 4 bs)\<rparr>)"
  unfolding deserialize_init_configs_def
  by (rule decodes_cong, (rule decode_rules)+)
    (auto intro!: client_init_configs.equality simp: decoded_simps IPLEN_def add.commute)

lemma deserialize_update_configs_decodes:
  "decodes (\<lambda>_. True) (\<lambda>b (s, p). deserialize_update_configs b p s) 16
     (\<lambda>bs s. \<lparr>u_epoch = be_value (slice 0 4 bs), u_connections = be_value (slice 4 4 bs),
        u_requestRate = be_value (slice 8 4 bs), u_burst = be_value (slice 12 4 bs)\<rparr>)"
  unfolding deserialize_update_configs_def
  by (rule decodes_cong, (rule decode_rules)+)
    (auto intro!: client_update_configs.equality simp: decoded_simps add.commute)

end
