(* ===== verification/PayloadCipher.thy ===== *)
theory PayloadCipher
  imports KeyTable Serialize
begin

text \<open>
  \<^verbatim>\<open>DES/payload_cipher.c\<close>: encryption of a packet's payload, sixteen blocks of eight
  bytes with the key that the identity bytes of the same packet select.  The block cipher is used
  through the interface \<open>block_cipher\<close>, which \<^verbatim>\<open>own_encrypt\<close> and
  \<^verbatim>\<open>own_decrypt\<close> satisfy.
\<close>

definition CIPHER_SIZE :: nat where "CIPHER_SIZE = 8"
definition GROUPS :: nat where "GROUPS = 16"

lemmas cipher_sizes [simp] = CIPHER_SIZE_def GROUPS_def

text \<open>The global \<^verbatim>\<open>keyTableBase\<close>, a zeroed block that the generator fills.\<close>

definition initKeyTable :: "u64 list option" where
  "initKeyTable = des_key_init (replicate TABLE_SIZE 0) TABLE_SIZE INIT_SEED"

text \<open>The wrappers \<open>encrypt\<close> and \<open>decrypt\<close>: the output is written at index p of its block.\<close>

definition encrypt :: "u8 list \<Rightarrow> u64 \<Rightarrow> u8 list \<Rightarrow> nat \<Rightarrow> u8 list option" where
  "encrypt plain key ciphertext p = own_encrypt plain ciphertext p key"

definition decrypt :: "u8 list \<Rightarrow> nat \<Rightarrow> u64 \<Rightarrow> u8 list \<Rightarrow> u8 list option" where
  "decrypt plain p key cipher = own_decrypt cipher plain p key"

text \<open>
  \<open>encrypt_payload t src p u dst c\<close>: payload and user identity are the indices p and u of one
  block, as in both callers; the ciphertext starts at index c of the other.  In
  \<open>decrypt_payload\<close> the identity is in the block that receives the plaintext.
\<close>

definition encrypt_payload ::
    "u64 list \<Rightarrow> u8 list \<Rightarrow> nat \<Rightarrow> nat \<Rightarrow> u8 list \<Rightarrow> nat \<Rightarrow> u8 list option" where
  "encrypt_payload keyTableBase b payload uid cb ciphertext = do {
     key \<leftarrow> get_key_from_userID b uid keyTableBase;
     foldM (\<lambda>i cb. do {
         plain \<leftarrow> memcpy_from b (payload + i * CIPHER_SIZE) CIPHER_SIZE;
         encrypt plain key cb (ciphertext + i * CIPHER_SIZE)
       }) [0..<GROUPS] cb
   }"

definition decrypt_payload ::
    "u64 list \<Rightarrow> u8 list \<Rightarrow> nat \<Rightarrow> nat \<Rightarrow> u8 list \<Rightarrow> nat \<Rightarrow> u8 list option" where
  "decrypt_payload keyTableBase b payload uid cb ciphertext = do {
     key \<leftarrow> get_key_from_userID b uid keyTableBase;
     foldM (\<lambda>i b. do {
         cipher \<leftarrow> memcpy_from cb (ciphertext + i * CIPHER_SIZE) CIPHER_SIZE;
         decrypt b (payload + i * CIPHER_SIZE) key cipher
       }) [0..<GROUPS] b
   }"

text \<open>
  The two callers.  The client's sending branch (\<^verbatim>\<open>epollLoop\<close>): the clear prefix is
  copied and the rest encrypted; the server's receiving side (\<^verbatim>\<open>processPackets\<close>) the
  other way round.  The uninitialised contents of the array the code declares are the argument
  \<open>junk\<close>, the space there is for it is its length.  The programs declare \<^verbatim>\<open>PAYLOAD_SIZE\<close>
  = 146 bytes, and then both functions are undefined (\<open>payload_cipher_overruns\<close>); theorems about the build
  with the cipher assume four bytes more, and say so.
\<close>

definition seal_packet :: "u64 list \<Rightarrow> u8 list \<Rightarrow> u8 list \<Rightarrow> u8 list option" where
  "seal_packet keyTableBase payload_buf junk = do {
     clear \<leftarrow> memcpy_from payload_buf 0 PAYLOAD_OFFSET;
     payload_cipher \<leftarrow> memcpy_to junk 0 clear;
     encrypt_payload keyTableBase payload_buf PAYLOAD_OFFSET ZERO_FILL_OFFSET payload_cipher PAYLOAD_OFFSET
   }"

definition open_packet :: "u64 list \<Rightarrow> u8 list \<Rightarrow> u8 list \<Rightarrow> u8 list option" where
  "open_packet keyTableBase buf junk = do {
     clear \<leftarrow> memcpy_from buf 0 PAYLOAD_OFFSET;
     buf_plain \<leftarrow> memcpy_to junk 0 clear;
     decrypt_payload keyTableBase buf_plain PAYLOAD_OFFSET ZERO_FILL_OFFSET buf PAYLOAD_OFFSET
   }"

section \<open>The blocks of a buffer\<close>

definition blocks_of :: "nat \<Rightarrow> nat \<Rightarrow> u8 list \<Rightarrow> u8 list list" where
  "blocks_of p n b = map (\<lambda>i. slice (p + 8 * i) 8 b) [0..<n]"

lemma length_concat_const: "(\<And>x. x \<in> set xs \<Longrightarrow> length (f x) = k) \<Longrightarrow> length (concat (map f xs)) = k * length xs"
  by (induction xs) auto

lemma blocks_of_Suc: "blocks_of p (Suc n) b = blocks_of p n b @ [slice (p + 8 * n) 8 b]"
  by (simp add: blocks_of_def)

lemma length_blocks_of: "p + 8 * n \<le> length b \<Longrightarrow> x \<in> set (blocks_of p n b) \<Longrightarrow> length x = 8"
  by (auto simp: blocks_of_def)

lemma concat_blocks_of: "p + 8 * n \<le> length b \<Longrightarrow> concat (blocks_of p n b) = slice p (8 * n) b"
proof (induction n)
  case 0
  then show ?case by (simp add: blocks_of_def slice_def)
next
  case (Suc n)
  then show ?case by (simp add: blocks_of_Suc slice_join add.commute)
qed

lemma blocks_of_concat:
  assumes "\<And>x. x \<in> set xs \<Longrightarrow> length x = 8"
  shows "blocks_of 0 (length xs) (concat xs @ ys) = xs"
  using assms
proof (induction xs arbitrary: ys rule: rev_induct)
  case Nil
  then show ?case by (simp add: blocks_of_def)
next
  case (snoc x xs)
  have "length (concat xs) = 8 * length xs"
    using snoc.prems length_concat_const[of xs "\<lambda>x. x" 8] by simp
  then have "slice (8 * length xs) 8 (concat xs @ x @ ys) = x"
    using snoc.prems by (simp add: slice_def)
  with snoc show ?case by (simp add: blocks_of_Suc)
qed

lemma blocks_of_shift: "blocks_of p n b = blocks_of 0 n (drop p b)"
  by (auto simp: blocks_of_def slice_def add.commute)

lemma blocks_of_splice:
  assumes "p + 8 * length xs \<le> length b" and "\<And>x. x \<in> set xs \<Longrightarrow> length x = 8"
  shows "blocks_of p (length xs) (splice b p (concat xs)) = xs"
proof -
  have "drop p (splice b p (concat xs)) = concat xs @ drop (p + length (concat xs)) b"
    using assms(1) by (simp add: splice_def)
  then show ?thesis by (simp only: blocks_of_shift[of p] blocks_of_concat[OF assms(2)])
qed

section \<open>Block ciphers and the buffers they fill\<close>

text \<open>
  What the payload code relies on: \<open>encr\<close> and \<open>decr\<close> write the image of an 8-byte block under
  E and D, D and E are inverse, and each of the four 2-byte words of a decrypted block depends
  only on the ciphertext up to that word.
\<close>

locale block_cipher =
  fixes E D :: "'k \<Rightarrow> u8 list \<Rightarrow> u8 list"
    and encr decr :: "u8 list \<Rightarrow> u8 list \<Rightarrow> nat \<Rightarrow> 'k \<Rightarrow> u8 list option"
  assumes encr_eq: "encr s d p k =
      (if 8 \<le> length s \<and> p + 8 \<le> length d then Some (splice d p (E k (take 8 s))) else None)"
    and decr_eq: "decr s d p k =
      (if 8 \<le> length s \<and> p + 8 \<le> length d then Some (splice d p (D k (take 8 s))) else None)"
    and length_E: "length bs = 8 \<Longrightarrow> length (E k bs) = 8"
    and length_D: "length bs = 8 \<Longrightarrow> length (D k bs) = 8"
    and D_E: "length bs = 8 \<Longrightarrow> D k (E k bs) = bs"
    and E_D: "length bs = 8 \<Longrightarrow> E k (D k bs) = bs"
    and D_prefix: "take (2 * n) bs = take (2 * n) cs \<Longrightarrow> take (2 * n) (D k bs) = take (2 * n) (D k cs)"
begin

lemma block_loop:
  assumes op_eq: "\<And>s d p k. f s d p k =
      (if 8 \<le> length s \<and> p + 8 \<le> length d then Some (splice d p (F k (take 8 s))) else None)"
    and len: "\<And>bs. length bs = 8 \<Longrightarrow> length (F k bs) = 8"
    and src: "p + 8 * n \<le> length src" and dst: "q + 8 * n \<le> length dst"
  shows "foldM (\<lambda>i d. do { s \<leftarrow> memcpy_from src (p + i * 8) 8; f s d (q + i * 8) k }) [0..<n] dst
    = Some (splice dst q (concat (map (F k) (blocks_of p n src))))"
  using src dst
proof (induction n)
  case 0
  then show ?case by (simp add: blocks_of_def)
next
  case (Suc n)
  let ?out = "concat (map (F k) (blocks_of p n src))"
  have l: "length ?out = 8 * n"
    using len length_blocks_of[of p n src] Suc.prems
    by (subst length_concat_const[where k = 8]) (auto simp: blocks_of_def)
  have b: "length (slice (p + 8 * n) 8 src) = 8" using Suc.prems by simp
  have "splice (splice dst q ?out) (q + 8 * n) (F k (slice (p + 8 * n) 8 src))
      = splice dst q (?out @ F k (slice (p + 8 * n) 8 src))"
    using Suc.prems l len[OF b] by (intro splice_splice_at) auto
  with Suc l b show ?case
    by (simp add: foldM_append foldM_single memcpy_from_def op_eq blocks_of_Suc mult.commute)
qed

lemma block_loop_None:
  fixes src dst :: "u8 list"
  assumes op_eq: "\<And>s d p k. f s d p k =
      (if 8 \<le> length s \<and> p + 8 \<le> length d then Some (splice d p (F k (take 8 s))) else None)"
    and len: "\<And>bs. length bs = 8 \<Longrightarrow> length (F k bs) = 8"
    and out: "length src < p + 8 * n \<or> length dst < q + 8 * n" and "0 < n"
  shows "foldM (\<lambda>i d. do { s \<leftarrow> memcpy_from src (p + i * 8) 8; f s d (q + i * 8) k }) [0..<n] dst = None"
  using assms(3,4)
proof (induction n)
  case (Suc n)
  let ?body = "\<lambda>i d. do { s \<leftarrow> memcpy_from src (p + i * 8) 8; f s d (q + i * 8) k }"
  show ?case
  proof (cases "p + 8 * n \<le> length src \<and> q + 8 * n \<le> length dst")
    case True
    let ?out = "concat (map (F k) (blocks_of p n src))"
    have "length ?out = 8 * n"
      using len length_blocks_of[of p n src] True
      by (subst length_concat_const[where k = 8]) (auto simp: blocks_of_def)
    with True have "length (splice dst q ?out) = length dst" by simp
    moreover have "foldM ?body [0..<n] dst = Some (splice dst q ?out)"
      using True by (intro block_loop op_eq len) auto
    ultimately show ?thesis
      using Suc.prems(1)
      by (auto simp: foldM_append foldM_single memcpy_from_def op_eq mult.commute)
  next
    case False
    show ?thesis
    proof (cases "n = 0")
      case True
      with Suc.prems show ?thesis by (auto simp: memcpy_from_def op_eq)
    next
      case nz: False
      with False Suc.IH have "foldM ?body [0..<n] dst = None" by auto
      then show ?thesis by (simp add: foldM_append)
    qed
  qed
qed simp

lemma decrypt_encrypted_blocks:
  assumes "p + 8 * n \<le> length src" and "q + 8 * n \<le> length dst"
  shows "map (D k) (blocks_of q n (splice dst q (concat (map (E k) (blocks_of p n src))))) = blocks_of p n src"
proof -
  let ?ys = "map (E k) (blocks_of p n src)"
  have n: "length ?ys = n" by (simp add: blocks_of_def)
  have len: "length x = 8" if "x \<in> set ?ys" for x
    using that length_blocks_of[OF assms(1)] length_E by auto
  have "blocks_of q (length ?ys) (splice dst q (concat ?ys)) = ?ys"
    by (rule blocks_of_splice) (use assms n len in auto)
  then have "map (D k) (blocks_of q n (splice dst q (concat ?ys))) = map (D k) ?ys"
    by (simp only: n)
  also have "\<dots> = map (\<lambda>x. x) (blocks_of p n src)"
    unfolding map_map using length_blocks_of[OF assms(1)] D_E by (intro map_cong) auto
  finally show ?thesis by simp
qed

lemma decrypted_prefix:
  assumes eq: "take (p + (8 * n + 2 * m)) b = take (p + (8 * n + 2 * m)) c"
    and len: "p + 8 * Suc n \<le> length b" "p + 8 * Suc n \<le> length c"
  shows "take (8 * n + 2 * m) (concat (map (D k) (blocks_of p (Suc n) b))) =
    take (8 * n + 2 * m) (concat (map (D k) (blocks_of p (Suc n) c)))"
proof -
  have sub: "take i (drop j b) = take i (drop j c)" if "j + i \<le> p + (8 * n + 2 * m)" for i j
  proof -
    have "take i (drop j (take (p + (8 * n + 2 * m)) x)) = take i (drop j x)" for x :: "u8 list"
      using that by (simp add: drop_take min_def)
    then show ?thesis by (metis eq)
  qed
  have blocks: "blocks_of p n b = blocks_of p n c"
    by (auto simp: blocks_of_def slice_def intro!: sub)
  have "take (2 * m) (slice (p + 8 * n) 8 b) = take (2 * m) (slice (p + 8 * n) 8 c)"
    using sub[of "p + 8 * n" "min (2 * m) 8"] by (simp add: slice_def min.commute)
  then have last: "take (2 * m) (D k (slice (p + 8 * n) 8 b)) = take (2 * m) (D k (slice (p + 8 * n) 8 c))"
    by (rule D_prefix)
  have "length (concat (map (D k) (blocks_of p n c))) = 8 * n"
    using length_blocks_of[of p n c] len length_D
    by (subst length_concat_const[where k = 8]) (auto simp: blocks_of_def)
  then show ?thesis by (simp add: blocks_of_Suc blocks last)
qed

end

interpretation desc: block_cipher enc_block dec_block own_encrypt own_decrypt
  by unfold_locales
    (use own_encrypt_eq own_decrypt_eq in
      \<open>auto simp: dec_enc_block enc_dec_block intro: dec_block_prefix\<close>)

section \<open>Payload encryption\<close>

definition userID_key :: "u64 list \<Rightarrow> nat \<Rightarrow> u8 list \<Rightarrow> u64" where
  "userID_key t u b = t ! key_index (slice u 16 b)"

lemma userID_key_cong: "slice u 16 b = slice u 16 c \<Longrightarrow> userID_key t u b = userID_key t u c"
  by (simp add: userID_key_def)

lemma get_key_Some:
  "length t = TABLE_SIZE \<Longrightarrow> u + 16 \<le> length b \<Longrightarrow> get_key_from_userID b u t = Some (userID_key t u b)"
  using key_index_less[of "slice u 16 b"] by (simp add: get_key_from_userID_eq userID_key_def)

lemma encrypt_payload_eq:
  assumes "length t = TABLE_SIZE" and "u + 16 \<le> length b"
    and "p + 128 \<le> length b" and "c + 128 \<le> length cb"
  shows "encrypt_payload t b p u cb c =
    Some (splice cb c (concat (map (enc_block (userID_key t u b)) (blocks_of p 16 b))))"
  using assms desc.block_loop[where f = own_encrypt and F = enc_block and p = p and n = 16 and src = b and q = c and dst = cb and k = "userID_key t u b"]
  by (simp add: encrypt_payload_def encrypt_def get_key_Some own_encrypt_eq)

lemma decrypt_payload_eq:
  assumes "length t = TABLE_SIZE" and "u + 16 \<le> length b"
    and "p + 128 \<le> length b" and "c + 128 \<le> length cb"
  shows "decrypt_payload t b p u cb c =
    Some (splice b p (concat (map (dec_block (userID_key t u b)) (blocks_of c 16 cb))))"
  using assms desc.block_loop[where f = own_decrypt and F = dec_block and p = c and n = 16 and src = cb and q = p and dst = b and k = "userID_key t u b"]
  by (simp add: decrypt_payload_def decrypt_def get_key_Some own_decrypt_eq)

lemma encrypt_payload_None:
  assumes "length b < p + 128 \<or> length cb < c + 128"
  shows "encrypt_payload t b p u cb c = None"
proof (cases "get_key_from_userID b u t")
  case (Some key)
  then show ?thesis
    using desc.block_loop_None[where f = own_encrypt and F = enc_block and p = p and n = 16 and src = b and q = c and dst = cb and k = key] assms
    by (simp add: encrypt_payload_def encrypt_def own_encrypt_eq)
qed (simp add: encrypt_payload_def)

lemma decrypt_payload_None:
  assumes "length b < p + 128 \<or> length cb < c + 128"
  shows "decrypt_payload t b p u cb c = None"
proof (cases "get_key_from_userID b u t")
  case (Some key)
  then show ?thesis
    using desc.block_loop_None[where f = own_decrypt and F = dec_block and p = c and n = 16 and src = cb and q = p and dst = b and k = key] assms
    by (simp add: decrypt_payload_def decrypt_def own_decrypt_eq disj_commute)
qed (simp add: decrypt_payload_def)

lemma seal_packet_eq:
  assumes "length t = TABLE_SIZE" and "150 \<le> length b" and "150 \<le> length junk"
  shows "seal_packet t b junk =
    Some (splice (splice junk 0 (slice 0 22 b)) 22
      (concat (map (enc_block (userID_key t 6 b)) (blocks_of 22 16 b))))"
  using assms by (simp add: seal_packet_def memcpy_from_def memcpy_to_def encrypt_payload_eq)

lemma open_packet_eq:
  assumes "length t = TABLE_SIZE" and "150 \<le> length b" and "150 \<le> length junk"
  shows "open_packet t b junk =
    Some (splice (splice junk 0 (slice 0 22 b)) 22
      (concat (map (dec_block (userID_key t 6 (splice junk 0 (slice 0 22 b)))) (blocks_of 22 16 b))))"
  using assms by (simp add: open_packet_def memcpy_from_def memcpy_to_def decrypt_payload_eq)

lemma slice_of_prefix:
  "p + n \<le> m \<Longrightarrow> take m b = take m c \<Longrightarrow> slice p n b = slice p n c"
proof -
  assume "p + n \<le> m" and eq: "take m b = take m c"
  then have "slice p n (take m x) = slice p n x" for x :: "'a list"
    by (simp add: slice_def drop_take min_def)
  then show ?thesis by (metis eq)
qed

lemma take_splice: "m \<le> p \<Longrightarrow> p \<le> length b \<Longrightarrow> take m (splice b p xs) = take m b"
  by (simp add: splice_def)

lemma take_clear: "22 \<le> length b \<Longrightarrow> 22 \<le> length junk \<Longrightarrow> take 22 (splice junk 0 (slice 0 22 b)) = take 22 b"
  by (simp add: splice_def slice_def)

lemma open_sealed:
  assumes t: "length t = TABLE_SIZE" and b: "150 \<le> length b"
    and junk: "150 \<le> length junk" "150 \<le> length junk'"
    and seal: "seal_packet t b junk = Some c" and recv: "150 \<le> length r" "take 146 r = take 146 c"
  shows "\<exists>d. open_packet t r junk' = Some d \<and> take 146 d = take 146 b"
proof -
  let ?k = "userID_key t 6 b"
  let ?s = "splice junk 0 (slice 0 22 b)" and ?s' = "splice junk' 0 (slice 0 22 r)"
  let ?dec = "\<lambda>x. concat (map (dec_block ?k) (blocks_of 22 16 x))"
  have lens: "length ?s = length junk" "length ?s' = length junk'" using junk b recv by simp_all
  have c: "c = splice ?s 22 (concat (map (enc_block ?k) (blocks_of 22 16 b)))"
    using seal seal_packet_eq[OF t b junk(1)] by simp
  have "take 22 r = take 22 c" using arg_cong[OF recv(2), of "take 22"] by simp
  also have "\<dots> = take 22 b" unfolding c using take_clear[of b junk] b junk by (simp add: take_splice)
  finally have clear: "take 22 r = take 22 b" .
  then have "take 22 ?s' = take 22 b" using take_clear[of r junk'] junk recv by simp
  then have key: "userID_key t 6 ?s' = ?k"
    by (intro userID_key_cong slice_of_prefix[where m = 22]) auto
  have len_out: "length (concat (map (f ?k) (blocks_of 22 16 x))) = 128"
    if "150 \<le> length x" "\<And>bs. length bs = 8 \<Longrightarrow> length (f ?k bs) = 8" for f x
    using that length_blocks_of[of 22 16 x]
    by (subst length_concat_const[where k = 8]) (auto simp: blocks_of_def)
  have len_c: "length c = length junk"
    unfolding c using len_out[OF b, of enc_block] lens junk by simp
  have "take 124 (?dec r) = take 124 (?dec c)"
    using desc.decrypted_prefix[of 22 15 2 r c ?k] recv len_c junk by simp
  also have "map (dec_block ?k) (blocks_of 22 16 c) = blocks_of 22 16 b"
    unfolding c by (rule desc.decrypt_encrypted_blocks) (use b lens junk in auto)
  also have "concat (blocks_of 22 16 b) = slice 22 128 b"
    using concat_blocks_of[of 22 16 b] b by simp
  finally have body: "take 124 (?dec r) = slice 22 124 b" by (simp add: slice_def)
  have "open_packet t r junk' = Some (splice ?s' 22 (?dec r))"
    using open_packet_eq[OF t recv(1) junk(2)] key by simp
  moreover have "take 146 (splice ?s' 22 (?dec r)) = take 22 ?s' @ take 124 (?dec r)"
    using junk recv(1) len_out[OF recv(1), of dec_block] by (simp add: splice_def)
  moreover have "\<dots> = take 146 b"
    using \<open>take 22 ?s' = take 22 b\<close> body take_add[of 22 124 b] by (simp add: slice_def)
  ultimately show ?thesis by simp
qed

lemma initKeyTable_eq: "initKeyTable = Some (map (\<lambda>i. (lfsr_step ^^ i) INIT_SEED) [0..<TABLE_SIZE])"
proof -
  have "splice (replicate TABLE_SIZE (0 :: u64)) 0 (map g [0..<TABLE_SIZE]) = map g [0..<TABLE_SIZE]" for g
    by (simp add: splice_def)
  then show ?thesis unfolding initKeyTable_def by (subst des_key_init_eq) auto
qed

end
