(* ===== verification/WireTheorems.thy ===== *)
theory WireTheorems
  imports PayloadCipher
begin

text \<open>
  The properties of the packet path: encoding, encryption, decryption and decoding, each on its
  own and composed; the key table; the permutation of session identities.
\<close>

lemma serialize_payload_eq:
  "wf_packet pk \<Longrightarrow> serialize_payload b p pk =
     (if p + 146 \<le> length b then Some (splice b p (packet_bytes pk), p + 146) else None)"
  using emits_apply[OF serialize_payload_emits] by (simp add: length_packet_bytes)

lemma server_deserialize_payload_eq:
  "wf_packet s \<Longrightarrow> p + 146 \<le> length b \<Longrightarrow>
     server_deserialize_payload b p s = Some (packet_of (slice p 146 b))"
  by (rule decodes_apply[OF server_deserialize_payload_decodes])

lemma client_deserialize_payload_eq:
  "wf_packet s \<Longrightarrow> p + 146 \<le> length b \<Longrightarrow>
     client_deserialize_payload b p s = Some ((packet_of (slice p 146 b))
       \<lparr>srcDeviceID := dstDeviceID (packet_of (slice p 146 b)), dstDeviceID := dstDeviceID s\<rparr>)"
  by (rule decodes_apply[OF client_deserialize_payload_decodes])

lemma packet_of_prefix: "take 146 b = packet_bytes pk \<Longrightarrow> wf_packet pk \<Longrightarrow> packet_of (slice 0 146 b) = pk"
  by (simp add: slice_def packet_of_packet_bytes)

section \<open>Encoding\<close>

text \<open>C8: \<^verbatim>\<open>serialize_payload\<close> writes the 146-byte layout of the packet at the pointer,
  leaves the rest of the buffer alone, fails exactly when the buffer is too short, and the server's
  \<^verbatim>\<open>deserialize_payload\<close> reads the same packet back whatever its target held.\<close>

theorem payload_round_trip:
  assumes "wf_packet pk" and "wf_packet s"
  shows "serialize_payload b p pk =
      (if p + 146 \<le> length b then Some (splice b p (packet_bytes pk), p + 146) else None) \<and>
    Option.bind (serialize_payload b p pk) (\<lambda>(b', q). server_deserialize_payload b' p s) =
      (if p + 146 \<le> length b then Some pk else None)"
  using assms serialize_payload_eq[OF assms(1)] slice_splice[of p "packet_bytes pk" b]
  by (simp add: server_deserialize_payload_eq length_packet_bytes packet_of_packet_bytes)

theorem payload_round_trip_witness:
  "serialize_payload (replicate 150 7) 2 initPayload =
      (if 2 + 146 \<le> length (replicate 150 (7 :: u8)) then Some (splice (replicate 150 7) 2 (packet_bytes initPayload), 2 + 146)
       else None) \<and>
    Option.bind (serialize_payload (replicate 150 7) 2 initPayload)
        (\<lambda>(b', q). server_deserialize_payload b' 2 (server_setPayload initPayload 1 2 3)) =
      (if 2 + 146 \<le> length (replicate 150 (7 :: u8)) then Some initPayload else None)"
  by (rule payload_round_trip) simp_all

text \<open>The client's \<^verbatim>\<open>deserialize_payload\<close> stores the destination identifiers of a
  packet over its source identifiers and never sets the destination: it recovers the packet exactly
  when both fields agree with each other and with what the target held.\<close>

theorem client_deserialize_mixes_ids:
  assumes "wf_packet pk" and "wf_packet s" and "p + 146 \<le> length b"
  shows "client_deserialize_payload (splice b p (packet_bytes pk)) p s =
      Some (pk\<lparr>srcDeviceID := dstDeviceID pk, dstDeviceID := dstDeviceID s\<rparr>) \<and>
    (client_deserialize_payload (splice b p (packet_bytes pk)) p s = Some pk \<longleftrightarrow>
       srcDeviceID pk = dstDeviceID pk \<and> dstDeviceID s = dstDeviceID pk)"
proof -
  let ?b = "splice b p (packet_bytes pk)"
  have "slice p 146 ?b = packet_bytes pk" "length ?b = length b"
    using slice_splice[of p "packet_bytes pk" b] assms by (simp_all add: length_packet_bytes)
  then have "client_deserialize_payload ?b p s = Some (pk\<lparr>srcDeviceID := dstDeviceID pk, dstDeviceID := dstDeviceID s\<rparr>)"
    using assms by (simp add: client_deserialize_payload_eq packet_of_packet_bytes)
  then show ?thesis by (cases pk) auto
qed

theorem client_deserialize_mixes_ids_witness:
  "client_deserialize_payload (splice (replicate 146 0) 0 (packet_bytes (server_setPayload initPayload 1 2 3))) 0 initPayload =
      Some ((server_setPayload initPayload 1 2 3)\<lparr>srcDeviceID := dstDeviceID (server_setPayload initPayload 1 2 3),
        dstDeviceID := dstDeviceID initPayload\<rparr>) \<and>
    (client_deserialize_payload (splice (replicate 146 0) 0 (packet_bytes (server_setPayload initPayload 1 2 3))) 0 initPayload
        = Some (server_setPayload initPayload 1 2 3) \<longleftrightarrow>
       srcDeviceID (server_setPayload initPayload 1 2 3) = dstDeviceID (server_setPayload initPayload 1 2 3) \<and>
       dstDeviceID initPayload = dstDeviceID (server_setPayload initPayload 1 2 3))"
  by (rule client_deserialize_mixes_ids) simp_all

text \<open>The configuration messages of the controller survive encoding and decoding: 40 bytes for
  the initial one, 16 for an update.\<close>

theorem configs_round_trip:
  assumes "wf_init_configs c" and "wf_init_configs s" and "p + 40 \<le> length b" and "q + 16 \<le> length d"
  shows "\<exists>b' d'. serialize_init_configs b p c = Some (b', p + 40) \<and> deserialize_init_configs b' p s = Some c \<and>
    serialize_update_configs d q u = Some (d', q + 16) \<and> deserialize_update_configs d' q v = Some u"
proof -
  let ?b = "splice b p (init_configs_bytes c)" and ?d = "splice d q (update_configs_bytes u)"
  have lc: "length (server_ip c) = 16" using assms(1) by (simp add: wf_init_configs_def IPLEN_def)
  have "slice p 40 ?b = init_configs_bytes c" "length ?b = length b"
    using slice_splice[of p "init_configs_bytes c" b] assms by (simp_all add: length_init_configs_bytes)
  then have "deserialize_init_configs ?b p s = Some c"
    using decodes_apply[OF deserialize_init_configs_decodes, where s = s and p = p and b = ?b] assms lc
    by (simp add: init_configs_bytes_def slice_def concat_be_bytes_1 be_value_be_bytes)
  moreover have "slice q 16 ?d = update_configs_bytes u" "length ?d = length d"
    using slice_splice[of q "update_configs_bytes u" d] assms by (simp_all add: length_update_configs_bytes)
  then have "deserialize_update_configs ?d q v = Some u"
    using decodes_apply[OF deserialize_update_configs_decodes, where s = v and p = q and b = ?d] assms
    by (simp add: update_configs_bytes_def slice_def be_value_be_bytes)
  ultimately show ?thesis
    using assms emits_apply[OF serialize_init_configs_emits[OF assms(1)], where b = b and p = p]
      emits_apply[OF serialize_update_configs_emits, where b = d and p = q]
    by (simp add: length_init_configs_bytes length_update_configs_bytes)
qed

definition demo_configs :: client_init_configs where
  "demo_configs = \<lparr>epoch = 1, connections = 50000, requestRate = 10, burst = 100, vburst = 200,
     server_ip = replicate 16 49, server_port = 8000\<rparr>"

lemma wf_demo_configs: "wf_init_configs demo_configs"
  by (simp add: wf_init_configs_def demo_configs_def IPLEN_def)

theorem configs_round_trip_witness:
  "\<exists>b' d'. serialize_init_configs (replicate 40 0) 0 demo_configs = Some (b', 0 + 40) \<and>
    deserialize_init_configs b' 0 demo_configs = Some demo_configs \<and>
    serialize_update_configs (replicate 20 0) 3 \<lparr>u_epoch = 1, u_connections = 2, u_requestRate = 3, u_burst = 4\<rparr> = Some (d', 3 + 16) \<and>
    deserialize_update_configs d' 3 \<lparr>u_epoch = 0, u_connections = 0, u_requestRate = 0, u_burst = 0\<rparr>
      = Some \<lparr>u_epoch = 1, u_connections = 2, u_requestRate = 3, u_burst = 4\<rparr>"
  by (rule configs_round_trip) (simp_all add: wf_demo_configs)

section \<open>Encryption\<close>

text \<open>The block cipher is a bijection on blocks of eight bytes for every key, with
  \<^verbatim>\<open>own_decrypt\<close> the inverse of \<^verbatim>\<open>own_encrypt\<close> in both orders, and both fail exactly
  when the source is shorter than a block or the target has no room.\<close>

theorem own_cipher_inverse:
  assumes "length x = 8" and "p + 8 \<le> length b"
  shows "\<exists>y. own_encrypt x b p key = Some (splice b p y) \<and> own_decrypt y b p key = Some (splice b p x) \<and>
    (\<exists>z. own_decrypt x b p key = Some (splice b p z) \<and> own_encrypt z b p key = Some (splice b p x))"
  using assms
  by (intro exI[of _ "enc_block key x"] conjI exI[of _ "dec_block key x"])
    (simp_all add: own_encrypt_eq own_decrypt_eq dec_enc_block enc_dec_block)

theorem own_cipher_inverse_witness:
  "\<exists>y. own_encrypt [1, 2, 3, 4, 5, 6, 7, 8] (replicate 10 0) 1 0x123456789ABCDEF0 = Some (splice (replicate 10 0) 1 y) \<and>
    own_decrypt y (replicate 10 0) 1 0x123456789ABCDEF0 = Some (splice (replicate 10 0) 1 [1, 2, 3, 4, 5, 6, 7, 8]) \<and>
    (\<exists>z. own_decrypt [1, 2, 3, 4, 5, 6, 7, 8] (replicate 10 0) 1 0x123456789ABCDEF0 = Some (splice (replicate 10 0) 1 z) \<and>
      own_encrypt z (replicate 10 0) 1 0x123456789ABCDEF0 = Some (splice (replicate 10 0) 1 [1, 2, 3, 4, 5, 6, 7, 8]))"
  by (rule own_cipher_inverse) simp_all

text \<open>C31: the key table starts with the seed, each key is the image of the previous one under one
  step of two independent 32-bit Galois registers with feedback 0xC5, and no key of the table has a
  zero half, so the generator never gets stuck at zero.\<close>

theorem key_table_is_lfsr:
  "initKeyTable = Some (map (\<lambda>i. (lfsr_step ^^ i) INIT_SEED) [0..<TABLE_SIZE]) \<and>
   list_all (\<lambda>key. high_half key \<noteq> 0 \<and> low_half key \<noteq> 0)
     (map (\<lambda>i. (lfsr_step ^^ i) INIT_SEED) [0..<TABLE_SIZE]) \<and>
   inj lfsr_step"
proof -
  have seed: "high_half INIT_SEED \<noteq> 0" "low_half INIT_SEED \<noteq> 0"
    by (simp_all add: INIT_SEED_def high_half_def low_half_def)
  then show ?thesis
    by (simp add: initKeyTable_eq list_all_iff halves_iterate galois32_iterate_nonzero lfsr_step_inj)
qed

text \<open>The choice of a key never leaves the table, and depends only on bytes 2 to 15 of the
  sixteen identity bytes, as the comment of the code says, although the code also copies byte 1.\<close>

theorem key_of_identity:
  assumes "length table = TABLE_SIZE" and "p + 16 \<le> length b" and "q + 16 \<le> length c"
    and "slice (p + 2) 14 b = slice (q + 2) 14 c"
  shows "\<exists>key \<in> set table. get_key_from_userID b p table = Some key \<and> get_key_from_userID c q table = Some key"
proof -
  have sub: "slice i 7 (slice p 16 x) = slice (i - 2) 7 (slice (p + 2) 14 x)" if "i = 2 \<or> i = 9" for i p and x :: "u8 list"
  proof -
    have "slice i 7 (slice p 16 x) = slice (p + i) 7 x" using that u8c.slice_slice[of i 7 16 p x] by auto
    moreover have "slice (i - 2) 7 (slice (p + 2) 14 x) = slice (p + 2 + (i - 2)) 7 x"
      using that u8c.slice_slice[of "i - 2" 7 14 "p + 2" x] by auto
    moreover have "p + 2 + (i - 2) = p + i" using that by auto
    ultimately show ?thesis by (simp only:)
  qed
  have "key_index (slice p 16 b) = key_index (slice q 16 c)"
    unfolding key_index_def using sub[of 2 p b] sub[of 9 p b] sub[of 2 q c] sub[of 9 q c] assms(4) by simp
  moreover have "key_index (slice p 16 b) < length table" using key_index_less assms(1) by simp
  ultimately show ?thesis
    using assms(2,3) by (intro bexI[of _ "table ! key_index (slice p 16 b)"]) (simp_all add: get_key_from_userID_eq)
qed

theorem key_of_identity_witness:
  "\<exists>key \<in> set (replicate TABLE_SIZE 5). get_key_from_userID (0 # 1 # replicate 14 9) 0 (replicate TABLE_SIZE 5) = Some key \<and>
    get_key_from_userID (77 # 66 # 55 # replicate 14 9) 1 (replicate TABLE_SIZE 5) = Some key"
  by (rule key_of_identity) (simp_all add: slice_def numeral_eq_Suc)

text \<open>C32: with the arrays of 146 bytes that client and server declare, both directions of the
  payload cipher access memory out of bounds, for every packet: sixteen blocks of eight bytes from
  offset 22 end at 150.\<close>

theorem payload_cipher_overruns:
  assumes "length buf = PAYLOAD_SIZE \<or> length local = PAYLOAD_SIZE"
  shows "seal_packet table buf local = None \<and> open_packet table buf local = None"
  using assms
  by (auto simp: seal_packet_def open_packet_def memcpy_from_def memcpy_to_def encrypt_payload_None
      decrypt_payload_None split: Option.bind_splits)

theorem payload_cipher_overruns_witness:
  "seal_packet [] (replicate 146 0) (replicate 146 0) = None \<and> open_packet [] (replicate 146 0) (replicate 146 0) = None"
  by (rule payload_cipher_overruns) simp

text \<open>C2: on blocks with four spare bytes the overrun is harmless: whatever follows the 146
  transmitted bytes in the receiver's memory and whatever its stack held, the packet that the client
  serialises, encrypts and sends is the packet that the server decrypts and deserialises.\<close>

theorem packet_end_to_end:
  assumes "length table = TABLE_SIZE" and "wf_packet pk" and "wf_packet target"
    and "150 \<le> length buf" and "serialize_payload buf 0 pk = Some (sent, n)"
    and "150 \<le> length cjunk" and "seal_packet table sent cjunk = Some c"
    and "150 \<le> length received" and "take n received = take n c" and "150 \<le> length sjunk"
  shows "\<exists>d. open_packet table received sjunk = Some d \<and> server_deserialize_payload d 0 target = Some pk"
proof -
  have s: "sent = splice buf 0 (packet_bytes pk)" "n = 146"
    using assms(4,5) serialize_payload_eq[OF assms(2), of buf 0] by (auto split: if_splits)
  have t: "take 146 sent = packet_bytes pk" "150 \<le> length sent"
    unfolding s using assms(2,4) length_packet_bytes[OF assms(2)] by (simp_all add: splice_def)
  obtain d where d: "open_packet table received sjunk = Some d" "take 146 d = take 146 sent"
    using open_sealed[OF assms(1) t(2) assms(6,10,7,8)] assms(9) s(2) by auto
  have "length (take 146 d) = 146" unfolding d(2) using t(2) by simp
  then have "146 \<le> length d" by simp
  then have "server_deserialize_payload d 0 target = Some (packet_of (slice 0 146 d))"
    using server_deserialize_payload_eq[OF assms(3), of 0 d] by simp
  then show ?thesis using d packet_of_prefix[of d pk] t(1) assms(2) by simp
qed

lemma initKeyTable_length: "length (the initKeyTable) = TABLE_SIZE"
  by (simp add: initKeyTable_eq)

lemma seal_total: "length t = TABLE_SIZE \<Longrightarrow> 150 \<le> length b \<Longrightarrow> 150 \<le> length junk \<Longrightarrow>
    seal_packet t b junk = Some (the (seal_packet t b junk)) \<and> 150 \<le> length (the (seal_packet t b junk))"
proof -
  assume a: "length t = TABLE_SIZE" "150 \<le> length b" "150 \<le> length junk"
  have "length (concat (map (enc_block k) (blocks_of 22 16 b))) = 128" for k
    using a(2) length_blocks_of[of 22 16 b]
    by (subst length_concat_const[where k = 8]) (auto simp: blocks_of_def)
  with a show ?thesis by (simp add: seal_packet_eq)
qed

theorem packet_end_to_end_witness:
  "\<exists>d. open_packet (the initKeyTable)
        (the (seal_packet (the initKeyTable) (splice (replicate 150 1) 0 (packet_bytes initPayload)) (replicate 150 2)))
        (replicate 150 3) = Some d \<and>
      server_deserialize_payload d 0 initPayload = Some initPayload"
  by (rule packet_end_to_end[where n = 146 and buf = "replicate 150 1" and cjunk = "replicate 150 2"
        and sent = "splice (replicate 150 1) 0 (packet_bytes initPayload)"
        and c = "the (seal_packet (the initKeyTable) (splice (replicate 150 1) 0 (packet_bytes initPayload)) (replicate 150 2))"])
    (use seal_total[of "the initKeyTable" "splice (replicate 150 1) 0 (packet_bytes initPayload)" "replicate 150 2"]
      in \<open>simp_all add: initKeyTable_length serialize_payload_eq length_packet_bytes\<close>)

section \<open>Identities\<close>

text \<open>C37: \<^verbatim>\<open>initIDMap\<close> stays within its array for every sequence of results of
  \<^verbatim>\<open>rand\<close>, the wrapped division of the shuffle's last round included, and fills it with
  each session identity of the range exactly once.\<close>

theorem idmap_is_permutation:
  assumes "rand_ok rnd" and "0 \<le> s" and "s < e" and "e \<le> INT_MAX"
  shows "\<exists>m. initIDMap rnd s e = Some m \<and> mset m = mset (map word_of_int [s..e - 1]) \<and> distinct m"
  using initIDMap_perm[OF assms] distinct_initIDMap[OF assms] by blast

theorem idmap_is_permutation_witness:
  "\<exists>m. initIDMap (\<lambda>i. RAND_MAX) 10 13 = Some m \<and> mset m = mset (map word_of_int [10..13 - 1]) \<and> distinct m"
  by (rule idmap_is_permutation) (simp_all add: rand_ok_def RAND_MAX_def INT_MAX_def)

end
