(* ===== verification/ServerCipher.thy ===== *)
theory ServerCipher
  imports PayloadCipher
begin

text \<open>
  \<^verbatim>\<open>server/cipher.c\<close>: the stand-alone prototype of the block cipher, on byte strings
  and 16-bit words.  It is shown to compute the same function as \<^verbatim>\<open>own_encrypt\<close> /
  \<^verbatim>\<open>own_decrypt\<close> of \<^verbatim>\<open>DES/cipher.c\<close>, on which the packets rely.  The shifts
  of the rotation macros work on the promoted \<^verbatim>\<open>int\<close>, here a 32-bit word.
\<close>

unbundle bit_operations_syntax

definition INITKEY :: u16 where "INITKEY = 0x1234"
definition SIZE :: nat where "SIZE = 8"
definition BUFSIZE :: nat where "BUFSIZE = 9"
definition GROUPS_server :: nat where "GROUPS_server = 4"
definition GROUP_SIZE :: nat where "GROUP_SIZE = 2"

lemmas server_cipher_sizes [simp] = SIZE_def BUFSIZE_def GROUPS_server_def GROUP_SIZE_def

definition getCounter :: "u16 \<Rightarrow> nat" where
  "getCounter value =
     snd (fold (\<lambda>i (cmp, counter). (drop_bit 1 cmp, if value AND cmp = 0 then counter else counter + 1))
       [0..<16] (0x8000, 0))"

definition ROTATE_LEFT :: "u16 \<Rightarrow> nat \<Rightarrow> nat \<Rightarrow> u32" where
  "ROTATE_LEFT x s n = push_bit n (ucast x) OR drop_bit (s - n) (ucast x)"

definition ROTATE_RIGHT :: "u16 \<Rightarrow> nat \<Rightarrow> nat \<Rightarrow> u32" where
  "ROTATE_RIGHT x s n = drop_bit n (ucast x) OR push_bit (s - n) (ucast x)"

definition uint16ToChar :: "u16 \<Rightarrow> u8 list \<Rightarrow> nat \<Rightarrow> u8 list option" where
  "uint16ToChar value b ch = do {
     b \<leftarrow> store b ch (ucast value);
     store b (ch + 1) (ucast (drop_bit 8 value))
   }"

definition charToUint16 :: "u8 list \<Rightarrow> nat \<Rightarrow> u16 option" where
  "charToUint16 b ch = do {
     hi \<leftarrow> load b (ch + 1);
     lo \<leftarrow> load b ch;
     Some (ucast ((ucast (0 :: u16) OR push_bit 8 (ucast hi :: u32)) OR ucast lo))
   }"

definition encipher_word :: "u16 \<Rightarrow> u16 \<Rightarrow> u8 list \<Rightarrow> nat \<Rightarrow> (u16 \<times> u8 list) option" where
  "encipher_word plain key b cipher = (
     let cnt = getCounter key;
         tmp = ucast (ROTATE_LEFT plain 16 cnt) :: u16;
         tmp = tmp XOR key
     in map_option (\<lambda>b. (tmp, b)) (uint16ToChar tmp b cipher))"

text \<open>The length of a C string; reading past the block is \<^verbatim>\<open>None\<close>.\<close>

definition strlen :: "u8 list \<Rightarrow> nat option" where
  "strlen b = (if 0 \<in> set b then Some (length (takeWhile (\<lambda>c. c \<noteq> 0) b)) else None)"

definition assert_strlen :: "u8 list \<Rightarrow> unit option" where
  "assert_strlen b = do { n \<leftarrow> strlen b; if n \<le> SIZE then Some () else None }"

definition encipher :: "u8 list \<Rightarrow> u8 list \<Rightarrow> u8 list \<Rightarrow> u8 list option" where
  "encipher plaintext key ciphertext = do {
     assert_strlen plaintext;
     assert_strlen key;
     assert_strlen ciphertext;
     (cipherKey, ciphertext) \<leftarrow> foldM (\<lambda>i (cipherKey, ciphertext). do {
         plainPart \<leftarrow> charToUint16 plaintext (i * GROUP_SIZE);
         keyPart \<leftarrow> charToUint16 key (i * GROUP_SIZE);
         let tmp = plainPart XOR cipherKey;
         encipher_word tmp keyPart ciphertext (i * GROUP_SIZE)
       }) [0..<GROUPS_server] (INITKEY, ciphertext);
     Some ciphertext
   }"

definition decipher :: "u8 list \<Rightarrow> u8 list \<Rightarrow> u8 list \<Rightarrow> u8 list option" where
  "decipher plaintext key ciphertext = do {
     assert_strlen plaintext;
     assert_strlen key;
     assert_strlen ciphertext;
     (cipherKey, plaintext) \<leftarrow> foldM (\<lambda>i (cipherKey, plaintext). do {
         cipherPart \<leftarrow> charToUint16 ciphertext (i * GROUP_SIZE);
         keyPart \<leftarrow> charToUint16 key (i * GROUP_SIZE);
         let tmp = cipherPart XOR keyPart;
         let cnt = getCounter keyPart;
         let tmp = (ucast (ROTATE_RIGHT tmp 16 cnt) :: u16);
         let tmp = tmp XOR cipherKey;
         plaintext \<leftarrow> uint16ToChar tmp plaintext (i * GROUP_SIZE);
         Some (cipherPart, plaintext)
       }) [0..<GROUPS_server] (INITKEY, plaintext);
     store plaintext SIZE 0
   }"

text \<open>
  The test program: the two arguments are C strings without their terminator, \<open>cjunk\<close> and
  \<open>sjunk\<close> the uninitialised arrays.  The result is the condition of the last assertion.
\<close>

definition cstring :: "u8 list \<Rightarrow> u8 list" where
  "cstring b = takeWhile (\<lambda>c. c \<noteq> 0) b"

definition cipher_main :: "u8 list \<Rightarrow> u8 list \<Rightarrow> u8 list \<Rightarrow> u8 list \<Rightarrow> bool option" where
  "cipher_main arg1 arg2 cjunk sjunk = do {
     plaintext \<leftarrow> memcpy_to (replicate BUFSIZE 0) 0 (arg1 @ [0]);
     assert_strlen plaintext;
     key \<leftarrow> memcpy_to (replicate BUFSIZE 0) 0 (arg2 @ [0]);
     assert_strlen key;
     ciphertext \<leftarrow> encipher plaintext key cjunk;
     solution \<leftarrow> decipher sjunk key ciphertext;
     Some (cstring plaintext = cstring solution)
   }"

section \<open>Words\<close>

lemma from_le_step: "{i. m \<le> i \<and> P i} = {i. Suc m \<le> i \<and> P i} \<union> (if P m then {m} else {})"
  by (auto simp: Suc_le_eq le_less)

lemma getCounter_ones: "getCounter v = rot_count (ucast v)"
proof -
  define T :: u16 where "T = 0x8000"
  have T: "drop_bit n T = push_bit (15 - n) 1" if "n < 16" for n
  proof (rule bit_word_eqI)
    fix i
    have t: "T = push_bit 15 1" by (simp add: T_def)
    show "bit (drop_bit n T) i = bit (push_bit (15 - n) 1 :: u16) i"
      unfolding t using that
      by (simp only: bit_drop_bit_eq comp_def bit_push_bit_iff bit_1_iff possible_bit_word) auto
  qed
  have test: "v AND drop_bit n T = 0 \<longleftrightarrow> \<not> bit v (15 - n)" if "n < 16" for n
    unfolding T[OF that] by (simp add: and_exp_eq_0_iff_not_bit push_bit_eq_mult)
  have "fold (\<lambda>i (cmp, counter). (drop_bit 1 cmp, if v AND cmp = 0 then counter else counter + 1))
      [0..<n] (T, 0) = (drop_bit n T, card {i. 16 - n \<le> i \<and> i < 16 \<and> bit v i})"
    if "n \<le> 16" for n
    using that
  proof (induction n)
    case 0
    then show ?case by simp
  next
    case (Suc n)
    have "{i. 15 - n \<le> i \<and> i < 16 \<and> bit v i} =
        {i. 16 - n \<le> i \<and> i < 16 \<and> bit v i} \<union> (if bit v (15 - n) then {15 - n} else {})"
    proof -
      have "Suc (15 - n) = 16 - n" "15 - n < 16" using Suc.prems by simp_all
      then show ?thesis
        using from_le_step[of "15 - n" "\<lambda>i. i < 16 \<and> bit v i"] by (simp only: simp_thms)
    qed
    with Suc show ?case by (simp add: test card_insert_if drop_bit_drop_bit)
  qed
  moreover have "{i. i < 16 \<and> i < 32 \<and> bit v i} = {i. i < 16 \<and> bit v i}" by auto
  ultimately show ?thesis
    by (simp add: getCounter_def rot_count_def ones_def bit_simps T_def)
qed

lemma rotations_u16:
  "n \<le> 16 \<Longrightarrow> ucast (ucast (ROTATE_LEFT x 16 n) :: u16) = rot_left n (ucast x)"
  "n \<le> 16 \<Longrightarrow> ucast (ucast (ROTATE_RIGHT x 16 n) :: u16) = rot_right n (ucast x)"
proof -
  have i: "is16 (ucast x)" by (rule is16I) (auto simp: bit_simps dest: bit_imp_le_length)
  show "ucast (ucast (ROTATE_LEFT x 16 n) :: u16) = rot_left n (ucast x)" if n: "n \<le> 16"
    using n by (intro bit_word_eqI)
      (auto simp: bit_rot_left[OF n i] ROTATE_LEFT_def bit_simps add.commute dest: bit_imp_le_length)
  show "ucast (ucast (ROTATE_RIGHT x 16 n) :: u16) = rot_right n (ucast x)" if n: "n \<le> 16"
    using n by (intro bit_word_eqI)
      (auto simp: bit_rot_right[OF n i] ROTATE_RIGHT_def bit_simps add.commute dest: bit_imp_le_length)
qed

lemma charToUint16_eq:
  "p + 1 < length b \<Longrightarrow> charToUint16 b p = Some (ucast (word_of_pair (b ! p) (b ! (p + 1))))"
proof -
  have "ucast ((0 OR push_bit 8 (ucast hi :: u32)) OR ucast lo) = (ucast (word_of_pair lo hi) :: u16)"
    for hi lo :: u8
    by (rule bit_word_eqI) (auto simp: bit_simps bit_word_of_pair dest: bit_imp_le_length)
  then show "p + 1 < length b \<Longrightarrow> ?thesis" by (simp add: charToUint16_def)
qed

lemma uint16ToChar_eq:
  "p + 1 < length b \<Longrightarrow> is16 w \<Longrightarrow> uint16ToChar (ucast w) b p = Some (splice b p (bytes_of [w]))"
proof -
  assume p: "p + 1 < length b" and "is16 w"
  have "(ucast (ucast w :: u16) :: u8) = ucast w"
    "(ucast (drop_bit 8 (ucast w :: u16)) :: u8) = ucast (drop_bit 8 w)"
    by (rule bit_word_eqI; auto simp: bit_simps)+
  moreover have "b[p := x, Suc p := y] = splice b p [x, y]" for x y
    using splice_snoc[of p "[]" b x] splice_snoc[of p "[x]" b y] p by simp
  ultimately show ?thesis using p by (simp add: uint16ToChar_def)
qed

section \<open>The words of the specification, by index\<close>

lemma enc_words_nth:
  "n < length ks \<Longrightarrow> n < length xs \<Longrightarrow> enc_words prev ks xs ! n =
     rot_left (rot_count (ks ! n)) ((if n = 0 then prev else enc_words prev ks xs ! (n - 1)) XOR xs ! n) XOR ks ! n"
proof (induction prev ks xs arbitrary: n rule: enc_words.induct)
  case (1 prev k ks x xs)
  show ?case
  proof (cases n)
    case 0
    then show ?thesis by (simp add: Let_def)
  next
    case (Suc m)
    then show ?thesis using "1.IH"[OF refl, of m] "1.prems" by (cases m) (simp_all add: Let_def)
  qed
qed auto

lemma dec_words_nth:
  "n < length ks \<Longrightarrow> n < length ys \<Longrightarrow> dec_words prev ks ys ! n =
     rot_right (rot_count (ks ! n)) (ks ! n XOR ys ! n) XOR (if n = 0 then prev else ys ! (n - 1))"
proof (induction prev ks ys arbitrary: n rule: dec_words.induct)
  case (1 prev k ks y ys)
  show ?case
  proof (cases n)
    case 0
    then show ?thesis by simp
  next
    case (Suc m)
    then show ?thesis using "1.IH"[of m] "1.prems" by (cases m) simp_all
  qed
qed auto

lemma words_of_nth: "2 * n + 1 < length bs \<Longrightarrow> words_of bs ! n = word_of_pair (bs ! (2 * n)) (bs ! (2 * n + 1))"
proof (induction bs arbitrary: n rule: words_of.induct)
  case (1 a b bs)
  then show ?case by (cases n) simp_all
qed auto

lemma bytes_of_append: "bytes_of (xs @ ys) = bytes_of xs @ bytes_of ys"
  by (induction xs) auto

lemma is16_ucast: "is16 x \<Longrightarrow> ucast (ucast x :: u16) = x"
  by (rule bit_word_eqI) (auto simp: bit_simps dest: is16_bit)

lemma ucast_u16_eq: "ucast (x :: u16) = (w :: u32) \<Longrightarrow> x = ucast w"
  by (drule sym) (auto intro!: bit_word_eqI simp: bit_simps)

lemma ucast_u16_xor: "(ucast (x XOR y :: u32) :: u16) = ucast x XOR ucast y"
  "(ucast (v XOR w :: u16) :: u32) = ucast v XOR ucast w"
  by (rule bit_word_eqI; auto simp: bit_simps)+

lemma encipher_word_eq:
  assumes "is16 z" and "is16 k" and "p + 1 < length b"
  shows "encipher_word (ucast z) (ucast k) b p =
    Some (ucast (rot_left (rot_count k) z XOR k), splice b p (bytes_of [rot_left (rot_count k) z XOR k]))"
proof -
  have "ucast (ROTATE_LEFT (ucast z) 16 (rot_count k)) XOR ucast k = (ucast (rot_left (rot_count k) z XOR k) :: u16)"
    by (rule ucast_u16_eq) (simp add: ucast_u16_xor rotations_u16 is16_ucast assms)
  then show ?thesis
    using assms by (simp add: encipher_word_def getCounter_ones is16_ucast uint16ToChar_eq)
qed

lemma decipher_word_eq:
  assumes "is16 y" and "is16 k"
  shows "ucast (ROTATE_RIGHT (ucast y XOR ucast k) 16 (getCounter (ucast k))) XOR ucast v
    = (ucast (rot_right (rot_count k) (k XOR y) XOR v) :: u16)"
proof -
  have "ucast (ROTATE_RIGHT (ucast (k XOR y)) 16 (rot_count k)) = (ucast (rot_right (rot_count k) (k XOR y)) :: u16)"
    by (rule ucast_u16_eq) (use assms in \<open>simp add: rotations_u16 is16_ucast\<close>)
  then show ?thesis by (simp add: ucast_u16_xor getCounter_ones is16_ucast assms xor.commute)
qed

lemma word_at:
  assumes "2 * n + 1 < 8" and "8 \<le> length b"
  shows "charToUint16 b (n * 2) = Some (ucast (words_of (take 8 b) ! n))"
proof -
  have "b ! (2 * n) = take 8 b ! (2 * n)" "b ! (2 * n + 1) = take 8 b ! (2 * n + 1)"
    using assms by simp_all
  then have "word_of_pair (b ! (2 * n)) (b ! (2 * n + 1)) = words_of (take 8 b) ! n"
    using words_of_nth[of n "take 8 b"] assms by simp
  then show ?thesis using assms charToUint16_eq[of "2 * n" b] by (simp add: mult.commute)
qed

lemma is16_nth: "list_all is16 xs \<Longrightarrow> n < length xs \<Longrightarrow> is16 (xs ! n)"
  by (simp add: list_all_length)

lemma ENCRYPT_INITKEY: "ucast ENCRYPT = INITKEY"
  by (simp add: ENCRYPT_def INITKEY_def)

definition chain :: "u32 list \<Rightarrow> nat \<Rightarrow> u32" where
  "chain ys n = (if n = 0 then ENCRYPT else ys ! (n - 1))"

lemma is16_chain: "list_all is16 ys \<Longrightarrow> n \<le> length ys \<Longrightarrow> is16 (chain ys n)"
  by (cases n) (simp_all add: chain_def is16_nth)

lemma chain_Suc [simp]: "chain ys (Suc n) = ys ! n"
  by (simp add: chain_def)

lemma encipher_loop:
  assumes len: "8 \<le> length pt" "8 \<le> length key" "8 \<le> length cb" and "n \<le> 4"
  defines "ks \<equiv> words_of (take 8 key)" and "xs \<equiv> words_of (take 8 pt)"
  defines "ys \<equiv> enc_words ENCRYPT ks xs"
  shows "foldM (\<lambda>i (cipherKey, ciphertext). do {
         plainPart \<leftarrow> charToUint16 pt (i * 2);
         keyPart \<leftarrow> charToUint16 key (i * 2);
         let tmp = plainPart XOR cipherKey;
         encipher_word tmp keyPart ciphertext (i * 2)
       }) [0..<n] (INITKEY, cb) = Some (ucast (chain ys n), splice cb 0 (bytes_of (take n ys)))"
  using \<open>n \<le> 4\<close>
proof (induction n)
  case 0
  then show ?case by (simp add: chain_def ENCRYPT_INITKEY)
next
  case (Suc n)
  have lens: "length ks = 4" "length xs = 4" "length ys = 4"
    using len by (simp_all add: ks_def xs_def ys_def)
  have i: "list_all is16 ks" "list_all is16 xs" "list_all is16 ys"
    by (auto simp: ks_def xs_def ys_def intro!: enc_words_is16)
  let ?z = "chain ys n XOR xs ! n"
  have y: "ys ! n = rot_left (rot_count (ks ! n)) ?z XOR ks ! n"
    using enc_words_nth[of n ks xs ENCRYPT] Suc.prems lens by (simp add: ys_def chain_def)
  have z: "is16 ?z" "is16 (ks ! n)"
    using i lens Suc.prems by (auto intro!: is16_xor is16_chain is16_nth)
  have w: "charToUint16 pt (n * 2) = Some (ucast (xs ! n))" "charToUint16 key (n * 2) = Some (ucast (ks ! n))"
    using word_at[of n] len Suc.prems by (simp_all add: xs_def ks_def)
  let ?cb = "splice cb 0 (bytes_of (take n ys))"
  have "length ?cb = length cb" using lens Suc.prems len by simp
  then have "encipher_word (ucast ?z) (ucast (ks ! n)) ?cb (n * 2) =
      Some (ucast (ys ! n), splice ?cb (n * 2) (bytes_of [ys ! n]))"
    using encipher_word_eq[OF z, of "n * 2" ?cb] Suc.prems len y by simp
  moreover have "splice ?cb (n * 2) (bytes_of [ys ! n]) = splice cb 0 (bytes_of (take n ys) @ bytes_of [ys ! n])"
    by (rule splice_splice_at) (use lens Suc.prems len in auto)
  moreover have "bytes_of (take (Suc n) ys) = bytes_of (take n ys) @ bytes_of [ys ! n]"
    using lens Suc.prems by (simp add: take_Suc_conv_app_nth bytes_of_append)
  moreover have "ucast (xs ! n) XOR ucast (chain ys n) = (ucast ?z :: u16)"
    by (simp add: ucast_u16_xor xor.commute)
  ultimately show ?case using Suc w by (simp add: foldM_append foldM_single)
qed

lemma decipher_loop:
  assumes len: "8 \<le> length pt" "8 \<le> length key" "8 \<le> length cb" and "n \<le> 4"
  defines "ks \<equiv> words_of (take 8 key)" and "ys \<equiv> words_of (take 8 cb)"
  defines "xs \<equiv> dec_words ENCRYPT ks ys"
  shows "foldM (\<lambda>i (cipherKey, plaintext). do {
         cipherPart \<leftarrow> charToUint16 cb (i * 2);
         keyPart \<leftarrow> charToUint16 key (i * 2);
         let tmp = cipherPart XOR keyPart;
         let cnt = getCounter keyPart;
         let tmp = (ucast (ROTATE_RIGHT tmp 16 cnt) :: u16);
         let tmp = tmp XOR cipherKey;
         plaintext \<leftarrow> uint16ToChar tmp plaintext (i * 2);
         Some (cipherPart, plaintext)
       }) [0..<n] (INITKEY, pt) = Some (ucast (chain ys n), splice pt 0 (bytes_of (take n xs)))"
  using \<open>n \<le> 4\<close>
proof (induction n)
  case 0
  then show ?case by (simp add: chain_def ENCRYPT_INITKEY)
next
  case (Suc n)
  have lens: "length ks = 4" "length xs = 4" "length ys = 4"
    using len by (simp_all add: ks_def xs_def ys_def)
  have i: "list_all is16 ks" "list_all is16 xs" "list_all is16 ys"
    by (auto simp: ks_def xs_def ys_def intro!: dec_words_is16)
  have x: "xs ! n = rot_right (rot_count (ks ! n)) (ks ! n XOR ys ! n) XOR chain ys n"
    using dec_words_nth[of n ks ys ENCRYPT] Suc.prems lens by (simp add: xs_def chain_def)
  have z: "is16 (ys ! n)" "is16 (ks ! n)" "is16 (xs ! n)"
    using i lens Suc.prems by (auto intro!: is16_nth)
  have w: "charToUint16 cb (n * 2) = Some (ucast (ys ! n))" "charToUint16 key (n * 2) = Some (ucast (ks ! n))"
    using word_at[of n] len Suc.prems by (simp_all add: ys_def ks_def)
  let ?pt = "splice pt 0 (bytes_of (take n xs))"
  have "length ?pt = length pt" using lens Suc.prems len by simp
  then have "uint16ToChar (ucast (xs ! n)) ?pt (n * 2) = Some (splice ?pt (n * 2) (bytes_of [xs ! n]))"
    using uint16ToChar_eq[of "n * 2" ?pt, OF _ z(3)] Suc.prems len by simp
  moreover have "splice ?pt (n * 2) (bytes_of [xs ! n]) = splice pt 0 (bytes_of (take n xs) @ bytes_of [xs ! n])"
    by (rule splice_splice_at) (use lens Suc.prems len in auto)
  moreover have "bytes_of (take (Suc n) xs) = bytes_of (take n xs) @ bytes_of [xs ! n]"
    using lens Suc.prems by (simp add: take_Suc_conv_app_nth bytes_of_append)
  ultimately show ?case
    using Suc w decipher_word_eq[OF z(1,2), of "chain ys n"]
    by (simp add: foldM_append foldM_single x[symmetric])
qed

section \<open>The prototype is the cipher of the packets\<close>

lemma le_value_Cons: "le_value (x # xs) = push_bit 8 (le_value xs) OR (ucast x :: 'a::len word)"
  by (simp add: le_value_def be_value_def push_add_or)

lemma key_part_pair:
  "key_part (le_value (a # b # bs)) 0 = word_of_pair a b"
  by (rule bit_word_eqI)
    (auto simp: key_part_def and_ffff bit_word_of_pair le_value_Cons bit_simps dest: bit_imp_le_length)

lemma key_part_shift:
  "16 \<le> s \<Longrightarrow> s \<le> 48 \<Longrightarrow> key_part (le_value (a # b # bs)) s = key_part (le_value bs) (s - 16)"
  by (rule bit_word_eqI)
    (auto simp: key_part_def and_ffff le_value_Cons bit_simps min_def)

lemma list_of_length8: "length xs = 8 \<Longrightarrow> \<exists>a b c d e f g h. xs = [a, b, c, d, e, f, g, h]"
  by (auto simp: numeral_eq_Suc length_Suc_conv)

lemma key_parts_words:
  assumes "length bs = 8"
  shows "key_parts (le_value bs) = words_of bs"
proof -
  obtain a b c d e f g h where bs: "bs = [a, b, c, d, e, f, g, h]"
    using list_of_length8[OF assms] by auto
  show ?thesis by (simp add: bs key_parts_def key_part_shift key_part_pair)
qed

definition string_ok :: "u8 list \<Rightarrow> bool" where
  "string_ok b \<longleftrightarrow> 0 \<in> set (take 9 b) \<and> 8 \<le> length b"

lemma assert_strlen_ok: "string_ok b \<Longrightarrow> assert_strlen b = Some ()"
proof -
  assume "string_ok b"
  then obtain i where i: "i < length b" "i < 9" "b ! i = 0"
    by (auto simp: string_ok_def in_set_conv_nth)
  then have "0 \<in> set b" by (auto simp: in_set_conv_nth)
  moreover have "length (takeWhile (\<lambda>c. c \<noteq> 0) b) \<le> i"
    using i(3) takeWhile_nth[of i "\<lambda>c. c \<noteq> 0" b] nth_mem[of i "takeWhile (\<lambda>c. c \<noteq> 0) b"]
    by (force simp: not_le[symmetric] dest: set_takeWhileD)
  ultimately show ?thesis using i(2) by (simp add: assert_strlen_def strlen_def)
qed

lemma encipher_eq:
  assumes "string_ok pt" and "string_ok key" and "string_ok cb"
  shows "encipher pt key cb = Some (splice cb 0 (enc_block (le_value (take 8 key)) (take 8 pt)))"
proof -
  have len: "8 \<le> length pt" "8 \<le> length key" "8 \<le> length cb" using assms by (simp_all add: string_ok_def)
  let ?ys = "enc_words ENCRYPT (words_of (take 8 key)) (words_of (take 8 pt))"
  have "take 4 ?ys = ?ys" using len by simp
  then show ?thesis
    using encipher_loop[OF len, of 4] assms len
    by (simp add: encipher_def assert_strlen_ok enc_block_def key_parts_words)
qed

lemma decipher_eq:
  assumes "string_ok pt" and "string_ok key" and "string_ok cb" and "9 \<le> length pt"
  shows "decipher pt key cb = Some (splice pt 0 (dec_block (le_value (take 8 key)) (take 8 cb) @ [0]))"
proof -
  have len: "8 \<le> length pt" "8 \<le> length key" "8 \<le> length cb" using assms by (simp_all add: string_ok_def)
  let ?xs = "dec_words ENCRYPT (words_of (take 8 key)) (words_of (take 8 cb))"
  have "take 4 ?xs = ?xs" using len by simp
  moreover have "(splice pt 0 (bytes_of ?xs))[8 := 0] = splice pt 0 (bytes_of ?xs @ [0])"
    using splice_snoc[of 0 "bytes_of ?xs" pt 0] assms(4) len by simp
  ultimately show ?thesis
    using decipher_loop[OF len, of 4] assms len
    by (simp add: decipher_def assert_strlen_ok dec_block_def key_parts_words)
qed

lemma decipher_encipher:
  assumes "string_ok pt" and "string_ok key" and "string_ok cb" and "string_ok out" and "9 \<le> length out"
    and "cb ! 8 = 0" and "9 \<le> length cb" and "encipher pt key cb = Some c"
  shows "decipher out key c = Some (splice out 0 (take 8 pt @ [0]))"
proof -
  have len: "8 \<le> length pt" using assms by (simp add: string_ok_def)
  have c: "c = splice cb 0 (enc_block (le_value (take 8 key)) (take 8 pt))"
    using assms encipher_eq by simp
  have e: "length (enc_block (le_value (take 8 key)) (take 8 pt)) = 8" using len by simp
  have "length c = length cb" unfolding c using e assms(7) by simp
  moreover have "c ! 8 = 0" unfolding c using e assms(6,7) by (subst nth_splice) auto
  ultimately have "string_ok c"
    using assms(7) nth_mem[of 8 "take 9 c"] by (simp add: string_ok_def)
  moreover have "take 8 c = enc_block (le_value (take 8 key)) (take 8 pt)"
    unfolding c splice_def using e by simp
  ultimately show ?thesis
    using decipher_eq[of out key c] assms len by (simp add: dec_enc_block)
qed

lemma strcpy_string:
  assumes "length a \<le> 8" and "0 \<notin> set a"
  shows "memcpy_to (replicate 9 0) 0 (a @ [0]) = Some (a @ replicate (9 - length a) 0)"
    and "string_ok (a @ replicate (9 - length a) 0)"
proof -
  have r: "replicate (9 - length a) (0 :: u8) = 0 # replicate (8 - length a) 0"
    using assms(1) by (metis Suc_diff_le eval_nat_numeral(3) replicate_Suc)
  show "memcpy_to (replicate 9 0) 0 (a @ [0]) = Some (a @ replicate (9 - length a) 0)"
    using assms(1) by (simp add: memcpy_to_def splice_def r)
  show "string_ok (a @ replicate (9 - length a) 0)"
    using assms(1) by (simp add: string_ok_def)
qed

section \<open>Properties\<close>

text \<open>On any three C strings that pass its assertions, the prototype cipher
  \<^verbatim>\<open>encipher\<close> writes exactly what \<^verbatim>\<open>own_encrypt\<close> of
  \<^verbatim>\<open>DES/cipher.c\<close> writes with the key's eight bytes read as a little-endian
  \<^verbatim>\<open>long long\<close>, and \<^verbatim>\<open>decipher\<close> recovers the plaintext.\<close>

theorem prototype_equivalent:
  assumes "string_ok pt" and "string_ok key" and "string_ok cb"
    and "length cb = 9" and "cb ! 8 = 0" and "string_ok out" and "9 \<le> length out"
  shows "\<exists>c. encipher pt key cb = Some c
    \<and> own_encrypt pt cb 0 (le_value (take 8 key)) = Some c
    \<and> decipher out key c = Some (splice out 0 (take 8 pt @ [0]))"
  using assms encipher_eq[OF assms(1-3)] decipher_encipher[OF assms(1-3,6,7,5)]
  by (simp add: own_encrypt_eq string_ok_def)

theorem prototype_equivalent_witness:
  "\<exists>c. encipher [104, 101, 108, 108, 111, 0, 0, 0, 0] [115, 51, 99, 114, 51, 116, 0, 0, 0] (replicate 9 0) = Some c
    \<and> own_encrypt [104, 101, 108, 108, 111, 0, 0, 0, 0] (replicate 9 0) 0
        (le_value (take 8 [115, 51, 99, 114, 51, 116, 0, 0, 0])) = Some c
    \<and> decipher (replicate 8 7 @ [0]) [115, 51, 99, 114, 51, 116, 0, 0, 0] c
      = Some (splice (replicate 8 7 @ [0]) 0 (take 8 [104, 101, 108, 108, 111, 0, 0, 0, 0] @ [0]))"
  by (rule prototype_equivalent) (simp_all add: string_ok_def)

text \<open>The test program of \<^verbatim>\<open>server/cipher.c\<close> always passes its final
  \<^verbatim>\<open>strcmp\<close> assertion on two arguments of at most eight characters, provided
  the uninitialised arrays hold a terminator where its assertions look for one.\<close>

theorem cipher_main_passes:
  assumes "length arg1 \<le> 8" and "0 \<notin> set arg1" and "length arg2 \<le> 8" and "0 \<notin> set arg2"
    and "length cjunk = 9" and "cjunk ! 8 = 0" and "length sjunk = 9" and "0 \<in> set sjunk"
  shows "cipher_main arg1 arg2 cjunk sjunk = Some True"
proof -
  let ?pt = "arg1 @ replicate (9 - length arg1) 0" and ?key = "arg2 @ replicate (9 - length arg2) 0"
  note p = strcpy_string[OF assms(1,2)] and k = strcpy_string[OF assms(3,4)]
  have c: "string_ok cjunk" using assms(5,6) nth_mem[of 8 "take 9 cjunk"] by (simp add: string_ok_def)
  have s: "string_ok sjunk" using assms(7,8) by (simp add: string_ok_def)
  obtain cb where cb: "encipher ?pt ?key cjunk = Some cb" using encipher_eq[OF p(2) k(2) c] by blast
  have d: "decipher sjunk ?key cb = Some (splice sjunk 0 (take 8 ?pt @ [0]))"
    by (rule decipher_encipher[OF p(2) k(2) c s _ assms(6) _ cb]) (use assms in auto)
  have "splice sjunk 0 (take 8 ?pt @ [0]) = take 8 ?pt @ [0]"
    using assms(1,7) by (simp add: splice_def)
  also have "\<dots> = ?pt"
    using assms(1) by (simp add: Suc_diff_le replicate_append_same flip: replicate_Suc)
  finally have "decipher sjunk ?key cb = Some ?pt" by (simp only: d)
  then show ?thesis
    using p k cb by (simp add: cipher_main_def assert_strlen_ok)
qed

theorem cipher_main_passes_witness: "cipher_main [97, 98, 99] [120, 121] (replicate 9 0) (replicate 9 0) = Some True"
  by (rule cipher_main_passes) auto

end
