(* ===== verification/DesBlock.thy ===== *)
theory DesBlock
  imports Prelude
begin

text \<open>
  \<^verbatim>\<open>DES/des.c\<close>: the DES block cipher over arrays of bytes, bit 1 of a block being the
  most significant bit of its first byte.  First the tables and the operations as the code has
  them; then the textbook cipher on lists of bits, and the proof that the code implements it.
  \<^verbatim>\<open>print_key_set\<close>, \<^verbatim>\<open>print_char_as_binary\<close> only print.
\<close>

unbundle bit_operations_syntax

section \<open>Tables\<close>

definition initial_key_permutaion :: "nat list" where
  "initial_key_permutaion = [
    57, 49, 41, 33, 25, 17, 9, 1, 58, 50, 42, 34, 26, 18,
    10, 2, 59, 51, 43, 35, 27, 19, 11, 3, 60, 52, 44, 36,
    63, 55, 47, 39, 31, 23, 15, 7, 62, 54, 46, 38, 30, 22,
    14, 6, 61, 53, 45, 37, 29, 21, 13, 5, 28, 20, 12, 4]"

definition initial_message_permutation :: "nat list" where
  "initial_message_permutation = [
    58, 50, 42, 34, 26, 18, 10, 2, 60, 52, 44, 36, 28, 20, 12, 4,
    62, 54, 46, 38, 30, 22, 14, 6, 64, 56, 48, 40, 32, 24, 16, 8,
    57, 49, 41, 33, 25, 17, 9, 1, 59, 51, 43, 35, 27, 19, 11, 3,
    61, 53, 45, 37, 29, 21, 13, 5, 63, 55, 47, 39, 31, 23, 15, 7]"

definition sub_key_permutation :: "nat list" where
  "sub_key_permutation = [
    14, 17, 11, 24, 1, 5, 3, 28, 15, 6, 21, 10,
    23, 19, 12, 4, 26, 8, 16, 7, 27, 20, 13, 2,
    41, 52, 31, 37, 47, 55, 30, 40, 51, 45, 33, 48,
    44, 49, 39, 56, 34, 53, 46, 42, 50, 36, 29, 32]"

definition message_expansion :: "nat list" where
  "message_expansion = [
    32, 1, 2, 3, 4, 5, 4, 5, 6, 7, 8, 9,
    8, 9, 10, 11, 12, 13, 12, 13, 14, 15, 16, 17,
    16, 17, 18, 19, 20, 21, 20, 21, 22, 23, 24, 25,
    24, 25, 26, 27, 28, 29, 28, 29, 30, 31, 32, 1]"

definition S1 :: "nat list" where
  "S1 = [
    14, 4, 13, 1, 2, 15, 11, 8, 3, 10, 6, 12, 5, 9, 0, 7,
    0, 15, 7, 4, 14, 2, 13, 1, 10, 6, 12, 11, 9, 5, 3, 8,
    4, 1, 14, 8, 13, 6, 2, 11, 15, 12, 9, 7, 3, 10, 5, 0,
    15, 12, 8, 2, 4, 9, 1, 7, 5, 11, 3, 14, 10, 0, 6, 13]"

definition S2 :: "nat list" where
  "S2 = [
    15, 1, 8, 14, 6, 11, 3, 4, 9, 7, 2, 13, 12, 0, 5, 10,
    3, 13, 4, 7, 15, 2, 8, 14, 12, 0, 1, 10, 6, 9, 11, 5,
    0, 14, 7, 11, 10, 4, 13, 1, 5, 8, 12, 6, 9, 3, 2, 15,
    13, 8, 10, 1, 3, 15, 4, 2, 11, 6, 7, 12, 0, 5, 14, 9]"

definition S3 :: "nat list" where
  "S3 = [
    10, 0, 9, 14, 6, 3, 15, 5, 1, 13, 12, 7, 11, 4, 2, 8,
    13, 7, 0, 9, 3, 4, 6, 10, 2, 8, 5, 14, 12, 11, 15, 1,
    13, 6, 4, 9, 8, 15, 3, 0, 11, 1, 2, 12, 5, 10, 14, 7,
    1, 10, 13, 0, 6, 9, 8, 7, 4, 15, 14, 3, 11, 5, 2, 12]"

definition S4 :: "nat list" where
  "S4 = [
    7, 13, 14, 3, 0, 6, 9, 10, 1, 2, 8, 5, 11, 12, 4, 15,
    13, 8, 11, 5, 6, 15, 0, 3, 4, 7, 2, 12, 1, 10, 14, 9,
    10, 6, 9, 0, 12, 11, 7, 13, 15, 1, 3, 14, 5, 2, 8, 4,
    3, 15, 0, 6, 10, 1, 13, 8, 9, 4, 5, 11, 12, 7, 2, 14]"

definition S5 :: "nat list" where
  "S5 = [
    2, 12, 4, 1, 7, 10, 11, 6, 8, 5, 3, 15, 13, 0, 14, 9,
    14, 11, 2, 12, 4, 7, 13, 1, 5, 0, 15, 10, 3, 9, 8, 6,
    4, 2, 1, 11, 10, 13, 7, 8, 15, 9, 12, 5, 6, 3, 0, 14,
    11, 8, 12, 7, 1, 14, 2, 13, 6, 15, 0, 9, 10, 4, 5, 3]"

definition S6 :: "nat list" where
  "S6 = [
    12, 1, 10, 15, 9, 2, 6, 8, 0, 13, 3, 4, 14, 7, 5, 11,
    10, 15, 4, 2, 7, 12, 9, 5, 6, 1, 13, 14, 0, 11, 3, 8,
    9, 14, 15, 5, 2, 8, 12, 3, 7, 0, 4, 10, 1, 13, 11, 6,
    4, 3, 2, 12, 9, 5, 15, 10, 11, 14, 1, 7, 6, 0, 8, 13]"

definition S7 :: "nat list" where
  "S7 = [
    4, 11, 2, 14, 15, 0, 8, 13, 3, 12, 9, 7, 5, 10, 6, 1,
    13, 0, 11, 7, 4, 9, 1, 10, 14, 3, 5, 12, 2, 15, 8, 6,
    1, 4, 11, 13, 12, 3, 7, 14, 10, 15, 6, 8, 0, 5, 9, 2,
    6, 11, 13, 8, 1, 4, 10, 7, 9, 5, 0, 15, 14, 2, 3, 12]"

definition S8 :: "nat list" where
  "S8 = [
    13, 2, 8, 4, 6, 15, 11, 1, 10, 9, 3, 14, 5, 0, 12, 7,
    1, 15, 13, 8, 10, 3, 7, 4, 12, 5, 6, 11, 0, 14, 9, 2,
    7, 11, 4, 1, 9, 12, 14, 2, 0, 6, 10, 13, 15, 3, 5, 8,
    2, 1, 14, 7, 4, 10, 8, 13, 15, 12, 9, 0, 3, 5, 6, 11]"

definition right_sub_message_permutation :: "nat list" where
  "right_sub_message_permutation = [
    16, 7, 20, 21, 29, 12, 28, 17, 1, 15, 23, 26, 5, 18, 31, 10,
    2, 8, 24, 14, 32, 27, 3, 9, 19, 13, 30, 6, 22, 11, 4, 25]"

definition final_message_permutation :: "nat list" where
  "final_message_permutation = [
    40, 8, 48, 16, 56, 24, 64, 32, 39, 7, 47, 15, 55, 23, 63, 31,
    38, 6, 46, 14, 54, 22, 62, 30, 37, 5, 45, 13, 53, 21, 61, 29,
    36, 4, 44, 12, 52, 20, 60, 28, 35, 3, 43, 11, 51, 19, 59, 27,
    34, 2, 42, 10, 50, 18, 58, 26, 33, 1, 41, 9, 49, 17, 57, 25]"

definition key_shift_sizes :: "int list" where
  "key_shift_sizes = [-1, 1, 1, 2, 2, 2, 2, 2, 2, 1, 2, 2, 2, 2, 2, 2, 1]"

section \<open>Single bits of byte arrays\<close>

text \<open>
  The four statements the code repeats for every permuted bit: the bit at position
  \<open>shift_size - 1\<close> moved to the top of \<open>shift_byte\<close>, then or-ed into position \<open>i\<close>.
\<close>

definition pick_bit :: "u8 list \<Rightarrow> nat \<Rightarrow> u8 option" where
  "pick_bit src pos = do {
     x \<leftarrow> load src (pos div 8);
     Some (push_bit (pos mod 8) (drop_bit (pos mod 8) 0x80 AND x))
   }"

definition or_bit :: "u8 list \<Rightarrow> nat \<Rightarrow> u8 \<Rightarrow> u8 list option" where
  "or_bit dst i shift_byte = do {
     x \<leftarrow> load dst (i div 8);
     store dst (i div 8) (x OR drop_bit (i mod 8) shift_byte)
   }"

definition permute :: "nat list \<Rightarrow> u8 list \<Rightarrow> u8 list \<Rightarrow> u8 list option" where
  "permute table src dst =
     foldM (\<lambda>i dst. do { v \<leftarrow> pick_bit src (table ! i - 1); or_bit dst i v }) [0..<length table] dst"

section \<open>Key schedule\<close>

record key_set =
  key_k :: "u8 list"
  key_c :: "u8 list"
  key_d :: "u8 list"

definition first_key_set :: "u8 list \<Rightarrow> key_set \<Rightarrow> key_set option" where
  "first_key_set main_key s = do {
     k \<leftarrow> foldM (\<lambda>i k. store k i 0) [0..<8] (key_k s);
     k \<leftarrow> permute initial_key_permutaion main_key k;
     c \<leftarrow> foldM (\<lambda>i c. do { x \<leftarrow> load k i; store c i x }) [0..<3] (key_c s);
     x \<leftarrow> load k 3;
     c \<leftarrow> store c 3 (x AND 0xF0);
     d \<leftarrow> foldM (\<lambda>i d. do {
         x \<leftarrow> load k (i + 3);
         d \<leftarrow> store d i (push_bit 4 (x AND 0x0F));
         y \<leftarrow> load k (i + 4);
         z \<leftarrow> load d i;
         store d i (z OR drop_bit 4 (y AND 0xF0))
       }) [0..<3] (key_d s);
     x \<leftarrow> load k 6;
     d \<leftarrow> store d 3 (push_bit 4 (x AND 0x0F));
     Some (s\<lparr>key_k := k, key_c := c, key_d := d\<rparr>)
   }"

text \<open>The same statements for the halves C and D: a rotation of 28 bits in four bytes.\<close>

definition rotate_half :: "nat \<Rightarrow> u8 list \<Rightarrow> u8 list option" where
  "rotate_half shift_size c = do {
     let shift_byte = (if shift_size = 1 then 0x80 else 0xC0);
     c0 \<leftarrow> load c 0;
     c1 \<leftarrow> load c 1;
     c2 \<leftarrow> load c 2;
     c3 \<leftarrow> load c 3;
     let first_shift_bits = shift_byte AND c0;
     let second_shift_bits = shift_byte AND c1;
     let third_shift_bits = shift_byte AND c2;
     let fourth_shift_bits = shift_byte AND c3;
     c \<leftarrow> store c 0 (push_bit shift_size c0 OR drop_bit (8 - shift_size) second_shift_bits);
     c \<leftarrow> store c 1 (push_bit shift_size c1 OR drop_bit (8 - shift_size) third_shift_bits);
     c \<leftarrow> store c 2 (push_bit shift_size c2 OR drop_bit (8 - shift_size) fourth_shift_bits);
     store c 3 (push_bit shift_size c3 OR drop_bit (4 - shift_size) first_shift_bits)
   }"

definition copy4 :: "u8 list \<Rightarrow> u8 list \<Rightarrow> u8 list option" where
  "copy4 src dst = foldM (\<lambda>j dst. do { x \<leftarrow> load src j; store dst j x }) [0..<4] dst"

definition sub_key_bits :: "u8 list \<Rightarrow> u8 list \<Rightarrow> u8 list \<Rightarrow> u8 list option" where
  "sub_key_bits c d k =
     foldM (\<lambda>j k. do {
         let shift_size = sub_key_permutation ! j;
         v \<leftarrow> (if shift_size \<le> 28 then pick_bit c (shift_size - 1) else pick_bit d (shift_size - 29));
         or_bit k j v
       }) [0..<48] k"

definition next_key_set :: "nat \<Rightarrow> key_set list \<Rightarrow> key_set list option" where
  "next_key_set i key_sets = do {
     prev \<leftarrow> load key_sets (i - 1);
     s \<leftarrow> load key_sets i;
     c \<leftarrow> copy4 (key_c prev) (key_c s);
     d \<leftarrow> copy4 (key_d prev) (key_d s);
     shift_size \<leftarrow> load key_shift_sizes i;
     c \<leftarrow> rotate_half (nat shift_size) c;
     d \<leftarrow> rotate_half (nat shift_size) d;
     k \<leftarrow> sub_key_bits c d (key_k s);
     store key_sets i (s\<lparr>key_k := k, key_c := c, key_d := d\<rparr>)
   }"

definition generate_sub_keys :: "u8 list \<Rightarrow> key_set list \<Rightarrow> key_set list option" where
  "generate_sub_keys main_key key_sets = do {
     s \<leftarrow> load key_sets 0;
     s \<leftarrow> first_key_set main_key s;
     key_sets \<leftarrow> store key_sets 0 s;
     foldM next_key_set [1..<17] key_sets
   }"

section \<open>Encryption and decryption of a block\<close>

definition sbox_entry :: "nat list \<Rightarrow> u8 \<Rightarrow> u8 \<Rightarrow> u8 option" where
  "sbox_entry S row column = map_option of_nat (load S (unat row * 16 + unat column))"

definition substitute :: "u8 list \<Rightarrow> u8 list option" where
  "substitute er = do {
     e \<leftarrow> those (map (load er) [0..<6]);
     s1 \<leftarrow> sbox_entry S1 (drop_bit 6 (e ! 0 AND 0x80) OR drop_bit 2 (e ! 0 AND 0x04))
            (drop_bit 3 (e ! 0 AND 0x78));
     s2 \<leftarrow> sbox_entry S2 ((e ! 0 AND 0x02) OR drop_bit 4 (e ! 1 AND 0x10))
            (push_bit 3 (e ! 0 AND 0x01) OR drop_bit 5 (e ! 1 AND 0xE0));
     s3 \<leftarrow> sbox_entry S3 (drop_bit 2 (e ! 1 AND 0x08) OR drop_bit 6 (e ! 2 AND 0x40))
            (push_bit 1 (e ! 1 AND 0x07) OR drop_bit 7 (e ! 2 AND 0x80));
     s4 \<leftarrow> sbox_entry S4 (drop_bit 4 (e ! 2 AND 0x20) OR (e ! 2 AND 0x01))
            (drop_bit 1 (e ! 2 AND 0x1E));
     s5 \<leftarrow> sbox_entry S5 (drop_bit 6 (e ! 3 AND 0x80) OR drop_bit 2 (e ! 3 AND 0x04))
            (drop_bit 3 (e ! 3 AND 0x78));
     s6 \<leftarrow> sbox_entry S6 ((e ! 3 AND 0x02) OR drop_bit 4 (e ! 4 AND 0x10))
            (push_bit 3 (e ! 3 AND 0x01) OR drop_bit 5 (e ! 4 AND 0xE0));
     s7 \<leftarrow> sbox_entry S7 (drop_bit 2 (e ! 4 AND 0x08) OR drop_bit 6 (e ! 5 AND 0x40))
            (push_bit 1 (e ! 4 AND 0x07) OR drop_bit 7 (e ! 5 AND 0x80));
     s8 \<leftarrow> sbox_entry S8 (drop_bit 4 (e ! 5 AND 0x20) OR (e ! 5 AND 0x01))
            (drop_bit 1 (e ! 5 AND 0x1E));
     Some [push_bit 4 s1 OR s2, push_bit 4 s3 OR s4, push_bit 4 s5 OR s6, push_bit 4 s7 OR s8]
   }"

definition xor_into :: "nat \<Rightarrow> u8 list \<Rightarrow> u8 list \<Rightarrow> u8 list option" where
  "xor_into n src dst =
     foldM (\<lambda>i dst. do { x \<leftarrow> load dst i; y \<leftarrow> load src i; store dst i (x XOR y) }) [0..<n] dst"

definition DECRYPTION_MODE :: int where "DECRYPTION_MODE = 0"
definition ENCRYPTION_MODE :: int where "ENCRYPTION_MODE = 1"

definition des_round ::
    "key_set list \<Rightarrow> int \<Rightarrow> nat \<Rightarrow> u8 list \<times> u8 list \<Rightarrow> (u8 list \<times> u8 list) option" where
  "des_round key_sets mode k = (\<lambda>(l, r). do {
     let ln = r;
     er \<leftarrow> permute message_expansion r (replicate 6 0);
     let key_index = (if mode = DECRYPTION_MODE then 17 - k else k);
     s \<leftarrow> load key_sets key_index;
     er \<leftarrow> xor_into 6 (key_k s) er;
     ser \<leftarrow> substitute er;
     rn \<leftarrow> permute right_sub_message_permutation ser (replicate 4 0);
     rn \<leftarrow> xor_into 4 l rn;
     Some (ln, rn)
   })"

definition process_message ::
    "u8 list \<Rightarrow> u8 list \<Rightarrow> key_set list \<Rightarrow> int \<Rightarrow> u8 list option" where
  "process_message message_piece processed_piece key_sets mode = do {
     processed_piece \<leftarrow> memcpy_to processed_piece 0 (replicate 8 0);
     initial_permutation \<leftarrow> permute initial_message_permutation message_piece (replicate 8 0);
     let l = slice 0 4 initial_permutation;
     let r = slice 4 4 initial_permutation;
     (l, r) \<leftarrow> foldM (des_round key_sets mode) [1..<17] (l, r);
     permute final_message_permutation (r @ l) processed_piece
   }"

text \<open>\<open>generate_key\<close>: eight results of \<^verbatim>\<open>rand\<close>, each reduced modulo 255.\<close>

definition generate_key :: "(nat \<Rightarrow> int) \<Rightarrow> u8 list \<Rightarrow> u8 list option" where
  "generate_key rnd key = foldM (\<lambda>i key. store key i (word_of_int (rnd i smod 255))) [0..<8] key"

end
