(* ===== verification/DesBits.thy ===== *)
theory DesBits
  imports DesBlock
begin

text \<open>
  Byte arrays as lists of bits, and the bit permutations of \<^verbatim>\<open>DES/des.c\<close> as
  selections from such lists.
\<close>

unbundle bit_operations_syntax

definition bits :: "u8 list \<Rightarrow> bool list" where
  "bits bs = map (\<lambda>n. bit (bs ! (n div 8)) (7 - n mod 8)) [0..<8 * length bs]"

definition select :: "nat list \<Rightarrow> bool list \<Rightarrow> bool list" where
  "select table xs = map (\<lambda>s. xs ! (s - 1)) table"

lemma length_bits [simp]: "length (bits bs) = 8 * length bs"
  by (simp add: bits_def)

lemma nth_bits: "n < 8 * length bs \<Longrightarrow> bits bs ! n = bit (bs ! (n div 8)) (7 - n mod 8)"
  by (simp add: bits_def)

lemma bits_inj: "bits a = bits b \<Longrightarrow> a = b"
proof (rule nth_equalityI)
  assume e: "bits a = bits b"
  then have "length (bits a) = length (bits b)" by simp
  then show l: "length a = length b" by simp
  fix i assume i: "i < length a"
  show "a ! i = b ! i"
  proof (rule bit_word_eqI)
    fix j assume "j < LENGTH(8)"
    then have "j < 8" by simp
    define k where "k = 7 - j"
    have k: "k < 8" "7 - k = j" using \<open>j < 8\<close> by (auto simp: k_def)
    have j: "8 * i + k < 8 * length a" "(8 * i + k) div 8 = i" "(8 * i + k) mod 8 = k"
      using i k by auto
    have "bits a ! (8 * i + k) = bits b ! (8 * i + k)" by (simp add: e)
    then show "bit (a ! i) j = bit (b ! i) j" using j k(2) l by (simp add: nth_bits)
  qed
qed

lemma bits_eqI:
  assumes "length bs = m" and "length xs = 8 * m"
    and "\<And>i j. i < m \<Longrightarrow> j < 8 \<Longrightarrow> bit (bs ! i) (7 - j) = xs ! (8 * i + j)"
  shows "bits bs = xs"
proof (rule nth_equalityI)
  fix n assume "n < length (bits bs)"
  then have "n div 8 < m" "n mod 8 < 8" using assms(1) by auto
  from assms(3)[OF this] show "bits bs ! n = xs ! n"
    using \<open>n < length (bits bs)\<close> by (simp add: nth_bits)
qed (use assms in simp)

lemma bits_append: "bits (a @ b) = bits a @ bits b"
proof (rule nth_equalityI)
  fix n assume n: "n < length (bits (a @ b))"
  show "bits (a @ b) ! n = (bits a @ bits b) ! n"
  proof (cases "n < 8 * length a")
    case True
    then show ?thesis by (simp add: nth_bits nth_append)
  next
    case False
    then obtain m where "n = 8 * length a + m" using le_Suc_ex not_less by blast
    with n show ?thesis by (simp add: nth_bits nth_append)
  qed
qed simp

lemma bits_replicate: "bits (replicate n 0) = replicate (8 * n) False"
  by (rule nth_equalityI) (auto simp: nth_bits)

lemma bits_slice:
  assumes "p + n \<le> length b"
  shows "bits (slice p n b) = take (8 * n) (drop (8 * p) (bits b))"
proof (rule nth_equalityI)
  show "length (bits (slice p n b)) = length (take (8 * n) (drop (8 * p) (bits b)))"
    using assms by simp
  fix m assume "m < length (bits (slice p n b))"
  then show "bits (slice p n b) ! m = take (8 * n) (drop (8 * p) (bits b)) ! m"
    using assms by (simp add: nth_bits)
qed

section \<open>One bit\<close>

lemma bit_80: "bit (0x80 :: u8) i \<longleftrightarrow> i = 7"
proof -
  have e: "(0x80 :: u8) = push_bit 7 1" by simp
  show ?thesis unfolding e by (simp only: bit_push_bit_iff bit_1_iff possible_bit_word) auto
qed

lemma bit_80_if: "bit (if c then 0x80 else 0 :: u8) i \<longleftrightarrow> c \<and> i = 7"
  using bit_80[of i] by (cases c) (simp_all only: if_True if_False simp_thms bit_0_eq bot_apply bot_bool_def)

lemma top_bit:
  assumes "j < 8"
  shows "push_bit j (drop_bit j 0x80 AND x) = (if bit x (7 - j) then 0x80 else 0 :: u8)"
proof (rule bit_word_eqI)
  fix i assume "i < LENGTH(8)"
  have "bit (push_bit j (drop_bit j 0x80 AND x)) i \<longleftrightarrow> j \<le> i \<and> i < 8 \<and> j + (i - j) = 7 \<and> bit x (i - j)"
    by (simp only: bit_push_bit_iff bit_and_iff bit_drop_bit_eq comp_def bit_80 possible_bit_word) auto
  also have "\<dots> \<longleftrightarrow> bit x (7 - j) \<and> i = 7" using assms by auto
  finally show "bit (push_bit j (drop_bit j 0x80 AND x)) i = bit (if bit x (7 - j) then 0x80 else 0 :: u8) i"
    by (simp only: bit_80_if)
qed

lemma pick_bit_eq:
  "pos < 8 * length src \<Longrightarrow> pick_bit src pos = Some (if bits src ! pos then 0x80 else 0)"
  by (simp only: pick_bit_def top_bit mod_less_divisor zero_less_numeral)
    (simp add: nth_bits less_mult_imp_div_less mult.commute)

lemma bits_store_at:
  assumes "i < 8 * length dst" and "n < 8 * length dst"
    and x: "\<And>j. j < 8 \<Longrightarrow> bit x (7 - j) = (bit (dst ! (i div 8)) (7 - j) \<or> j = i mod 8 \<and> v)"
  shows "bits (dst[i div 8 := x]) ! n = (bits dst ! n \<or> n = i \<and> v)"
proof (cases "n div 8 = i div 8")
  case True
  then have e: "n = i \<longleftrightarrow> n mod 8 = i mod 8" by (metis div_mult_mod_eq)
  have "i div 8 < length dst" using assms(1) by (simp add: less_mult_imp_div_less mult.commute)
  then have "bits (dst[i div 8 := x]) ! n = bit x (7 - n mod 8)" using True assms(2) by (simp add: nth_bits)
  then show ?thesis using x[of "n mod 8"] True assms(2) e by (simp add: nth_bits)
next
  case False
  then have "n \<noteq> i" by auto
  with False assms show ?thesis by (simp add: nth_bits)
qed

lemma or_bit_eq:
  assumes "i < 8 * length dst"
  obtains d where "or_bit dst i (if v then 0x80 else 0) = Some d" and "length d = length dst"
    and "\<And>n. n < 8 * length dst \<Longrightarrow> bits d ! n = (bits dst ! n \<or> n = i \<and> v)"
proof
  let ?x = "dst ! (i div 8) OR drop_bit (i mod 8) (if v then 0x80 else 0)"
  show "or_bit dst i (if v then 0x80 else 0) = Some (dst[i div 8 := ?x])"
    using assms by (simp add: or_bit_def less_mult_imp_div_less mult.commute)
  have x: "bit ?x (7 - j) = (bit (dst ! (i div 8)) (7 - j) \<or> j = i mod 8 \<and> v)" if "j < 8" for j
  proof -
    have "i mod 8 + (7 - j) = 7 \<longleftrightarrow> j = i mod 8" using that mod_less_divisor[of 8 i] by arith
    then show ?thesis by (simp only: bit_or_iff bit_drop_bit_eq comp_def bit_80_if) auto
  qed
  show "bits (dst[i div 8 := ?x]) ! n = (bits dst ! n \<or> n = i \<and> v)" if "n < 8 * length dst" for n
    by (rule bits_store_at[OF assms that x])
qed simp

section \<open>Permutations\<close>

lemma permute_loop:
  assumes v: "\<And>i. i < m \<Longrightarrow> v i = Some (if p i then 0x80 else 0)" and len: "m \<le> 8 * length dst"
  shows "\<exists>d. foldM (\<lambda>i dst. do { w \<leftarrow> v i; or_bit dst i w }) [0..<m] dst = Some d \<and> length d = length dst
    \<and> (\<forall>n < 8 * length dst. bits d ! n = (bits dst ! n \<or> n < m \<and> p n))"
  using assms
proof (induction m)
  case 0
  then show ?case by simp
next
  case (Suc m)
  then obtain d where d: "foldM (\<lambda>i dst. do { w \<leftarrow> v i; or_bit dst i w }) [0..<m] dst = Some d"
    "length d = length dst" "\<forall>n < 8 * length dst. bits d ! n = (bits dst ! n \<or> n < m \<and> p n)" by auto
  obtain e where e: "or_bit d m (if p m then 0x80 else 0) = Some e" "length e = length d"
    "\<And>n. n < 8 * length d \<Longrightarrow> bits e ! n = (bits d ! n \<or> n = m \<and> p m)"
    by (rule or_bit_eq[of m d "p m"]) (use Suc.prems d in auto)
  have "foldM (\<lambda>i dst. do { w \<leftarrow> v i; or_bit dst i w }) [0..<Suc m] dst = Some e"
    using d(1) e(1) Suc.prems(1)[of m] by (simp add: foldM_append foldM_single)
  moreover have "bits e ! n = (bits dst ! n \<or> n < Suc m \<and> p n)" if "n < 8 * length dst" for n
    using that d e by (auto simp: less_Suc_eq)
  ultimately show ?case using d(2) e(2) by auto
qed

lemma permute_prefix:
  assumes "\<And>s. s \<in> set table \<Longrightarrow> 0 < s \<and> s \<le> 8 * length src" and "length table = 8 * k"
  shows "\<exists>d. permute table src (replicate k 0 @ rest) = Some (d @ rest) \<and> length d = k \<and>
    bits d = select table (bits src)"
proof -
  let ?dst = "replicate k 0 @ rest"
  have "\<exists>d. permute table src ?dst = Some d \<and> length d = length ?dst
    \<and> (\<forall>n < 8 * length ?dst. bits d ! n = (bits ?dst ! n \<or> n < length table \<and> bits src ! (table ! n - 1)))"
    unfolding permute_def
  proof (rule permute_loop)
    fix i assume "i < length table"
    then have "0 < table ! i \<and> table ! i \<le> 8 * length src" using assms(1) by auto
    then show "pick_bit src (table ! i - 1) = Some (if bits src ! (table ! i - 1) then 0x80 else 0)"
      by (intro pick_bit_eq) auto
  qed (use assms in simp)
  then obtain d where d: "permute table src ?dst = Some d" "length d = length ?dst"
    "\<And>n. n < 8 * length ?dst \<Longrightarrow> bits d ! n = (bits ?dst ! n \<or> n < length table \<and> bits src ! (table ! n - 1))"
    by auto
  have t: "bits (take k d) = take (8 * k) (bits d)" "bits (drop k d) = drop (8 * k) (bits d)"
    using bits_append[of "take k d" "drop k d"] d(2) by simp_all
  have "bits (take k d) = select table (bits src)"
    using d(3) assms(2) d(2)
    by (intro nth_equalityI) (auto simp: t select_def bits_append bits_replicate nth_append)
  moreover have "bits (drop k d) = bits rest"
    using d(3) assms(2) d(2)
    by (intro nth_equalityI) (auto simp: t bits_append bits_replicate nth_append)
  then have "drop k d = rest" by (rule bits_inj)
  moreover have "take k d @ drop k d = d" by simp
  ultimately show ?thesis using d(1,2) by (intro exI[of _ "take k d"]) auto
qed

lemma permute_zero:
  assumes "\<And>s. s \<in> set table \<Longrightarrow> 0 < s \<and> s \<le> 8 * length src" and "length table = 8 * k"
  shows "\<exists>d. permute table src (replicate k 0) = Some d \<and> length d = k \<and> bits d = select table (bits src)"
  using permute_prefix[of table src k "[]"] assms by simp

end
