(* ===== verification/DesSpec.thy ===== *)
theory DesSpec
  imports DesBits
begin

text \<open>
  The textbook DES on lists of bits, and its inverse: sixteen Feistel rounds with the subkeys in
  the opposite order undo each other whatever the round function computes.
\<close>

definition xor_bits :: "bool list \<Rightarrow> bool list \<Rightarrow> bool list" where
  "xor_bits xs ys = map2 (\<noteq>) xs ys"

definition nibble :: "nat \<Rightarrow> bool list" where
  "nibble v = [bit v 3, bit v 2, bit v 1, bit v 0]"

definition sbox :: "nat list \<Rightarrow> bool list \<Rightarrow> bool list" where
  "sbox S x = nibble (S ! (16 * (2 * of_bool (x ! 0) + of_bool (x ! 5)) +
     (8 * of_bool (x ! 1) + 4 * of_bool (x ! 2) + 2 * of_bool (x ! 3) + of_bool (x ! 4))))"

definition sboxes :: "bool list \<Rightarrow> bool list" where
  "sboxes bs = concat (map2 (\<lambda>S i. sbox S (take 6 (drop (6 * i) bs)))
     [S1, S2, S3, S4, S5, S6, S7, S8] [0..<8])"

definition des_f :: "bool list \<Rightarrow> bool list \<Rightarrow> bool list" where
  "des_f r key = select right_sub_message_permutation (sboxes (xor_bits (select message_expansion r) key))"

definition feistel :: "bool list \<Rightarrow> bool list \<times> bool list \<Rightarrow> bool list \<times> bool list" where
  "feistel key = (\<lambda>(l, r). (r, xor_bits l (des_f r key)))"

definition des_bits :: "bool list list \<Rightarrow> bool list \<Rightarrow> bool list" where
  "des_bits keys m =
     (let p = select initial_message_permutation m;
          (l, r) = fold feistel keys (take 32 p, drop 32 p)
      in select final_message_permutation (r @ l))"

text \<open>The key schedule.\<close>

definition rotate_bits :: "nat \<Rightarrow> bool list \<Rightarrow> bool list" where
  "rotate_bits n xs = drop n xs @ take n xs"

fun key_halves :: "bool list \<Rightarrow> nat \<Rightarrow> bool list \<times> bool list" where
  "key_halves key 0 =
     (let cd = select initial_key_permutaion key in (take 28 cd, drop 28 cd))"
| "key_halves key (Suc i) =
     (let (c, d) = key_halves key i; s = nat (key_shift_sizes ! Suc i)
      in (rotate_bits s c, rotate_bits s d))"

definition subkey :: "bool list \<Rightarrow> nat \<Rightarrow> bool list" where
  "subkey key i = (let (c, d) = key_halves key i in select sub_key_permutation (c @ d))"

definition subkeys :: "bool list \<Rightarrow> bool list list" where
  "subkeys key = map (subkey key) [1..<17]"

section \<open>Inversion\<close>

lemma length_xor_bits [simp]: "length (xor_bits xs ys) = min (length xs) (length ys)"
  by (simp add: xor_bits_def)

lemma length_select [simp]: "length (select t xs) = length t"
  by (simp add: select_def)

lemma length_nibble [simp]: "length (nibble v) = 4"
  by (simp add: nibble_def)

lemma length_sboxes [simp]: "length (sboxes xs) = 32"
proof -
  have "[0..<8] = [0, 1, 2, 3, 4, 5, 6, 7]" by code_simp
  then show ?thesis by (simp add: sboxes_def sbox_def)
qed

lemma length_des_f [simp]: "length (des_f r key) = 32"
  by (simp add: des_f_def right_sub_message_permutation_def)

lemma feistel_pair [simp]: "feistel key (l, r) = (r, xor_bits l (des_f r key))"
  by (simp add: feistel_def)

lemma xor_bits_twice: "length ys = length xs \<Longrightarrow> xor_bits (xor_bits xs ys) ys = xs"
  by (rule nth_equalityI) (auto simp: xor_bits_def)

lemma xor_bits_commute: "xor_bits xs ys = xor_bits ys xs"
  by (auto simp: xor_bits_def intro!: nth_equalityI)

lemma rounds_length:
  "length l = 32 \<Longrightarrow> length r = 32 \<Longrightarrow>
     length (fst (fold feistel keys (l, r))) = 32 \<and> length (snd (fold feistel keys (l, r))) = 32"
  by (induction keys arbitrary: l r) simp_all

lemma rounds_undo:
  "length l = 32 \<Longrightarrow> length r = 32 \<Longrightarrow> fold feistel keys (l, r) = (l', r') \<Longrightarrow>
     fold feistel (rev keys) (r', l') = (r, l)"
proof (induction keys arbitrary: l r)
  case Nil
  then show ?case by simp
next
  case (Cons key keys)
  let ?r = "xor_bits l (des_f r key)"
  have "fold feistel (rev keys) (r', l') = (?r, r)"
    using Cons.IH[of r ?r] Cons.prems by simp
  then show ?case using Cons.prems by (simp add: xor_bits_twice)
qed

lemma select_select:
  "(\<And>s. s \<in> set t \<Longrightarrow> 0 < s \<and> s \<le> length u) \<Longrightarrow>
     select t (select u xs) = select (map (\<lambda>s. u ! (s - 1)) t) xs"
proof -
  assume t: "\<And>s. s \<in> set t \<Longrightarrow> 0 < s \<and> s \<le> length u"
  have "map (\<lambda>s. xs ! (s - 1)) u ! (s - 1) = xs ! (u ! (s - 1) - 1)" if "s \<in> set t" for s
    using t[OF that] by (intro nth_map) auto
  then show ?thesis unfolding select_def map_map by (intro map_cong) simp_all
qed

lemma select_upt: "length xs = n \<Longrightarrow> select [1..<Suc n] xs = xs"
proof -
  assume "length xs = n"
  moreover have "[1..<Suc n] = map Suc [0..<n]" by (simp only: map_Suc_upt One_nat_def)
  ultimately show ?thesis using map_nth[of xs] by (simp add: select_def comp_def del: upt_Suc)
qed

definition table_ok :: "nat list \<Rightarrow> nat \<Rightarrow> bool" where
  "table_ok t n \<longleftrightarrow> list_all (\<lambda>s. 0 < s \<and> s \<le> n) t"

lemma table_okD: "table_ok t n \<Longrightarrow> s \<in> set t \<Longrightarrow> 0 < s \<and> s \<le> n"
  by (auto simp: table_ok_def list_all_iff)

lemma tables_ok:
  "table_ok initial_key_permutaion 64" "table_ok initial_message_permutation 64"
  "table_ok sub_key_permutation 56" "table_ok message_expansion 32"
  "table_ok right_sub_message_permutation 32" "table_ok final_message_permutation 64"
  by (simp_all add: table_ok_def initial_key_permutaion_def initial_message_permutation_def
      sub_key_permutation_def message_expansion_def right_sub_message_permutation_def
      final_message_permutation_def)

lemma table_lengths [simp]:
  "length initial_key_permutaion = 56" "length initial_message_permutation = 64"
  "length sub_key_permutation = 48" "length message_expansion = 48"
  "length right_sub_message_permutation = 32" "length final_message_permutation = 64"
  "length key_shift_sizes = 17"
  by (simp_all add: initial_key_permutaion_def initial_message_permutation_def
      sub_key_permutation_def message_expansion_def right_sub_message_permutation_def
      final_message_permutation_def key_shift_sizes_def)

lemma permutations_inverse:
  "map (\<lambda>s. final_message_permutation ! (s - 1)) initial_message_permutation = [1..<65]"
  "map (\<lambda>s. initial_message_permutation ! (s - 1)) final_message_permutation = [1..<65]"
  by code_simp+

lemma initial_final:
  assumes "length xs = 64"
  shows "select initial_message_permutation (select final_message_permutation xs) = xs"
    and "select final_message_permutation (select initial_message_permutation xs) = xs"
proof -
  have "Suc 64 = 65" by simp
  with select_upt[OF assms] have u: "select [1..<65] xs = xs" by simp
  show "select initial_message_permutation (select final_message_permutation xs) = xs"
    by (subst select_select) (use table_okD[OF tables_ok(2)] u permutations_inverse in simp_all)
  show "select final_message_permutation (select initial_message_permutation xs) = xs"
    by (subst select_select) (use table_okD[OF tables_ok(6)] u permutations_inverse in simp_all)
qed

lemma des_bits_rev:
  assumes "length m = 64"
  shows "des_bits (rev keys) (des_bits keys m) = m"
proof -
  let ?p = "select initial_message_permutation m"
  obtain l r where lr: "fold feistel keys (take 32 ?p, drop 32 ?p) = (l, r)" by fastforce
  have len: "length l = 32" "length r = 32"
    using rounds_length[of "take 32 ?p" "drop 32 ?p" keys] lr by simp_all
  have "fold feistel (rev keys) (r, l) = (drop 32 ?p, take 32 ?p)"
    by (rule rounds_undo[OF _ _ lr]) simp_all
  then show ?thesis
    using len assms by (simp add: des_bits_def lr initial_final Let_def)
qed

end
