(* ===== verification/DesCorrect.thy ===== *)
theory DesCorrect
  imports DesSpec
begin

text \<open>
  The byte-level code of \<^verbatim>\<open>DES/des.c\<close> implements the textbook cipher and its key schedule.
\<close>

unbundle bit_operations_syntax

section \<open>Bytes as eight bits\<close>

definition byte_bits :: "u8 \<Rightarrow> bool list" where
  "byte_bits x = [bit x 7, bit x 6, bit x 5, bit x 4, bit x 3, bit x 2, bit x 1, bit x 0]"

lemma bits_Nil [simp]: "bits [] = []"
  by (simp add: bits_def)

lemma bits_single: "bits [x] = byte_bits x"
proof -
  have "[0..<8] = [0, 1, 2, 3, 4, 5, 6, 7]" by code_simp
  then show ?thesis by (simp add: bits_def byte_bits_def)
qed

lemma bits_Cons: "bits (x # xs) = byte_bits x @ bits xs"
  using bits_append[of "[x]" xs] by (simp add: bits_single)

lemma u8_eqI: "byte_bits x = byte_bits y \<Longrightarrow> x = y"
  using bits_inj[of "[x]" "[y]"] by (simp add: bits_single)

section \<open>Substitution\<close>

definition row_word :: "bool \<Rightarrow> bool \<Rightarrow> u8" where
  "row_word a b = (if a then 2 else 0) OR (if b then 1 else 0)"

definition column_word :: "bool \<Rightarrow> bool \<Rightarrow> bool \<Rightarrow> bool \<Rightarrow> u8" where
  "column_word a b c d = (if a then 8 else 0) OR (if b then 4 else 0) OR (if c then 2 else 0) OR (if d then 1 else 0)"

lemma unat_row_column:
  "unat (row_word a b) = 2 * of_bool a + of_bool b"
  "unat (column_word a b c d) = 8 * of_bool a + 4 * of_bool b + 2 * of_bool c + of_bool d"
  by (cases a; cases b; simp add: row_word_def)
    (cases a; cases b; cases c; cases d; simp add: column_word_def)

lemma bit_double_u8: "bit (x * 2 :: u8) n \<longleftrightarrow> 0 < n \<and> n < 8 \<and> bit x (n - 1)"
proof -
  have "x * 2 = push_bit 1 x" by (simp add: push_bit_eq_mult)
  then show ?thesis by (simp only: bit_push_bit_iff possible_bit_word) auto
qed

lemma rows_columns:
  fixes x y :: u8
  shows "drop_bit 6 (x AND 0x80) OR drop_bit 2 (x AND 0x04) = row_word (bit x 7) (bit x 2)"
    and "drop_bit 3 (x AND 0x78) = column_word (bit x 6) (bit x 5) (bit x 4) (bit x 3)"
    and "(x AND 0x02) OR drop_bit 4 (y AND 0x10) = row_word (bit x 1) (bit y 4)"
    and "push_bit 3 (x AND 0x01) OR drop_bit 5 (y AND 0xE0) = column_word (bit x 0) (bit y 7) (bit y 6) (bit y 5)"
    and "drop_bit 2 (x AND 0x08) OR drop_bit 6 (y AND 0x40) = row_word (bit x 3) (bit y 6)"
    and "push_bit 1 (x AND 0x07) OR drop_bit 7 (y AND 0x80) = column_word (bit x 2) (bit x 1) (bit x 0) (bit y 7)"
    and "drop_bit 4 (x AND 0x20) OR (x AND 0x01) = row_word (bit x 5) (bit x 0)"
    and "drop_bit 1 (x AND 0x1E) = column_word (bit x 4) (bit x 3) (bit x 2) (bit x 1)"
  by (rule u8_eqI; simp add: byte_bits_def bit_double_u8 row_word_def column_word_def bit_simps;
      simp add: numeral_2_eq_2 numeral_3_eq_3)+

lemma sbox_entry_word:
  assumes "length S = 64" and "\<forall>v \<in> set S. v < 16"
  obtains v where "sbox_entry S (row_word a f) (column_word b c d e) = Some (of_nat v)"
    and "nibble v = sbox S [a, b, c, d, e, f]" and "v < 16"
proof
  let ?i = "16 * (2 * of_bool a + of_bool f) + (8 * of_bool b + 4 * of_bool c + 2 * of_bool d + of_bool e) :: nat"
  have "?i < 64" by (auto simp: of_bool_def)
  then show "sbox_entry S (row_word a f) (column_word b c d e) = Some (of_nat (S ! ?i))"
    using assms(1) by (simp add: sbox_entry_def unat_row_column algebra_simps)
  show "nibble (S ! ?i) = sbox S [a, b, c, d, e, f]" by (simp add: sbox_def)
  show "S ! ?i < 16" using assms \<open>?i < 64\<close> by simp
qed

lemma nibble_pair:
  "v < 16 \<Longrightarrow> w < 16 \<Longrightarrow> byte_bits (push_bit 4 (of_nat v) OR of_nat w) = nibble v @ nibble w"
proof -
  assume v: "v < 16" and w: "w < 16"
  have b: "bit (of_nat n :: u8) j \<longleftrightarrow> j < 8 \<and> bit n j" for n j
    by (simp add: bit_of_nat_iff)
  have h: "\<not> bit n (4 + j)" if "n < 16" for n j :: nat
  proof -
    have "n < 16 * 2 ^ j" by (rule less_le_trans[OF that]) simp
    then have "n < 2 ^ (4 + j)" by (simp add: power_add)
    then show ?thesis by (simp add: bit_iff_odd)
  qed
  have "\<not> bit w 4" "\<not> bit w 5" "\<not> bit w 6" "\<not> bit w 7"
    using h[OF w, of 0] h[OF w, of 1] h[OF w, of 2] h[OF w, of 3] by simp_all
  then show ?thesis by (simp add: byte_bits_def nibble_def bit_or_iff bit_push_bit_iff b)
qed

lemma sboxes_small:
  "length S1 = 64" "length S2 = 64" "length S3 = 64" "length S4 = 64"
  "length S5 = 64" "length S6 = 64" "length S7 = 64" "length S8 = 64"
  "\<forall>v \<in> set S1. v < 16" "\<forall>v \<in> set S2. v < 16" "\<forall>v \<in> set S3. v < 16" "\<forall>v \<in> set S4. v < 16"
  "\<forall>v \<in> set S5. v < 16" "\<forall>v \<in> set S6. v < 16" "\<forall>v \<in> set S7. v < 16" "\<forall>v \<in> set S8. v < 16"
  by (simp_all add: S1_def S2_def S3_def S4_def S5_def S6_def S7_def S8_def)

lemma substitute_bits:
  assumes "length er = 6"
  obtains ser where "substitute er = Some ser" and "length ser = 4" and "bits ser = sboxes (bits er)"
proof -
  obtain x0 x1 x2 x3 x4 x5 where er: "er = [x0, x1, x2, x3, x4, x5]"
    using assms by (auto simp: numeral_eq_Suc length_Suc_conv)
  obtain v1 where 1: "sbox_entry S1 (row_word (bit x0 7) (bit x0 2)) (column_word (bit x0 6) (bit x0 5) (bit x0 4) (bit x0 3)) = Some (of_nat v1)"
    "nibble v1 = sbox S1 [bit x0 7, bit x0 6, bit x0 5, bit x0 4, bit x0 3, bit x0 2]" "v1 < 16"
    by (rule sbox_entry_word[OF sboxes_small(1,9)])
  obtain v2 where 2: "sbox_entry S2 (row_word (bit x0 1) (bit x1 4)) (column_word (bit x0 0) (bit x1 7) (bit x1 6) (bit x1 5)) = Some (of_nat v2)"
    "nibble v2 = sbox S2 [bit x0 1, bit x0 0, bit x1 7, bit x1 6, bit x1 5, bit x1 4]" "v2 < 16"
    by (rule sbox_entry_word[OF sboxes_small(2,10)])
  obtain v3 where 3: "sbox_entry S3 (row_word (bit x1 3) (bit x2 6)) (column_word (bit x1 2) (bit x1 1) (bit x1 0) (bit x2 7)) = Some (of_nat v3)"
    "nibble v3 = sbox S3 [bit x1 3, bit x1 2, bit x1 1, bit x1 0, bit x2 7, bit x2 6]" "v3 < 16"
    by (rule sbox_entry_word[OF sboxes_small(3,11)])
  obtain v4 where 4: "sbox_entry S4 (row_word (bit x2 5) (bit x2 0)) (column_word (bit x2 4) (bit x2 3) (bit x2 2) (bit x2 1)) = Some (of_nat v4)"
    "nibble v4 = sbox S4 [bit x2 5, bit x2 4, bit x2 3, bit x2 2, bit x2 1, bit x2 0]" "v4 < 16"
    by (rule sbox_entry_word[OF sboxes_small(4,12)])
  obtain v5 where 5: "sbox_entry S5 (row_word (bit x3 7) (bit x3 2)) (column_word (bit x3 6) (bit x3 5) (bit x3 4) (bit x3 3)) = Some (of_nat v5)"
    "nibble v5 = sbox S5 [bit x3 7, bit x3 6, bit x3 5, bit x3 4, bit x3 3, bit x3 2]" "v5 < 16"
    by (rule sbox_entry_word[OF sboxes_small(5,13)])
  obtain v6 where 6: "sbox_entry S6 (row_word (bit x3 1) (bit x4 4)) (column_word (bit x3 0) (bit x4 7) (bit x4 6) (bit x4 5)) = Some (of_nat v6)"
    "nibble v6 = sbox S6 [bit x3 1, bit x3 0, bit x4 7, bit x4 6, bit x4 5, bit x4 4]" "v6 < 16"
    by (rule sbox_entry_word[OF sboxes_small(6,14)])
  obtain v7 where 7: "sbox_entry S7 (row_word (bit x4 3) (bit x5 6)) (column_word (bit x4 2) (bit x4 1) (bit x4 0) (bit x5 7)) = Some (of_nat v7)"
    "nibble v7 = sbox S7 [bit x4 3, bit x4 2, bit x4 1, bit x4 0, bit x5 7, bit x5 6]" "v7 < 16"
    by (rule sbox_entry_word[OF sboxes_small(7,15)])
  obtain v8 where 8: "sbox_entry S8 (row_word (bit x5 5) (bit x5 0)) (column_word (bit x5 4) (bit x5 3) (bit x5 2) (bit x5 1)) = Some (of_nat v8)"
    "nibble v8 = sbox S8 [bit x5 5, bit x5 4, bit x5 3, bit x5 2, bit x5 1, bit x5 0]" "v8 < 16"
    by (rule sbox_entry_word[OF sboxes_small(8,16)])
  have u: "[0..<6] = [0, 1, 2, 3, 4, 5]" "[0..<8] = [0, 1, 2, 3, 4, 5, 6, 7]" by code_simp+
  have e: "those (map (load er) [0..<6]) = Some er" by (simp add: those_load assms)
  have nths: "er ! 0 = x0" "er ! 1 = x1" "er ! 2 = x2" "er ! 3 = x3" "er ! 4 = x4" "er ! 5 = x5"
    by (simp_all add: er)
  show ?thesis
  proof
    show "substitute er = Some [push_bit 4 (of_nat v1) OR of_nat v2, push_bit 4 (of_nat v3) OR of_nat v4,
        push_bit 4 (of_nat v5) OR of_nat v6, push_bit 4 (of_nat v7) OR of_nat v8]"
      by (simp only: substitute_def e Option.bind.simps nths rows_columns 1(1) 2(1) 3(1) 4(1) 5(1) 6(1) 7(1) 8(1))
    show "bits [push_bit 4 (of_nat v1) OR of_nat v2, push_bit 4 (of_nat v3) OR of_nat v4,
        push_bit 4 (of_nat v5) OR of_nat v6, push_bit 4 (of_nat v7) OR of_nat v8] = sboxes (bits er)"
    proof -
      have "sboxes (bits er) = nibble v1 @ nibble v2 @ nibble v3 @ nibble v4 @ nibble v5 @ nibble v6 @ nibble v7 @ nibble v8"
        by (simp add: er bits_Cons byte_bits_def sboxes_def u 1 2 3 4 5 6 7 8 del: One_nat_def)
      then show ?thesis by (simp add: bits_Cons nibble_pair 1 2 3 4 5 6 7 8)
    qed
  qed simp
qed

section \<open>Rounds\<close>

lemma xor_into_eq:
  assumes "n \<le> length src" and "n \<le> length dst"
  shows "xor_into n src dst = Some (splice dst 0 (map (\<lambda>i. dst ! i XOR src ! i) [0..<n]))"
  using assms unfolding xor_into_def
proof (induction n)
  case 0
  then show ?case by simp
next
  case (Suc n)
  let ?d = "splice dst 0 (map (\<lambda>i. dst ! i XOR src ! i) [0..<n])"
  have "?d ! n = dst ! n" using Suc.prems by (subst nth_splice) auto
  moreover have "?d[n := dst ! n XOR src ! n] = splice dst 0 (map (\<lambda>i. dst ! i XOR src ! i) [0..<n] @ [dst ! n XOR src ! n])"
    using splice_snoc[of 0 "map (\<lambda>i. dst ! i XOR src ! i) [0..<n]" dst "dst ! n XOR src ! n"] Suc.prems by simp
  ultimately show ?case using Suc by (simp add: foldM_append foldM_single)
qed

lemma xor_into_bits:
  assumes "length dst = n" and "n \<le> length src"
  obtains d where "xor_into n src dst = Some d" and "length d = n"
    and "bits d = xor_bits (bits dst) (take (8 * n) (bits src))"
proof
  let ?d = "map (\<lambda>i. dst ! i XOR src ! i) [0..<n]"
  show "xor_into n src dst = Some ?d"
    using xor_into_eq[of n src dst] assms by (simp add: splice_def)
  show "bits ?d = xor_bits (bits dst) (take (8 * n) (bits src))"
  proof (rule nth_equalityI)
    fix m assume "m < length (bits ?d)"
    moreover from this have "m div 8 < n" by auto
    ultimately show "bits ?d ! m = xor_bits (bits dst) (take (8 * n) (bits src)) ! m"
      using assms by (simp add: nth_bits xor_bits_def bit_xor_iff)
  qed (use assms in simp)
qed simp

definition round_key :: "key_set \<Rightarrow> bool list" where
  "round_key s = take 48 (bits (key_k s))"

definition key_number :: "int \<Rightarrow> nat \<Rightarrow> nat" where
  "key_number mode k = (if mode = DECRYPTION_MODE then 17 - k else k)"

lemma des_round_bits:
  assumes lr: "length l = 4" "length r = 4"
    and key: "key_number mode k < length ks" "6 \<le> length (key_k (ks ! key_number mode k))"
  obtains n where "des_round ks mode k (l, r) = Some (r, n)" and "length n = 4"
    and "(bits r, bits n) = feistel (round_key (ks ! key_number mode k)) (bits l, bits r)"
proof -
  let ?s = "ks ! key_number mode k"
  obtain e where e: "permute message_expansion r (replicate 6 0) = Some e" "length e = 6"
    "bits e = select message_expansion (bits r)"
    using permute_zero[of message_expansion r 6] table_okD[OF tables_ok(4)] lr by auto
  obtain x where x: "xor_into 6 (key_k ?s) e = Some x" "length x = 6"
    "bits x = xor_bits (bits e) (round_key ?s)"
    using xor_into_bits[OF e(2) key(2)] by (auto simp: round_key_def)
  obtain z where z: "substitute x = Some z" "length z = 4" "bits z = sboxes (bits x)"
    by (rule substitute_bits[OF x(2)])
  obtain p where p: "permute right_sub_message_permutation z (replicate 4 0) = Some p" "length p = 4"
    "bits p = select right_sub_message_permutation (bits z)"
    using permute_zero[of right_sub_message_permutation z 4] table_okD[OF tables_ok(5)] z(2) by auto
  obtain n where n: "xor_into 4 l p = Some n" "length n = 4" "bits n = xor_bits (bits p) (take 32 (bits l))"
    using xor_into_bits[OF p(2), of l] lr by auto
  show ?thesis
  proof
    show "des_round ks mode k (l, r) = Some (r, n)"
      using key(1) e(1) x(1) z(1) p(1) n(1) by (simp add: des_round_def key_number_def)
    show "(bits r, bits n) = feistel (round_key ?s) (bits l, bits r)"
      using n(3) p(3) z(3) x(3) e(3) lr by (simp add: des_f_def xor_bits_commute)
  qed (rule n(2))
qed

lemma des_rounds_bits:
  assumes lr: "length l = 4" "length r = 4"
    and key: "\<And>k. k \<in> set ns \<Longrightarrow> key_number mode k < length ks \<and> 6 \<le> length (key_k (ks ! key_number mode k))"
  shows "\<exists>l' r'. foldM (des_round ks mode) ns (l, r) = Some (l', r') \<and> length l' = 4 \<and> length r' = 4 \<and>
    (bits l', bits r') = fold feistel (map (\<lambda>k. round_key (ks ! key_number mode k)) ns) (bits l, bits r)"
  using lr key
proof (induction ns arbitrary: l r)
  case Nil
  then show ?case by simp
next
  case (Cons k ns)
  obtain n where n: "des_round ks mode k (l, r) = Some (r, n)" "length n = 4"
    "(bits r, bits n) = feistel (round_key (ks ! key_number mode k)) (bits l, bits r)"
    by (rule des_round_bits[of l r mode k ks]) (use Cons.prems in auto)
  then show ?case using Cons.IH[of r n] Cons.prems by (simp add: n(3)[symmetric])
qed

text \<open>The round keys in the order a mode uses them.\<close>

definition mode_keys :: "key_set list \<Rightarrow> int \<Rightarrow> bool list list" where
  "mode_keys ks mode = map (\<lambda>k. round_key (ks ! key_number mode k)) [1..<17]"

lemma mode_keys_rev:
  assumes "m \<noteq> DECRYPTION_MODE"
  shows "mode_keys ks DECRYPTION_MODE = rev (mode_keys ks m)"
    and "mode_keys ks m = rev (mode_keys ks DECRYPTION_MODE)"
proof -
  have u: "[1..<17] = [1, 2, 3, 4, 5, 6, 7, 8, 9, 10, 11, 12, 13, 14, 15, 16 :: nat]" by code_simp
  show "mode_keys ks DECRYPTION_MODE = rev (mode_keys ks m)"
    using assms by (simp add: mode_keys_def key_number_def u del: One_nat_def) simp
  then show "mode_keys ks m = rev (mode_keys ks DECRYPTION_MODE)" by simp
qed

definition key_sets_ok :: "key_set list \<Rightarrow> bool" where
  "key_sets_ok ks \<longleftrightarrow> length ks = 17 \<and> (\<forall>s \<in> set ks. length (key_k s) = 8 \<and> length (key_c s) = 4 \<and> length (key_d s) = 4)"

lemma process_message_bits:
  assumes len: "8 \<le> length m" "8 \<le> length out" and ks: "key_sets_ok ks"
  obtains c where "process_message m out ks mode = Some (c @ drop 8 out)" and "length c = 8"
    and "bits c = des_bits (mode_keys ks mode) (take 64 (bits m))"
proof -
  obtain p where p: "permute initial_message_permutation m (replicate 8 0) = Some p" "length p = 8"
    "bits p = select initial_message_permutation (bits m)"
    using permute_zero[of initial_message_permutation m 8] table_okD[OF tables_ok(2)] len by fastforce
  have sel: "select initial_message_permutation (bits m) = select initial_message_permutation (take 64 (bits m))"
  proof -
    have "take 64 (bits m) ! (s - 1) = bits m ! (s - 1)" if "s \<in> set initial_message_permutation" for s
      using table_okD[OF tables_ok(2) that] by (intro nth_take) auto
    then show ?thesis by (simp add: select_def)
  qed
  let ?l = "slice 0 4 p" and ?r = "slice 4 4 p"
  have "key_number mode k < length ks \<and> 6 \<le> length (key_k (ks ! key_number mode k))" if "k \<in> set [1..<17]" for k
  proof -
    have "key_number mode k < 17" using that by (auto simp: key_number_def)
    then show ?thesis using ks nth_mem[of "key_number mode k" ks] by (auto simp: key_sets_ok_def)
  qed
  then obtain l r where lr: "foldM (des_round ks mode) [1..<17] (?l, ?r) = Some (l, r)" "length l = 4" "length r = 4"
    "(bits l, bits r) = fold feistel (mode_keys ks mode) (bits ?l, bits ?r)"
    using des_rounds_bits[of ?l ?r "[1..<17]" mode ks] p(2) unfolding mode_keys_def by auto
  have halves: "bits ?l = take 32 (bits p)" "bits ?r = drop 32 (bits p)"
    using bits_slice[of 0 4 p] bits_slice[of 4 4 p] p(2) by simp_all
  have "splice out 0 (replicate 8 0) = replicate 8 0 @ drop 8 out" using len by (simp add: splice_def)
  moreover obtain c where c: "permute final_message_permutation (r @ l) (replicate 8 0 @ drop 8 out) = Some (c @ drop 8 out)"
    "length c = 8" "bits c = select final_message_permutation (bits (r @ l))"
    using permute_prefix[of final_message_permutation "r @ l" 8 "drop 8 out"] table_okD[OF tables_ok(6)] lr by fastforce
  ultimately have "process_message m out ks mode = Some (c @ drop 8 out)"
    using p(1) lr(1) len by (simp add: process_message_def memcpy_to_def)
  moreover have "bits c = des_bits (mode_keys ks mode) (take 64 (bits m))"
    using c(3) lr(4)[symmetric] by (simp add: des_bits_def Let_def bits_append halves p(3) sel)
  ultimately show ?thesis using that c(2) by blast
qed

lemma process_message_undo:
  assumes len: "length m = 8" "8 \<le> length out" "8 \<le> length out'" and ks: "key_sets_ok ks"
    and c: "process_message m out ks ENCRYPTION_MODE = Some c"
  shows "process_message c out' ks DECRYPTION_MODE = Some (m @ drop 8 out')"
proof -
  have mode: "ENCRYPTION_MODE \<noteq> DECRYPTION_MODE" by (simp add: ENCRYPTION_MODE_def DECRYPTION_MODE_def)
  obtain x where x: "c = x @ drop 8 out" "length x = 8"
    "bits x = des_bits (mode_keys ks ENCRYPTION_MODE) (take 64 (bits m))"
    by (rule process_message_bits[OF _ len(2) ks, of m ENCRYPTION_MODE]) (use len c in auto)
  obtain y where y: "process_message c out' ks DECRYPTION_MODE = Some (y @ drop 8 out')" "length y = 8"
    "bits y = des_bits (mode_keys ks DECRYPTION_MODE) (take 64 (bits c))"
    by (rule process_message_bits[OF _ len(3) ks, of c DECRYPTION_MODE]) (use x in auto)
  have "bits y = des_bits (rev (mode_keys ks ENCRYPTION_MODE)) (des_bits (mode_keys ks ENCRYPTION_MODE) (take 64 (bits m)))"
  proof -
    have "take 64 (bits c) = bits x" using x(1,2) by (simp add: bits_append)
    then show ?thesis using y(3) x(3) by (simp only: mode_keys_rev(1)[OF mode])
  qed
  also have "\<dots> = bits m" using len by (subst des_bits_rev) simp_all
  finally show ?thesis using y(1) bits_inj by blast
qed

section \<open>Key schedule\<close>

definition half_ok :: "u8 list \<Rightarrow> bool list \<Rightarrow> bool" where
  "half_ok c xs \<longleftrightarrow> length c = 4 \<and> length xs = 28 \<and> bits c = xs @ replicate 4 False"

lemma rotate_half_bits:
  assumes "half_ok c xs" and "s = 1 \<or> s = 2"
  obtains c' where "rotate_half s c = Some c'" and "half_ok c' (rotate_bits s xs)"
proof -
  obtain c0 c1 c2 c3 where c: "c = [c0, c1, c2, c3]"
    using assms(1) list_of_length4[of c] by (auto simp: half_ok_def)
  have f: "replicate 4 False = [False, False, False, False]" by (simp add: numeral_eq_Suc)
  have b: "bits c = xs @ [False, False, False, False]" "length xs = 28" using assms(1) by (simp_all add: half_ok_def f)
  have xs: "xs = take 28 (bits c)" using b by simp
  have z: "\<not> bit c3 3" "\<not> bit c3 2" "\<not> bit c3 1" "\<not> bit c3 0"
    using b(1) b(2) arg_cong[OF b(1), of "drop 28"] by (simp_all add: c bits_Cons byte_bits_def)
  show ?thesis
    using assms(2)
  proof
    assume s: "s = 1"
    show ?thesis
    proof (rule that)
      show "rotate_half s c = Some [push_bit 1 c0 OR drop_bit 7 (0x80 AND c1), push_bit 1 c1 OR drop_bit 7 (0x80 AND c2),
          push_bit 1 c2 OR drop_bit 7 (0x80 AND c3), push_bit 1 c3 OR drop_bit 3 (0x80 AND c0)]"
        by (simp add: rotate_half_def c s load_def store_def)
      show "half_ok [push_bit 1 c0 OR drop_bit 7 (0x80 AND c1), push_bit 1 c1 OR drop_bit 7 (0x80 AND c2),
          push_bit 1 c2 OR drop_bit 7 (0x80 AND c3), push_bit 1 c3 OR drop_bit 3 (0x80 AND c0)] (rotate_bits s xs)"
        using z by (simp add: half_ok_def xs c s f rotate_bits_def bits_Cons byte_bits_def bit_double_u8 bit_simps)
    qed
  next
    assume s: "s = 2"
    show ?thesis
    proof (rule that)
      show "rotate_half s c = Some [push_bit 2 c0 OR drop_bit 6 (0xC0 AND c1), push_bit 2 c1 OR drop_bit 6 (0xC0 AND c2),
          push_bit 2 c2 OR drop_bit 6 (0xC0 AND c3), push_bit 2 c3 OR drop_bit 2 (0xC0 AND c0)]"
        by (simp add: rotate_half_def c s load_def store_def)
      show "half_ok [push_bit 2 c0 OR drop_bit 6 (0xC0 AND c1), push_bit 2 c1 OR drop_bit 6 (0xC0 AND c2),
          push_bit 2 c2 OR drop_bit 6 (0xC0 AND c3), push_bit 2 c3 OR drop_bit 2 (0xC0 AND c0)] (rotate_bits s xs)"
        using z by (simp add: half_ok_def xs c s f rotate_bits_def bits_Cons byte_bits_def bit_double_u8 bit_simps)
    qed
  qed
qed

lemma copy4_eq: "length src = 4 \<Longrightarrow> length dst = 4 \<Longrightarrow> copy4 src dst = Some src"
proof -
  assume "length src = 4" "length dst = 4"
  moreover have "[0..<4] = [0, 1, 2, 3 :: nat]" by code_simp
  ultimately show ?thesis
    using list_of_length4[of src] list_of_length4[of dst] by (auto simp: copy4_def load_def store_def)
qed

lemma first_key_set_bits:
  assumes main: "8 \<le> length main_key" and s: "length (key_k s) = 8" "length (key_c s) = 4" "length (key_d s) = 4"
  obtains s' where "first_key_set main_key s = Some s'" and "length (key_k s') = 8"
    and "half_ok (key_c s') (fst (key_halves (bits main_key) 0))"
    and "half_ok (key_d s') (snd (key_halves (bits main_key) 0))"
proof -
  have u: "[0..<3] = [0, 1, 2 :: nat]" by code_simp
  have f: "replicate 4 False = [False, False, False, False]" by (simp add: numeral_eq_Suc)
  have "foldM (\<lambda>i k. store k i (0 :: u8)) [0..<8] (key_k s) = Some (replicate 8 0)"
    using foldM_store_upt[of 0 8 "key_k s" "\<lambda>_. 0"] s(1) by (simp add: splice_def map_replicate_const)
  moreover have "replicate 8 0 = replicate 7 0 @ [0 :: u8]" by (simp add: numeral_eq_Suc)
  moreover obtain k where k: "permute initial_key_permutaion main_key (replicate 7 0 @ [0]) = Some (k @ [0])"
    "length k = 7" "bits k = select initial_key_permutaion (bits main_key)"
    using permute_prefix[of initial_key_permutaion main_key 7 "[0]"] table_okD[OF tables_ok(1)] main by fastforce
  ultimately have k0: "foldM (\<lambda>i k. store k i 0) [0..<8] (key_k s) \<bind> permute initial_key_permutaion main_key = Some (k @ [0])"
    by simp
  obtain k0 k1 k2 k3 k4 k5 k6 where ks: "k = [k0, k1, k2, k3, k4, k5, k6]"
    using k(2) by (auto simp: numeral_eq_Suc length_Suc_conv)
  obtain c0 c1 c2 c3 where c: "key_c s = [c0, c1, c2, c3]" using list_of_length4[OF s(2)] by auto
  obtain d0 d1 d2 d3 where d: "key_d s = [d0, d1, d2, d3]" using list_of_length4[OF s(3)] by auto
  let ?c = "[k0, k1, k2, k3 AND 0xF0]"
  let ?d = "[push_bit 4 (k3 AND 0x0F) OR drop_bit 4 (k4 AND 0xF0), push_bit 4 (k4 AND 0x0F) OR drop_bit 4 (k5 AND 0xF0),
      push_bit 4 (k5 AND 0x0F) OR drop_bit 4 (k6 AND 0xF0), push_bit 4 (k6 AND 0x0F)]"
  show ?thesis
  proof (rule that)
    show "first_key_set main_key s = Some (s\<lparr>key_k := k @ [0], key_c := ?c, key_d := ?d\<rparr>)"
      using k0 by (simp add: first_key_set_def ks c d u load_def store_def flip: bind_assoc)
    show "half_ok (key_c (s\<lparr>key_k := k @ [0], key_c := ?c, key_d := ?d\<rparr>)) (fst (key_halves (bits main_key) 0))"
      using k(3) by (simp add: half_ok_def f Let_def flip: k(3)) (simp add: ks bits_Cons byte_bits_def bit_simps)
    show "half_ok (key_d (s\<lparr>key_k := k @ [0], key_c := ?c, key_d := ?d\<rparr>)) (snd (key_halves (bits main_key) 0))"
      using k(3) by (simp add: half_ok_def f Let_def flip: k(3)) (simp add: ks bits_Cons byte_bits_def bit_simps)
  qed (simp add: ks)
qed

lemma sub_key_bits_eq:
  assumes c: "half_ok c xs" and d: "half_ok d ys" and k: "length k = 8"
  obtains k' where "sub_key_bits c d k = Some k'" and "length k' = 8"
    and "take 48 (bits k') = map2 (\<or>) (take 48 (bits k)) (select sub_key_permutation (xs @ ys))"
proof -
  let ?p = "\<lambda>j. (xs @ ys) ! (sub_key_permutation ! j - 1)"
  let ?v = "\<lambda>j. if sub_key_permutation ! j \<le> 28 then pick_bit c (sub_key_permutation ! j - 1)
      else pick_bit d (sub_key_permutation ! j - 29)"
  have v: "?v j = Some (if ?p j then 0x80 else 0)" if "j < 48" for j
  proof -
    have t: "0 < sub_key_permutation ! j" "sub_key_permutation ! j \<le> 56"
      using table_okD[OF tables_ok(3), of "sub_key_permutation ! j"] that by auto
    have l: "length c = 4" "length d = 4" "length xs = 28" "length ys = 28"
      "bits c = xs @ replicate 4 False" "bits d = ys @ replicate 4 False" using c d by (auto simp: half_ok_def)
    show ?thesis
    proof (cases "sub_key_permutation ! j \<le> 28")
      case True
      with t l show ?thesis by (simp add: pick_bit_eq nth_append) linarith?
    next
      case False
      then obtain m where "sub_key_permutation ! j = 29 + m" using le_Suc_ex[of 29 "sub_key_permutation ! j"] by auto
      with t l show ?thesis by (simp add: pick_bit_eq nth_append)
    qed
  qed
  obtain k' where "foldM (\<lambda>i dst. do { w \<leftarrow> ?v i; or_bit dst i w }) [0..<48] k = Some k'" "length k' = length k"
    "\<forall>n < 8 * length k. bits k' ! n = (bits k ! n \<or> n < 48 \<and> ?p n)"
    using permute_loop[of 48 ?v ?p k] v k by auto
  moreover from this have "take 48 (bits k') = map2 (\<or>) (take 48 (bits k)) (select sub_key_permutation (xs @ ys))"
    using k by (intro nth_equalityI) (auto simp: select_def)
  ultimately show ?thesis using that k by (simp add: sub_key_bits_def Let_def)
qed

text \<open>The sets after the first i have been computed.\<close>

definition schedule_ok :: "u8 list \<Rightarrow> key_set list \<Rightarrow> nat \<Rightarrow> key_set list \<Rightarrow> bool" where
  "schedule_ok main_key ks0 n ks \<longleftrightarrow> key_sets_ok ks \<and>
     half_ok (key_c (ks ! (n - 1))) (fst (key_halves (bits main_key) (n - 1))) \<and>
     half_ok (key_d (ks ! (n - 1))) (snd (key_halves (bits main_key) (n - 1))) \<and>
     (\<forall>i. 0 < i \<and> i < n \<longrightarrow> round_key (ks ! i) = map2 (\<or>) (round_key (ks0 ! i)) (subkey (bits main_key) i)) \<and>
     (\<forall>i. n \<le> i \<and> i < 17 \<longrightarrow> ks ! i = ks0 ! i)"

lemma shift_sizes: "0 < i \<Longrightarrow> i < 17 \<Longrightarrow> key_shift_sizes ! i = 1 \<or> key_shift_sizes ! i = 2"
proof -
  assume "0 < i" and "i < 17"
  moreover have "\<forall>i \<in> {1..<17}. key_shift_sizes ! i = 1 \<or> key_shift_sizes ! i = 2"
    by code_simp
  ultimately show ?thesis by auto
qed

lemma next_key_set_step:
  assumes ok: "schedule_ok main_key ks0 n ks" and n: "0 < n" "n < 17"
  obtains ks' where "next_key_set n ks = Some ks'" and "schedule_ok main_key ks0 (Suc n) ks'"
proof -
  let ?p = "ks ! (n - 1)" and ?s = "ks ! n" and ?sh = "nat (key_shift_sizes ! n)"
  let ?b = "bits main_key"
  have len: "length ks = 17" and sets: "length (key_k ?s) = 8" "length (key_c ?s) = 4" "length (key_d ?s) = 4"
    using ok n nth_mem[of n ks] by (auto simp: schedule_ok_def key_sets_ok_def)
  have h: "half_ok (key_c ?p) (fst (key_halves ?b (n - 1)))" "half_ok (key_d ?p) (snd (key_halves ?b (n - 1)))"
    using ok by (auto simp: schedule_ok_def)
  have sh: "?sh = 1 \<or> ?sh = 2" using shift_sizes[OF n] by auto
  obtain c where c: "rotate_half ?sh (key_c ?p) = Some c" "half_ok c (rotate_bits ?sh (fst (key_halves ?b (n - 1))))"
    by (rule rotate_half_bits[OF h(1) sh])
  obtain d where d: "rotate_half ?sh (key_d ?p) = Some d" "half_ok d (rotate_bits ?sh (snd (key_halves ?b (n - 1))))"
    by (rule rotate_half_bits[OF h(2) sh])
  have n': "n = Suc (n - 1)" using n by simp
  have kh: "key_halves ?b n = (rotate_bits ?sh (fst (key_halves ?b (n - 1))), rotate_bits ?sh (snd (key_halves ?b (n - 1))))"
    by (subst n', subst key_halves.simps(2)) (use n in \<open>simp add: Let_def split: prod.splits\<close>)
  obtain k where k: "sub_key_bits c d (key_k ?s) = Some k" "length k = 8"
    "take 48 (bits k) = map2 (\<or>) (take 48 (bits (key_k ?s))) (subkey ?b n)"
    by (rule sub_key_bits_eq[OF c(2) d(2) sets(1)]) (simp add: subkey_def kh)
  let ?t = "?s\<lparr>key_k := k, key_c := c, key_d := d\<rparr>"
  have "copy4 (key_c ?p) (key_c ?s) = Some (key_c ?p)" "copy4 (key_d ?p) (key_d ?s) = Some (key_d ?p)"
    using h sets by (auto intro!: copy4_eq simp: half_ok_def)
  then have "next_key_set n ks = Some (ks[n := ?t])"
    using n len c(1) d(1) k(1) by (simp add: next_key_set_def)
  moreover have "schedule_ok main_key ks0 (Suc n) (ks[n := ?t])"
  proof -
    have "key_sets_ok (ks[n := ?t])"
      using ok k(2) c(2) d(2) by (auto simp: schedule_ok_def key_sets_ok_def half_ok_def dest!: set_update_subset_insert[THEN subsetD])
    moreover have "round_key ?t = map2 (\<or>) (round_key (ks0 ! n)) (subkey ?b n)"
      using k(3) ok n by (simp add: round_key_def schedule_ok_def)
    ultimately show ?thesis
      using ok n len c(2) d(2) kh by (auto simp: schedule_ok_def nth_list_update less_Suc_eq)
  qed
  ultimately show ?thesis by (rule that)
qed

lemma generate_sub_keys_bits:
  assumes main: "8 \<le> length main_key" and ks: "key_sets_ok ks0"
  obtains ks where "generate_sub_keys main_key ks0 = Some ks" and "key_sets_ok ks"
    and "\<And>i. 0 < i \<Longrightarrow> i < 17 \<Longrightarrow> round_key (ks ! i) = map2 (\<or>) (round_key (ks0 ! i)) (subkey (bits main_key) i)"
proof -
  have len: "length ks0 = 17" and s: "length (key_k (ks0 ! 0)) = 8" "length (key_c (ks0 ! 0)) = 4" "length (key_d (ks0 ! 0)) = 4"
    using ks nth_mem[of 0 ks0] by (auto simp: key_sets_ok_def)
  obtain s' where s': "first_key_set main_key (ks0 ! 0) = Some s'" "length (key_k s') = 8"
    "half_ok (key_c s') (fst (key_halves (bits main_key) 0))" "half_ok (key_d s') (snd (key_halves (bits main_key) 0))"
    by (rule first_key_set_bits[OF main s])
  have start: "schedule_ok main_key ks0 1 (ks0[0 := s'])"
    using ks s' len
    by (auto simp: schedule_ok_def key_sets_ok_def half_ok_def dest!: set_update_subset_insert[THEN subsetD])
  have "\<exists>ks. foldM next_key_set [1..<Suc n] (ks0[0 := s']) = Some ks \<and> schedule_ok main_key ks0 (Suc n) ks" if "n < 17" for n
    using that
  proof (induction n)
    case 0
    then show ?case using start by simp
  next
    case (Suc n)
    then obtain ks where k: "foldM next_key_set [1..<Suc n] (ks0[0 := s']) = Some ks" "schedule_ok main_key ks0 (Suc n) ks"
      by auto
    obtain ks' where k': "next_key_set (Suc n) ks = Some ks'" "schedule_ok main_key ks0 (Suc (Suc n)) ks'"
      by (rule next_key_set_step[OF k(2)]) (use Suc.prems in auto)
    have "[1..<Suc (Suc n)] = [1..<Suc n] @ [Suc n]" by simp
    then show ?case using k k' by (simp only: foldM_append foldM_single) simp
  qed
  from this[of 16] obtain ks where k: "foldM next_key_set [1..<17] (ks0[0 := s']) = Some ks" "schedule_ok main_key ks0 17 ks"
    by auto
  show ?thesis
  proof (rule that)
    show "generate_sub_keys main_key ks0 = Some ks"
      using k(1) len s'(1) by (simp add: generate_sub_keys_def)
    show "key_sets_ok ks" using k(2) by (simp add: schedule_ok_def)
    show "round_key (ks ! i) = map2 (\<or>) (round_key (ks0 ! i)) (subkey (bits main_key) i)" if "0 < i" "i < 17" for i
      using k(2) that by (simp add: schedule_ok_def)
  qed
qed

end
