(* ===== verification/DesTheorems.thy ===== *)
theory DesTheorems
  imports DesCorrect
begin

text \<open>
  The properties of \<^verbatim>\<open>DES/des.c\<close>, with the standard test vector evaluated on the
  textbook cipher and carried over to the code by the refinement.
\<close>

definition zero_key_sets :: "key_set list" where
  "zero_key_sets = replicate 17 \<lparr>key_k = replicate 8 0, key_c = replicate 4 0, key_d = replicate 4 0\<rparr>"

lemma zero_key_sets_ok: "key_sets_ok zero_key_sets"
  by (simp add: key_sets_ok_def zero_key_sets_def)

lemma round_key_zero: "i < 17 \<Longrightarrow> round_key (zero_key_sets ! i) = replicate 48 False"
  by (simp add: zero_key_sets_def round_key_def bits_replicate)

lemma map2_or_False: "length xs = n \<Longrightarrow> map2 (\<or>) (replicate n False) xs = xs"
  by (rule nth_equalityI) auto

lemma length_subkey: "length (subkey key i) = 48"
  by (simp add: subkey_def split: prod.splits)

lemma mode_keys_schedule:
  assumes "\<And>i. 0 < i \<Longrightarrow> i < 17 \<Longrightarrow> round_key (ks ! i) = map2 (\<or>) (round_key (zero_key_sets ! i)) (subkey key i)"
  shows "mode_keys ks ENCRYPTION_MODE = subkeys key"
  using assms
  by (auto simp: mode_keys_def subkeys_def key_number_def ENCRYPTION_MODE_def DECRYPTION_MODE_def
      round_key_zero map2_or_False length_subkey)

section \<open>Evaluation of the textbook cipher\<close>

lemma upt_1_17: "[Suc 0..<17] = [Suc 0, 2, 3, 4, 5, 6, 7, 8, 9, 10, 11, 12, 13, 14, 15, 16 :: nat]"
  by code_simp

lemma key_halves_numeral:
  "key_halves key (numeral v) =
     (let (c, d) = key_halves key (pred_numeral v); s = nat (key_shift_sizes ! (numeral v))
      in (rotate_bits s c, rotate_bits s d))"
  "key_halves key (Suc 0) =
     (let (c, d) = key_halves key 0; s = nat (key_shift_sizes ! 1)
      in (rotate_bits s c, rotate_bits s d))"
  by (simp_all add: numeral_eq_Suc)

lemmas des_tables = initial_key_permutaion_def initial_message_permutation_def sub_key_permutation_def
  message_expansion_def right_sub_message_permutation_def final_message_permutation_def
  key_shift_sizes_def S1_def S2_def S3_def S4_def S5_def S6_def S7_def S8_def

lemma bit_one_zero: "bit (Suc 0) 0"
  by (simp add: bit_0)

lemmas des_eval = bits_Cons byte_bits_def des_tables select_def des_f_def sboxes_def sbox_def
  nibble_def xor_bits_def upt_0_8 bit_one_zero

text \<open>The subkeys of the test key.\<close>

lemma des_vector_keys:
  "subkeys (bits [0x13, 0x34, 0x57, 0x79, 0x9B, 0xBC, 0xDF, 0xF1]) = map bits
    [[0x1B, 0x02, 0xEF, 0xFC, 0x70, 0x72],
     [0x79, 0xAE, 0xD9, 0xDB, 0xC9, 0xE5],
     [0x55, 0xFC, 0x8A, 0x42, 0xCF, 0x99],
     [0x72, 0xAD, 0xD6, 0xDB, 0x35, 0x1D],
     [0x7C, 0xEC, 0x07, 0xEB, 0x53, 0xA8],
     [0x63, 0xA5, 0x3E, 0x50, 0x7B, 0x2F],
     [0xEC, 0x84, 0xB7, 0xF6, 0x18, 0xBC],
     [0xF7, 0x8A, 0x3A, 0xC1, 0x3B, 0xFB],
     [0xE0, 0xDB, 0xEB, 0xED, 0xE7, 0x81],
     [0xB1, 0xF3, 0x47, 0xBA, 0x46, 0x4F],
     [0x21, 0x5F, 0xD3, 0xDE, 0xD3, 0x86],
     [0x75, 0x71, 0xF5, 0x94, 0x67, 0xE9],
     [0x97, 0xC5, 0xD1, 0xFA, 0xBA, 0x41],
     [0x5F, 0x43, 0xB7, 0xF2, 0xE7, 0x3A],
     [0xBF, 0x91, 0x8D, 0x3D, 0x3F, 0x0A],
     [0xCB, 0x3D, 0x8B, 0x0E, 0x17, 0xF5]]"
  by (simp add: bits_Cons byte_bits_def subkeys_def subkey_def upt_1_17 des_tables select_def
      key_halves_numeral rotate_bits_def Let_def del: key_halves.simps(2))

text \<open>The rounds: each line is one subkey, the halves before it and the new right half.\<close>

definition round_line :: "u8 list \<Rightarrow> u8 list \<Rightarrow> u8 list \<Rightarrow> u8 list \<Rightarrow> bool" where
  "round_line key l r r' \<longleftrightarrow> xor_bits (bits l) (des_f (bits r) (bits key)) = bits r'"

lemma feistel_line: "round_line key l r r' \<Longrightarrow> feistel (bits key) (bits l, bits r) = (bits r, bits r')"
  by (simp add: round_line_def)

lemma des_vector_rounds_1:
  "round_line [0x1B, 0x02, 0xEF, 0xFC, 0x70, 0x72] [0xCC, 0x00, 0xCC, 0xFF]
     [0xF0, 0xAA, 0xF0, 0xAA] [0xEF, 0x4A, 0x65, 0x44]"
  "round_line [0x79, 0xAE, 0xD9, 0xDB, 0xC9, 0xE5] [0xF0, 0xAA, 0xF0, 0xAA]
     [0xEF, 0x4A, 0x65, 0x44] [0xCC, 0x01, 0x77, 0x09]"
  "round_line [0x55, 0xFC, 0x8A, 0x42, 0xCF, 0x99] [0xEF, 0x4A, 0x65, 0x44]
     [0xCC, 0x01, 0x77, 0x09] [0xA2, 0x5C, 0x0B, 0xF4]"
  "round_line [0x72, 0xAD, 0xD6, 0xDB, 0x35, 0x1D] [0xCC, 0x01, 0x77, 0x09]
     [0xA2, 0x5C, 0x0B, 0xF4] [0x77, 0x22, 0x00, 0x45]"
  unfolding round_line_def by (simp_all add: des_eval)

lemma des_vector_rounds_2:
  "round_line [0x7C, 0xEC, 0x07, 0xEB, 0x53, 0xA8] [0xA2, 0x5C, 0x0B, 0xF4]
     [0x77, 0x22, 0x00, 0x45] [0x8A, 0x4F, 0xA6, 0x37]"
  "round_line [0x63, 0xA5, 0x3E, 0x50, 0x7B, 0x2F] [0x77, 0x22, 0x00, 0x45]
     [0x8A, 0x4F, 0xA6, 0x37] [0xE9, 0x67, 0xCD, 0x69]"
  "round_line [0xEC, 0x84, 0xB7, 0xF6, 0x18, 0xBC] [0x8A, 0x4F, 0xA6, 0x37]
     [0xE9, 0x67, 0xCD, 0x69] [0x06, 0x4A, 0xBA, 0x10]"
  "round_line [0xF7, 0x8A, 0x3A, 0xC1, 0x3B, 0xFB] [0xE9, 0x67, 0xCD, 0x69]
     [0x06, 0x4A, 0xBA, 0x10] [0xD5, 0x69, 0x4B, 0x90]"
  unfolding round_line_def by (simp_all add: des_eval)

lemma des_vector_rounds_3:
  "round_line [0xE0, 0xDB, 0xEB, 0xED, 0xE7, 0x81] [0x06, 0x4A, 0xBA, 0x10]
     [0xD5, 0x69, 0x4B, 0x90] [0x24, 0x7C, 0xC6, 0x7A]"
  "round_line [0xB1, 0xF3, 0x47, 0xBA, 0x46, 0x4F] [0xD5, 0x69, 0x4B, 0x90]
     [0x24, 0x7C, 0xC6, 0x7A] [0xB7, 0xD5, 0xD7, 0xB2]"
  "round_line [0x21, 0x5F, 0xD3, 0xDE, 0xD3, 0x86] [0x24, 0x7C, 0xC6, 0x7A]
     [0xB7, 0xD5, 0xD7, 0xB2] [0xC5, 0x78, 0x3C, 0x78]"
  "round_line [0x75, 0x71, 0xF5, 0x94, 0x67, 0xE9] [0xB7, 0xD5, 0xD7, 0xB2]
     [0xC5, 0x78, 0x3C, 0x78] [0x75, 0xBD, 0x18, 0x58]"
  unfolding round_line_def by (simp_all add: des_eval)

lemma des_vector_rounds_4:
  "round_line [0x97, 0xC5, 0xD1, 0xFA, 0xBA, 0x41] [0xC5, 0x78, 0x3C, 0x78]
     [0x75, 0xBD, 0x18, 0x58] [0x18, 0xC3, 0x15, 0x5A]"
  "round_line [0x5F, 0x43, 0xB7, 0xF2, 0xE7, 0x3A] [0x75, 0xBD, 0x18, 0x58]
     [0x18, 0xC3, 0x15, 0x5A] [0xC2, 0x8C, 0x96, 0x0D]"
  "round_line [0xBF, 0x91, 0x8D, 0x3D, 0x3F, 0x0A] [0x18, 0xC3, 0x15, 0x5A]
     [0xC2, 0x8C, 0x96, 0x0D] [0x43, 0x42, 0x32, 0x34]"
  "round_line [0xCB, 0x3D, 0x8B, 0x0E, 0x17, 0xF5] [0xC2, 0x8C, 0x96, 0x0D]
     [0x43, 0x42, 0x32, 0x34] [0x0A, 0x4C, 0xD9, 0x95]"
  unfolding round_line_def by (simp_all add: des_eval)

lemmas des_vector_rounds = des_vector_rounds_1 des_vector_rounds_2 des_vector_rounds_3 des_vector_rounds_4

lemma des_vector:
  "des_bits (subkeys (bits [0x13, 0x34, 0x57, 0x79, 0x9B, 0xBC, 0xDF, 0xF1]))
     (bits [0x01, 0x23, 0x45, 0x67, 0x89, 0xAB, 0xCD, 0xEF])
   = bits [0x85, 0xE8, 0x13, 0x54, 0x0F, 0x0A, 0xB4, 0x05]"
proof -
  have start: "select initial_message_permutation (bits [0x01, 0x23, 0x45, 0x67, 0x89, 0xAB, 0xCD, 0xEF])
      = bits [0xCC, 0x00, 0xCC, 0xFF] @ bits [0xF0, 0xAA, 0xF0, 0xAA]"
    by (simp add: des_eval)
  have "fold feistel (subkeys (bits [0x13, 0x34, 0x57, 0x79, 0x9B, 0xBC, 0xDF, 0xF1]))
      (bits [0xCC, 0x00, 0xCC, 0xFF], bits [0xF0, 0xAA, 0xF0, 0xAA])
    = (bits [0x43, 0x42, 0x32, 0x34], bits [0x0A, 0x4C, 0xD9, 0x95])"
    unfolding des_vector_keys list.map fold_simps des_vector_rounds[THEN feistel_line] by (rule refl)
  moreover have "select final_message_permutation (bits [0x0A, 0x4C, 0xD9, 0x95] @ bits [0x43, 0x42, 0x32, 0x34])
      = bits [0x85, 0xE8, 0x13, 0x54, 0x0F, 0x0A, 0xB4, 0x05]"
    by (simp add: des_eval)
  ultimately show ?thesis by (simp add: des_bits_def Let_def start)
qed

section \<open>Properties\<close>

text \<open>C5: on a message of eight bytes, for any arrays of the declared sizes,
  \<^verbatim>\<open>process_message\<close> accesses no array out of bounds, writes only the first eight bytes of
  its output, and writes the textbook DES image of the message under the sixteen 48-bit round keys
  stored in the key sets, taken in the order of the mode.\<close>

theorem process_message_is_DES:
  assumes "8 \<le> length m" and "8 \<le> length out" and "key_sets_ok ks"
  shows "\<exists>c. process_message m out ks mode = Some (c @ drop 8 out) \<and> length c = 8
    \<and> bits c = des_bits (mode_keys ks mode) (take 64 (bits m))"
  using process_message_bits[OF assms] by metis

theorem process_message_is_DES_witness:
  "\<exists>c. process_message (replicate 8 1) (replicate 8 9) zero_key_sets ENCRYPTION_MODE = Some (c @ drop 8 (replicate 8 9))
    \<and> length c = 8 \<and> bits c = des_bits (mode_keys zero_key_sets ENCRYPTION_MODE) (take 64 (bits (replicate 8 1)))"
  by (rule process_message_is_DES) (simp_all add: zero_key_sets_ok)

text \<open>C6: decryption undoes encryption for every message of eight bytes and every contents of the
  key sets, whether or not they come from the key schedule.\<close>

theorem des_round_trip:
  assumes "length m = 8" and "8 \<le> length out" and "8 \<le> length out'" and "key_sets_ok ks"
  shows "\<exists>c. process_message m out ks ENCRYPTION_MODE = Some c
    \<and> process_message c out' ks DECRYPTION_MODE = Some (m @ drop 8 out')"
proof -
  have m: "8 \<le> length m" using assms(1) by simp
  obtain c where "process_message m out ks ENCRYPTION_MODE = Some (c @ drop 8 out)"
    by (rule process_message_bits[OF m assms(2,4)])
  with process_message_undo[OF assms] show ?thesis by blast
qed

theorem des_round_trip_witness:
  "\<exists>c. process_message [1, 2, 3, 4, 5, 6, 7, 8] (replicate 8 0) zero_key_sets ENCRYPTION_MODE = Some c
    \<and> process_message c (replicate 9 5) zero_key_sets DECRYPTION_MODE = Some ([1, 2, 3, 4, 5, 6, 7, 8] @ drop 8 (replicate 9 5))"
  by (rule des_round_trip) (simp_all add: zero_key_sets_ok)

text \<open>C7: \<^verbatim>\<open>generate_sub_keys\<close> stays within its arrays, and each of its sixteen round
  keys is the textbook subkey or-ed into whatever the key set held before: only set 0 is cleared.\<close>

theorem generate_sub_keys_schedule:
  assumes "8 \<le> length main_key" and "key_sets_ok ks0"
  shows "\<exists>ks. generate_sub_keys main_key ks0 = Some ks \<and> key_sets_ok ks \<and>
    map (\<lambda>i. round_key (ks ! i)) [1..<17] =
      map (\<lambda>i. map2 (\<or>) (round_key (ks0 ! i)) (subkey (bits main_key) i)) [1..<17]"
proof -
  obtain ks where "generate_sub_keys main_key ks0 = Some ks" "key_sets_ok ks"
    "\<And>i. 0 < i \<Longrightarrow> i < 17 \<Longrightarrow> round_key (ks ! i) = map2 (\<or>) (round_key (ks0 ! i)) (subkey (bits main_key) i)"
    by (rule generate_sub_keys_bits[OF assms]) blast
  then show ?thesis by (intro exI[of _ ks] conjI map_cong) simp_all
qed

theorem generate_sub_keys_schedule_witness:
  "\<exists>ks. generate_sub_keys (replicate 8 255) zero_key_sets = Some ks \<and> key_sets_ok ks \<and>
    map (\<lambda>i. round_key (ks ! i)) [1..<17] =
      map (\<lambda>i. map2 (\<or>) (round_key (zero_key_sets ! i)) (subkey (bits (replicate 8 255)) i)) [1..<17]"
  by (rule generate_sub_keys_schedule) (simp_all add: zero_key_sets_ok)

text \<open>The code reproduces the published test vector: with the main key 133457799BBCDFF1 and
  zeroed key sets, the message 0123456789ABCDEF encrypts to 85E813540F0AB405.\<close>

theorem des_known_answer:
  "\<exists>ks. generate_sub_keys [0x13, 0x34, 0x57, 0x79, 0x9B, 0xBC, 0xDF, 0xF1] zero_key_sets = Some ks \<and>
    process_message [0x01, 0x23, 0x45, 0x67, 0x89, 0xAB, 0xCD, 0xEF] (replicate 8 0) ks ENCRYPTION_MODE
      = Some [0x85, 0xE8, 0x13, 0x54, 0x0F, 0x0A, 0xB4, 0x05]"
proof -
  let ?key = "[0x13, 0x34, 0x57, 0x79, 0x9B, 0xBC, 0xDF, 0xF1] :: u8 list"
  let ?m = "[0x01, 0x23, 0x45, 0x67, 0x89, 0xAB, 0xCD, 0xEF] :: u8 list"
  obtain ks where ks: "generate_sub_keys ?key zero_key_sets = Some ks" "key_sets_ok ks"
    "\<And>i. 0 < i \<Longrightarrow> i < 17 \<Longrightarrow> round_key (ks ! i) = map2 (\<or>) (round_key (zero_key_sets ! i)) (subkey (bits ?key) i)"
    by (rule generate_sub_keys_bits[OF _ zero_key_sets_ok, of ?key]) (simp, blast)
  obtain c where c: "process_message ?m (replicate 8 0) ks ENCRYPTION_MODE = Some (c @ drop 8 (replicate 8 0))"
    "bits c = des_bits (mode_keys ks ENCRYPTION_MODE) (take 64 (bits ?m))"
    by (rule process_message_bits[OF _ _ ks(2), of ?m "replicate 8 0" ENCRYPTION_MODE]) simp_all
  have "take 64 (bits ?m) = bits ?m" by simp
  then have "bits c = bits [0x85, 0xE8, 0x13, 0x54, 0x0F, 0x0A, 0xB4, 0x05]"
    using c(2) des_vector by (simp only: mode_keys_schedule[OF ks(3)])
  then have "c = [0x85, 0xE8, 0x13, 0x54, 0x0F, 0x0A, 0xB4, 0x05]" by (rule bits_inj)
  with ks(1) c(1) show ?thesis by simp
qed

end
