(* ===== verification/CString.thy ===== *)
theory CString
  imports Prelude "HOL-Library.Sublist"
begin

text \<open>
  The string functions of the C library that the program uses.  A C string is the list of its
  bytes before the terminator, a pointer into it is the suffix it points at, the null pointer
  that \<^verbatim>\<open>strchr\<close> and \<^verbatim>\<open>strstr\<close> return is \<open>None\<close>.
\<close>

type_synonym cstr = "u8 list"

definition ascii :: "string \<Rightarrow> cstr" where
  "ascii s = map of_char s"

fun strchr :: "cstr \<Rightarrow> u8 \<Rightarrow> cstr option" where
  "strchr [] c = None"
| "strchr (x # xs) c = (if x = c then Some (x # xs) else strchr xs c)"

fun strstr :: "cstr \<Rightarrow> cstr \<Rightarrow> cstr option" where
  "strstr [] pat = (if pat = [] then Some [] else None)"
| "strstr (x # xs) pat = (if prefix pat (x # xs) then Some (x # xs) else strstr xs pat)"

text \<open>\<open>sprintf\<close> of \<^verbatim>\<open>%d\<close>, and \<open>atoi\<close>.\<close>

fun decimal_nat :: "nat \<Rightarrow> cstr" where
  "decimal_nat n = (if n < 10 then [48 + word_of_nat n]
     else decimal_nat (n div 10) @ [48 + word_of_nat (n mod 10)])"

declare decimal_nat.simps [simp del]

definition decimal :: "int \<Rightarrow> cstr" where
  "decimal i = (if i < 0 then 45 # decimal_nat (nat (- i)) else decimal_nat (nat i))"

definition is_digit :: "u8 \<Rightarrow> bool" where
  "is_digit c \<longleftrightarrow> 48 \<le> c \<and> c \<le> 57"

definition is_space :: "u8 \<Rightarrow> bool" where
  "is_space c \<longleftrightarrow> c = 32 \<or> (9 \<le> c \<and> c \<le> 13)"

definition digits_value :: "cstr \<Rightarrow> int" where
  "digits_value s = fold (\<lambda>c v. v * 10 + (uint c - 48)) (takeWhile is_digit s) 0"

definition atoi :: "cstr \<Rightarrow> int" where
  "atoi s =
     (case dropWhile is_space s of
        [] \<Rightarrow> 0
      | c # t \<Rightarrow> int32 (if c = 45 then - digits_value t else if c = 43 then digits_value t
                       else digits_value (c # t)))"

section \<open>Searching\<close>

lemma strchr_None: "strchr s c = None \<longleftrightarrow> c \<notin> set s"
  by (induction s) auto

lemma strchr_append: "c \<notin> set a \<Longrightarrow> strchr (a @ c # b) c = Some (c # b)"
  by (induction a) auto

lemma strchr_suffix: "strchr s c = Some t \<Longrightarrow> \<exists>a b. s = a @ t \<and> t = c # b \<and> c \<notin> set a"
proof (induction s)
  case (Cons x xs)
  show ?case
  proof (cases "x = c")
    case True
    with Cons.prems show ?thesis by (intro exI[of _ "[]"] exI[of _ xs]) auto
  next
    case False
    with Cons obtain a b where "xs = a @ t" "t = c # b" "c \<notin> set a" by auto
    with False have "x # xs = (x # a) @ t \<and> t = c # b \<and> c \<notin> set (x # a)" by auto
    then show ?thesis by blast
  qed
qed simp

lemma strstr_None: "strstr s pat = None \<longleftrightarrow> \<not> sublist pat s"
proof (induction s)
  case Nil
  then show ?case by auto
next
  case (Cons x xs)
  then show ?case by (auto simp: sublist_Cons_right)
qed

lemma strstr_here: "strstr (pat @ b) pat = Some (pat @ b)"
proof -
  have "prefix pat (pat @ b)" by simp
  then show ?thesis by (cases "pat @ b") auto
qed

section \<open>Decimal numbers\<close>

lemma digit_char: "n < 10 \<Longrightarrow> is_digit (48 + word_of_nat n) \<and> uint (48 + word_of_nat n :: u8) = 48 + int n"
proof -
  assume n: "n < 10"
  then have "48 + word_of_nat n = (word_of_nat (48 + n) :: u8)" by simp
  moreover have "unat (word_of_nat (48 + n) :: u8) = 48 + n"
    using n by (simp only: unsigned_of_nat) (simp add: take_bit_nat_eq_self)
  ultimately have "unat (48 + word_of_nat n :: u8) = 48 + n" by metis
  then show ?thesis using n by (simp add: is_digit_def word_le_nat_alt uint_nat)
qed

lemma digits_value_snoc:
  "list_all is_digit ds \<Longrightarrow> is_digit d \<Longrightarrow> \<not> (rest \<noteq> [] \<and> is_digit (hd rest)) \<Longrightarrow>
     digits_value (ds @ d # rest) = digits_value ds * 10 + (uint d - 48)"
proof -
  assume a: "list_all is_digit ds" "is_digit d" "\<not> (rest \<noteq> [] \<and> is_digit (hd rest))"
  have "takeWhile is_digit rest = []" using a(3) by (cases rest) auto
  moreover have ds: "takeWhile is_digit ds = ds" using a(1) by (simp add: list_all_iff)
  ultimately have "takeWhile is_digit (ds @ d # rest) = ds @ [d]"
    using a by (simp add: takeWhile_append list_all_iff)
  then show ?thesis by (simp only: digits_value_def ds) simp
qed

lemma decimal_nat_digits: "list_all is_digit (decimal_nat n) \<and> decimal_nat n \<noteq> []"
proof (induction n rule: decimal_nat.induct)
  case (1 n)
  then show ?case
    by (subst decimal_nat.simps, subst (2) decimal_nat.simps) (auto simp: digit_char)
qed

lemma digits_value_decimal:
  "\<not> (rest \<noteq> [] \<and> is_digit (hd rest)) \<Longrightarrow> digits_value (decimal_nat n @ rest) = int n"
proof (induction n arbitrary: rest rule: decimal_nat.induct)
  case (1 n)
  show ?case
  proof (cases "n < 10")
    case True
    then have e: "decimal_nat n = [48 + word_of_nat n]" by (subst decimal_nat.simps) simp
    show ?thesis
      using digits_value_snoc[of "[]" "48 + word_of_nat n" rest] "1.prems" digit_char[OF True]
      by (simp add: e) (simp add: digits_value_def)
  next
    case False
    then have e: "decimal_nat n = decimal_nat (n div 10) @ [48 + word_of_nat (n mod 10)]"
      by (subst decimal_nat.simps) simp
    have d: "is_digit (48 + word_of_nat (n mod 10))" "uint (48 + word_of_nat (n mod 10) :: u8) = 48 + int (n mod 10)"
      using digit_char[of "n mod 10"] by simp_all
    have "digits_value (decimal_nat n @ rest)
        = digits_value (decimal_nat (n div 10)) * 10 + (uint (48 + word_of_nat (n mod 10) :: u8) - 48)"
      unfolding e append_assoc append_Cons append_Nil
      by (rule digits_value_snoc) (use decimal_nat_digits d "1.prems" in auto)
    also have "digits_value (decimal_nat (n div 10)) = int (n div 10)"
      using "1.IH"[OF False, of "[]"] by simp
    finally have "digits_value (decimal_nat n @ rest) = int (n div 10) * 10 + int (n mod 10)"
      unfolding d(2) by simp
    also have "\<dots> = int (n div 10 * 10 + n mod 10)" by (simp only: of_nat_add of_nat_mult of_nat_numeral)
    finally show ?thesis by simp
  qed
qed

lemma is_digit_not: "is_digit c \<Longrightarrow> c \<noteq> 45 \<and> c \<noteq> 43 \<and> \<not> is_space c"
  by (auto simp: is_digit_def is_space_def word_le_nat_alt)

lemma atoi_decimal:
  assumes "INT_MIN \<le> i" and "i \<le> INT_MAX" and "\<not> (rest \<noteq> [] \<and> is_digit (hd rest))"
  shows "atoi (decimal i @ rest) = i"
proof (cases "i < 0")
  case True
  then show ?thesis
    using assms digits_value_decimal[OF assms(3), of "nat (- i)"]
    by (simp add: atoi_def decimal_def is_space_def)
next
  case False
  obtain c t where d: "decimal_nat (nat i) = c # t"
    using decimal_nat_digits[of "nat i"] by (cases "decimal_nat (nat i)") auto
  then have "is_digit c" using decimal_nat_digits[of "nat i"] by simp
  with False d show ?thesis
    using assms digits_value_decimal[OF assms(3), of "nat i"] is_digit_not[of c]
    by (simp add: atoi_def decimal_def)
qed

lemma decimal_chars: "c \<in> set (decimal i) \<Longrightarrow> is_digit c \<or> c = 45"
  using decimal_nat_digits by (auto simp: decimal_def list_all_iff split: if_splits)

lemma decimal_inj: "decimal a @ x # r = decimal b @ x # s \<Longrightarrow> \<not> is_digit x \<Longrightarrow> x \<noteq> 45 \<Longrightarrow>
   INT_MIN \<le> a \<Longrightarrow> a \<le> INT_MAX \<Longrightarrow> INT_MIN \<le> b \<Longrightarrow> b \<le> INT_MAX \<Longrightarrow> a = b \<and> r = s"
  using atoi_decimal[of a "x # r"] atoi_decimal[of b "x # s"] by auto

end
