(* ===== verification/Crc16.thy ===== *)
theory Crc16
  imports Prelude
begin

text \<open>
  \<^verbatim>\<open>redis/crc16.c\<close>: the table-driven CRC that assigns a key to a cluster slot.  The
  specification is the bitwise division by the polynomial 0x1021, one bit of the message at a
  time; the table is checked against it entry by entry.
\<close>

unbundle bit_operations_syntax

definition crc16tab :: "u16 list" where
  "crc16tab = [
    0x0000, 0x1021, 0x2042, 0x3063, 0x4084, 0x50a5, 0x60c6, 0x70e7, 0x8108, 0x9129, 0xa14a, 0xb16b,
    0xc18c, 0xd1ad, 0xe1ce, 0xf1ef, 0x1231, 0x0210, 0x3273, 0x2252, 0x52b5, 0x4294, 0x72f7, 0x62d6,
    0x9339, 0x8318, 0xb37b, 0xa35a, 0xd3bd, 0xc39c, 0xf3ff, 0xe3de, 0x2462, 0x3443, 0x0420, 0x1401,
    0x64e6, 0x74c7, 0x44a4, 0x5485, 0xa56a, 0xb54b, 0x8528, 0x9509, 0xe5ee, 0xf5cf, 0xc5ac, 0xd58d,
    0x3653, 0x2672, 0x1611, 0x0630, 0x76d7, 0x66f6, 0x5695, 0x46b4, 0xb75b, 0xa77a, 0x9719, 0x8738,
    0xf7df, 0xe7fe, 0xd79d, 0xc7bc, 0x48c4, 0x58e5, 0x6886, 0x78a7, 0x0840, 0x1861, 0x2802, 0x3823,
    0xc9cc, 0xd9ed, 0xe98e, 0xf9af, 0x8948, 0x9969, 0xa90a, 0xb92b, 0x5af5, 0x4ad4, 0x7ab7, 0x6a96,
    0x1a71, 0x0a50, 0x3a33, 0x2a12, 0xdbfd, 0xcbdc, 0xfbbf, 0xeb9e, 0x9b79, 0x8b58, 0xbb3b, 0xab1a,
    0x6ca6, 0x7c87, 0x4ce4, 0x5cc5, 0x2c22, 0x3c03, 0x0c60, 0x1c41, 0xedae, 0xfd8f, 0xcdec, 0xddcd,
    0xad2a, 0xbd0b, 0x8d68, 0x9d49, 0x7e97, 0x6eb6, 0x5ed5, 0x4ef4, 0x3e13, 0x2e32, 0x1e51, 0x0e70,
    0xff9f, 0xefbe, 0xdfdd, 0xcffc, 0xbf1b, 0xaf3a, 0x9f59, 0x8f78, 0x9188, 0x81a9, 0xb1ca, 0xa1eb,
    0xd10c, 0xc12d, 0xf14e, 0xe16f, 0x1080, 0x00a1, 0x30c2, 0x20e3, 0x5004, 0x4025, 0x7046, 0x6067,
    0x83b9, 0x9398, 0xa3fb, 0xb3da, 0xc33d, 0xd31c, 0xe37f, 0xf35e, 0x02b1, 0x1290, 0x22f3, 0x32d2,
    0x4235, 0x5214, 0x6277, 0x7256, 0xb5ea, 0xa5cb, 0x95a8, 0x8589, 0xf56e, 0xe54f, 0xd52c, 0xc50d,
    0x34e2, 0x24c3, 0x14a0, 0x0481, 0x7466, 0x6447, 0x5424, 0x4405, 0xa7db, 0xb7fa, 0x8799, 0x97b8,
    0xe75f, 0xf77e, 0xc71d, 0xd73c, 0x26d3, 0x36f2, 0x0691, 0x16b0, 0x6657, 0x7676, 0x4615, 0x5634,
    0xd94c, 0xc96d, 0xf90e, 0xe92f, 0x99c8, 0x89e9, 0xb98a, 0xa9ab, 0x5844, 0x4865, 0x7806, 0x6827,
    0x18c0, 0x08e1, 0x3882, 0x28a3, 0xcb7d, 0xdb5c, 0xeb3f, 0xfb1e, 0x8bf9, 0x9bd8, 0xabbb, 0xbb9a,
    0x4a75, 0x5a54, 0x6a37, 0x7a16, 0x0af1, 0x1ad0, 0x2ab3, 0x3a92, 0xfd2e, 0xed0f, 0xdd6c, 0xcd4d,
    0xbdaa, 0xad8b, 0x9de8, 0x8dc9, 0x7c26, 0x6c07, 0x5c64, 0x4c45, 0x3ca2, 0x2c83, 0x1ce0, 0x0cc1,
    0xef1f, 0xff3e, 0xcf5d, 0xdf7c, 0xaf9b, 0xbfba, 0x8fd9, 0x9ff8, 0x6e17, 0x7e36, 0x4e55, 0x5e74,
    0x2e93, 0x3eb2, 0x0ed1, 0x1ef0]"

text \<open>The byte is a \<^verbatim>\<open>char\<close>, sign-extended before the exclusive or.\<close>

definition crc16_step :: "u8 \<Rightarrow> u16 \<Rightarrow> u16" where
  "crc16_step c crc =
     (let i = ((ucast (drop_bit 8 crc) XOR (scast c :: u32)) AND 0x00FF)
      in push_bit 8 crc XOR crc16tab ! unat i)"

definition crc16 :: "u8 list \<Rightarrow> nat \<Rightarrow> u16 option" where
  "crc16 buf len = foldM (\<lambda>counter crc. do { c \<leftarrow> load buf counter; Some (crc16_step c crc) }) [0..<len] 0"

section \<open>Bitwise specification\<close>

definition crc_shift :: "u16 \<Rightarrow> u16" where
  "crc_shift x = push_bit 1 x XOR (if bit x 15 then 0x1021 else 0)"

definition crc_byte :: "u8 \<Rightarrow> u16 \<Rightarrow> u16" where
  "crc_byte c crc = (crc_shift ^^ 8) (crc XOR push_bit 8 (ucast c))"

definition crc_spec :: "u8 list \<Rightarrow> u16" where
  "crc_spec bs = fold crc_byte bs 0"

lemma crc_shift_xor: "crc_shift (x XOR y) = crc_shift x XOR crc_shift y"
  by (rule bit_word_eqI) (auto simp: crc_shift_def bit_xor_iff push_bit_xor)

lemma crc_shifts_xor: "(crc_shift ^^ n) (x XOR y) = (crc_shift ^^ n) x XOR (crc_shift ^^ n) y"
  by (induction n) (simp_all add: crc_shift_xor)

lemma crc_shift_push: "\<not> bit x 15 \<Longrightarrow> crc_shift x = push_bit 1 x"
  by (simp add: crc_shift_def)

lemma crc_shifts_low: "n \<le> 8 \<Longrightarrow> (crc_shift ^^ n) (take_bit 8 x) = push_bit n (take_bit 8 x)"
proof (induction n)
  case 0
  then show ?case by simp
next
  case (Suc n)
  have "\<not> bit (push_bit n (take_bit 8 x)) 15"
  proof -
    have "\<not> 15 - n < 8" using Suc.prems by simp
    then show ?thesis by (simp add: bit_simps)
  qed
  then have "crc_shift (push_bit n (take_bit 8 x)) = push_bit 1 (push_bit n (take_bit 8 x))"
    by (rule crc_shift_push)
  with Suc show ?case by (simp add: push_bit_push_bit)
qed

lemma table_length: "length crc16tab = 256"
  by (simp add: crc16tab_def)

text \<open>Every entry follows from the one at half its index.\<close>

lemma table_halving:
  "concat (map (\<lambda>x. [crc_shift x, crc_shift x XOR 0x1021]) (take 128 crc16tab)) = crc16tab"
  by (simp add: crc16tab_def crc_shift_def)

lemma nth_concat_pairs:
  "i < length xs \<Longrightarrow> concat (map (\<lambda>x. [f x, g x]) xs) ! (2 * i) = f (xs ! i)"
  "i < length xs \<Longrightarrow> concat (map (\<lambda>x. [f x, g x]) xs) ! (2 * i + 1) = g (xs ! i)"
proof (induction xs arbitrary: i)
  case (Cons x xs)
  { case 1 then show ?case using Cons.IH(1)[of "i - 1"] by (cases i) auto }
  { case 2 then show ?case using Cons.IH(2)[of "i - 1"] by (cases i) auto }
qed auto

definition table_value :: "nat \<Rightarrow> u16" where
  "table_value i = (crc_shift ^^ 8) (push_bit 8 (word_of_nat i))"

lemma table_value_even: "i < 128 \<Longrightarrow> table_value (2 * i) = crc_shift (table_value i)"
proof -
  assume i: "i < 128"
  have "push_bit 8 (word_of_nat (2 * i)) = push_bit 1 (push_bit 8 (word_of_nat i :: u16))"
    by (simp add: push_bit_eq_mult)
  moreover have "\<not> bit (push_bit 8 (word_of_nat i :: u16)) 15"
  proof -
    have "\<not> bit i 7" using i by (simp add: bit_iff_odd)
    then show ?thesis by (simp add: bit_push_bit_iff bit_of_nat_iff)
  qed
  ultimately have "table_value (2 * i) = (crc_shift ^^ 8) (crc_shift (push_bit 8 (word_of_nat i)))"
    by (simp add: table_value_def crc_shift_push)
  then show ?thesis by (simp add: table_value_def funpow_swap1)
qed

lemma table_value_odd: "table_value (2 * i + 1) = table_value (2 * i) XOR 0x1021"
proof -
  have "push_bit 8 (word_of_nat (2 * i + 1)) = push_bit 8 (word_of_nat (2 * i)) XOR (push_bit 8 1 :: u16)"
  proof -
    have "(word_of_nat (2 * i + 1) :: u16) = word_of_nat (2 * i) OR 1"
      by (simp add: or_one_eq)
    also have "\<dots> = word_of_nat (2 * i) XOR 1" by (rule bit_word_eqI) (auto simp: bit_simps)
    finally show ?thesis by (simp only: push_bit_xor)
  qed
  moreover have "(f ^^ 8) x = f (f (f (f (f (f (f (f x)))))))" for f :: "u16 \<Rightarrow> u16" and x
    by (simp add: numeral_eq_Suc)
  then have "(crc_shift ^^ 8) (push_bit 8 1) = 0x1021" by (simp add: crc_shift_def)
  ultimately show ?thesis by (simp add: table_value_def crc_shifts_xor)
qed

lemma table_eq: "i < 256 \<Longrightarrow> crc16tab ! i = table_value i"
proof (induction i rule: less_induct)
  case (less i)
  let ?h = "\<lambda>x. [crc_shift x, crc_shift x XOR 0x1021]"
  have h: "i div 2 < length (take 128 crc16tab)" using less.prems by (simp add: table_length)
  show ?case
  proof (cases "i = 0")
    case True
    have "(crc_shift ^^ n) 0 = 0" for n by (induction n) (simp_all add: crc_shift_def)
    then show ?thesis using True by (simp add: table_value_def crc16tab_def)
  next
    case False
    then have ih: "take 128 crc16tab ! (i div 2) = table_value (i div 2)"
      using less.IH[of "i div 2"] less.prems by simp
    have i2: "i div 2 < 128" using less.prems by simp
    show ?thesis
    proof (cases "even i")
      case True
      then have e: "i = 2 * (i div 2)" by simp
      have "crc16tab ! i = concat (map ?h (take 128 crc16tab)) ! (2 * (i div 2))"
        using e by (simp only: table_halving)
      also have "\<dots> = crc_shift (table_value (i div 2))" by (simp only: nth_concat_pairs(1)[OF h] ih)
      finally show ?thesis using e by (simp only: table_value_even[OF i2, symmetric])
    next
      case False
      then have e: "i = 2 * (i div 2) + 1" by simp
      have "crc16tab ! i = concat (map ?h (take 128 crc16tab)) ! (2 * (i div 2) + 1)"
        using e by (simp only: table_halving)
      also have "\<dots> = crc_shift (table_value (i div 2)) XOR 0x1021" by (simp only: nth_concat_pairs(2)[OF h] ih)
      also have "\<dots> = table_value (2 * (i div 2) + 1)" by (simp only: table_value_odd table_value_even[OF i2])
      finally show ?thesis using e by simp
    qed
  qed
qed

lemma crc_step_eq: "crc16_step c crc = crc_byte c crc"
proof -
  let ?hi = "drop_bit 8 crc XOR (ucast c :: u16)"
  let ?i = "(ucast (drop_bit 8 crc) XOR (scast c :: u32)) AND 0x00FF"
  have i: "?i = ucast ?hi"
  proof -
    have "x AND 0x00FF = take_bit 8 x" for x :: u32 by (simp add: take_bit_eq_mask mask_eq_exp_minus_1)
    then show ?thesis
      by (simp only:) (rule bit_word_eqI, auto simp: bit_simps dest: bit_imp_le_length)
  qed
  have "take_bit 8 ?hi = ?hi"
    by (rule bit_word_eqI) (auto simp: bit_simps dest: bit_imp_le_length)
  then have small: "unat ?hi < 256" using unat_less_of_take_bit[of 8 ?hi] by simp
  then have u: "unat ?i = unat ?hi" unfolding i
    by (simp add: unsigned_ucast_eq take_bit_nat_eq_self)
  have "crc XOR push_bit 8 (ucast c) = push_bit 8 ?hi XOR take_bit 8 crc"
    by (rule bit_word_eqI) (auto simp: bit_simps)
  then have "crc_byte c crc = (crc_shift ^^ 8) (push_bit 8 ?hi) XOR push_bit 8 (take_bit 8 crc)"
    by (simp only: crc_byte_def crc_shifts_xor crc_shifts_low)
  also have "push_bit 8 (take_bit 8 crc) = push_bit 8 crc" by (rule bit_word_eqI) (auto simp: bit_simps)
  also have "(crc_shift ^^ 8) (push_bit 8 ?hi) = table_value (unat ?hi)" by (simp add: table_value_def)
  finally show ?thesis using u small table_eq[of "unat ?hi"]
    by (simp add: crc16_step_def Let_def xor.commute)
qed

lemma crc16_fold: "len \<le> length buf \<Longrightarrow> crc16 buf len = Some (crc_spec (take len buf))"
  unfolding crc16_def
proof (induction len)
  case 0
  then show ?case by (simp add: crc_spec_def)
next
  case (Suc n)
  then show ?case
    by (simp add: foldM_append foldM_single crc_step_eq crc_spec_def take_Suc_conv_app_nth)
qed

section \<open>Properties\<close>

text \<open>C30: the table-driven \<^verbatim>\<open>crc16\<close> computes the bitwise CRC with polynomial 0x1021 and
  initial value 0 of the first \<^verbatim>\<open>len\<close> bytes, and never reads the table or the buffer out of
  bounds.\<close>

theorem crc16_bitwise:
  assumes "len \<le> length buf"
  shows "crc16 buf len = Some (fold crc_byte (take len buf) 0)"
  using crc16_fold[OF assms] by (simp only: crc_spec_def)

theorem crc16_bitwise_witness: "crc16 [97, 98, 99, 0] 3 = Some (fold crc_byte (take 3 [97, 98, 99, 0]) 0)"
  by (rule crc16_bitwise) simp

text \<open>The published check value of the header comment: the CRC of the nine digits
  123456789 is 0x31C3.\<close>

theorem crc16_check_value:
  "crc16 [49, 50, 51, 52, 53, 54, 55, 56, 57] 9 = Some 0x31C3"
proof -
  have "(f ^^ 8) x = f (f (f (f (f (f (f (f x)))))))" for f :: "u16 \<Rightarrow> u16" and x
    by (simp add: numeral_eq_Suc)
  then show ?thesis
    by (simp add: crc16_fold crc_spec_def crc_byte_def crc_shift_def)
qed

end
