(* ===== verification/Redis.thy ===== *)
theory Redis
  imports CString Crc16
begin

text \<open>
  \<^verbatim>\<open>redis/connect.c\<close> and \<^verbatim>\<open>redis/redis.c\<close>: the client of the Redis cluster.  It
  parses the answer of \<^verbatim>\<open>cluster nodes\<close>, builds the table from hash slots to nodes, and
  routes \<^verbatim>\<open>get\<close> and \<^verbatim>\<open>set\<close> by the CRC of the key.  The hiredis library is a
  parameter: \<open>redis c args w\<close> is the reply of the server behind context \<open>c\<close> to a command
  (\<open>None\<close>: the null reply of a broken connection, which the code dereferences) and the world after
  it; \<open>connect ip port w\<close> opens a context (\<open>None\<close>: a context with its error field set).

  A pointer to a \<open>parseArgv\<close> is its index in \<open>cl_parse\<close>, so that the slot table and the node list
  share the nodes as they do in the code.  Memory from \<^verbatim>\<open>malloc\<close> is indeterminate until it
  is written; using an indeterminate pointer is \<open>None\<close>, like an access out of bounds.
\<close>

unbundle bit_operations_syntax

definition SLOTS :: nat where "SLOTS = 16384"
definition MAXNODES :: nat where "MAXNODES = 50"

datatype 'c pointer = Indeterminate | Null | Valid 'c

record 'c parseArgv =
  n_ip :: cstr
  n_context :: "'c pointer"
  n_port :: int
  n_start_slot :: int
  n_end_slot :: int
  n_slots :: "u8 list"

record 'c clusterInfo =
  cl_len :: nat
  cl_argv :: "cstr list"
  cl_parse :: "'c parseArgv option list"
  slot_to_host :: "nat option list"
  globalContext :: 'c

datatype reply_type = REPLY_STRING | REPLY_STATUS | REPLY_NIL | REPLY_ERROR | REPLY_OTHER

record reply =
  r_type :: reply_type
  r_str :: cstr

section \<open>Parsing the answer of the cluster\<close>

text \<open>
  \<open>from_str_to_cluster\<close>: the lines of the answer but those of slaves.  The copied line is searched
  for \<^verbatim>\<open>slave\<close> before its terminator is written, so the search runs on into the
  uninitialised rest of the heap block: \<open>slack n\<close> is what the n-th block holds there.
\<close>

function cluster_lines :: "(nat \<Rightarrow> cstr) \<Rightarrow> nat \<Rightarrow> cstr \<Rightarrow> cstr list \<Rightarrow> cstr list option" where
  "cluster_lines slack n temp argv =
     (if length argv < MAXNODES then
        (case strchr temp 10 of
           None \<Rightarrow> Some argv
         | Some point \<Rightarrow>
             let line = take (length temp - length point) temp;
                 temp' = tl point
             in if strstr (line @ slack n) (ascii ''slave'') \<noteq> None
                then cluster_lines slack (Suc n) temp' argv
                else cluster_lines slack (Suc n) temp' (argv @ [line]))
      else None)"
  by pat_completeness auto
termination
proof (relation "measure (\<lambda>(slack, n, temp, argv). length temp)", goal_cases)
  case (2 slack n temp argv point line temp')
  then show ?case using strchr_suffix[of temp 10 point] by auto
next
  case (3 slack n temp argv point line temp')
  then show ?case using strchr_suffix[of temp 10 point] by auto
qed simp

declare cluster_lines.simps [simp del]

definition from_str_to_cluster :: "(nat \<Rightarrow> cstr) \<Rightarrow> cstr \<Rightarrow> 'c clusterInfo \<Rightarrow> 'c clusterInfo option" where
  "from_str_to_cluster slack temp cl = do {
     argv \<leftarrow> cluster_lines slack 0 temp [];
     a \<leftarrow> foldM (\<lambda>i a. do { x \<leftarrow> load argv i; store a i x }) [0..<length argv] (cl_argv cl);
     Some (cl\<lparr>cl_argv := a, cl_len := length argv\<rparr>)
   }"

text \<open>The body of the loop of \<open>process_cluterInfo\<close>: address, port, first and last slot of a line.\<close>

definition parse_node :: "cstr \<Rightarrow> (cstr \<times> int \<times> int \<times> int) option" where
  "parse_node line = do {
     ip_start \<leftarrow> strchr line 32;
     port_start \<leftarrow> strchr (tl ip_start) 58;
     port_end \<leftarrow> strchr (tl port_start) 32;
     let ip_start = tl ip_start;
     let ip = take (length ip_start - length port_start) ip_start;
     let port_start = tl port_start;
     let port = atoi (take (length port_start - length port_end) port_start);
     connect_start \<leftarrow> strstr port_end (ascii ''connected'');
     connect_start \<leftarrow> strchr connect_start 32;
     let slot_start = tl connect_start;
     slot_end \<leftarrow> strchr slot_start 45;
     let slot_end = tl slot_end;
     let temp_slot_start = take (length slot_start - length slot_end - 1) slot_start;
     Some (ip, port, atoi temp_slot_start, atoi slot_end)
   }"

text \<open>\<open>junk\<close> is what the allocated nodes hold in their array of slots.\<close>

definition process_cluterInfo :: "(nat \<Rightarrow> u8 list) \<Rightarrow> 'c clusterInfo \<Rightarrow> 'c clusterInfo option" where
  "process_cluterInfo junk cl = do {
     p \<leftarrow> foldM (\<lambda>i p. do {
         line \<leftarrow> load (cl_argv cl) i;
         (ip, port, a, b) \<leftarrow> parse_node line;
         store p i (Some \<lparr>n_ip = ip, n_context = Indeterminate, n_port = port,
           n_start_slot = a, n_end_slot = b, n_slots = junk i\<rparr>)
       }) [0..<cl_len cl] (cl_parse cl);
     Some (cl\<lparr>cl_parse := p\<rparr>)
   }"

section \<open>The slot table\<close>

definition node :: "'c clusterInfo \<Rightarrow> nat \<Rightarrow> 'c parseArgv option" where
  "node cl i = Option.bind (load (cl_parse cl) i) (\<lambda>n. n)"

definition set_node :: "'c clusterInfo \<Rightarrow> nat \<Rightarrow> 'c parseArgv \<Rightarrow> 'c clusterInfo option" where
  "set_node cl i n = map_option (\<lambda>p. cl\<lparr>cl_parse := p\<rparr>) (store (cl_parse cl) i (Some n))"

definition assign_node :: "nat \<Rightarrow> 'c clusterInfo \<Rightarrow> 'c clusterInfo option" where
  "assign_node i cl = do {
     n \<leftarrow> node cl i;
     slots \<leftarrow> memcpy_to (n_slots n) 0 (replicate 16384 0);
     (host, slots) \<leftarrow> foldM (\<lambda>j (host, slots). do {
         host \<leftarrow> (if 0 \<le> j then store host (nat j) (Some i) else None);
         slots \<leftarrow> store slots i 1;
         Some (host, slots)
       }) [n_start_slot n..n_end_slot n] (slot_to_host cl, slots);
     set_node (cl\<lparr>slot_to_host := host\<rparr>) i (n\<lparr>n_slots := slots\<rparr>)
   }"

definition assign_slot :: "'c clusterInfo \<Rightarrow> 'c clusterInfo option" where
  "assign_slot cl = foldM assign_node [0..<cl_len cl] cl"

section \<open>Connections\<close>

type_synonym ('c, 'w) redis_connect = "cstr \<Rightarrow> int \<Rightarrow> 'w \<Rightarrow> 'c option \<times> 'w"
type_synonym ('c, 'w) redis_command = "'c \<Rightarrow> cstr list \<Rightarrow> 'w \<Rightarrow> reply option \<times> 'w"

text \<open>\<open>n\<close> nodes are left; the early return keeps the nodes connected so far.\<close>

fun add_contexts ::
    "('c, 'w) redis_connect \<Rightarrow> nat \<Rightarrow> nat \<Rightarrow> 'c clusterInfo \<Rightarrow> 'w \<Rightarrow> ('c clusterInfo \<times> 'w) option" where
  "add_contexts connect 0 i cl w = Some (cl, w)"
| "add_contexts connect (Suc n) i cl w = do {
     x \<leftarrow> node cl i;
     (case connect (n_ip x) (n_port x) w of
        (None, w) \<Rightarrow> Some (cl, w)
      | (Some c, w) \<Rightarrow> do {
          cl \<leftarrow> set_node cl i (x\<lparr>n_context := Valid c\<rparr>);
          add_contexts connect n (Suc i) cl w
        })
   }"

definition add_context_to_cluster ::
    "('c, 'w) redis_connect \<Rightarrow> 'c clusterInfo \<Rightarrow> 'w \<Rightarrow> ('c clusterInfo \<times> 'w) option" where
  "add_context_to_cluster connect cl w = add_contexts connect (cl_len cl) 0 cl w"

text \<open>\<open>redisFree\<close> of a context leaves the pointer dangling.\<close>

definition remove_context :: "nat \<Rightarrow> 'c clusterInfo \<Rightarrow> 'c clusterInfo option" where
  "remove_context i cl = do {
     n \<leftarrow> node cl i;
     (case n_context n of
        Indeterminate \<Rightarrow> None
      | Null \<Rightarrow> Some cl
      | Valid c \<Rightarrow> set_node cl i (n\<lparr>n_context := Indeterminate\<rparr>))
   }"

definition remove_context_from_cluster :: "'c clusterInfo \<Rightarrow> 'c clusterInfo option" where
  "remove_context_from_cluster cl = foldM remove_context [0..<cl_len cl] cl"

text \<open>\<open>i\<close> counts up to \<open>len\<close>; the loop is left early on any other reply.\<close>

fun flush_nodes :: "('c, 'w) redis_command \<Rightarrow> nat \<Rightarrow> nat \<Rightarrow> 'c clusterInfo \<Rightarrow> 'w \<Rightarrow> (nat \<times> 'w) option" where
  "flush_nodes redis 0 i cl w = Some (i, w)"
| "flush_nodes redis (Suc n) i cl w = do {
     x \<leftarrow> node cl i;
     (case n_context x of
        Valid c \<Rightarrow>
          (case redis c [ascii ''flushdb''] w of
             (None, w) \<Rightarrow> None
           | (Some r, w) \<Rightarrow>
               if r_type r = REPLY_STATUS \<or> r_type r = REPLY_STRING
               then flush_nodes redis n (Suc i) cl w else Some (i, w))
      | _ \<Rightarrow> None)
   }"

definition flushDb :: "('c, 'w) redis_command \<Rightarrow> 'c clusterInfo \<Rightarrow> 'w \<Rightarrow> (int \<times> 'w) option" where
  "flushDb redis cl w = do {
     (i, w) \<leftarrow> flush_nodes redis (cl_len cl) 0 cl w;
     Some (if i = cl_len cl then 0 else -1, w)
   }"

definition disconnectDatabase :: "('c, 'w) redis_command \<Rightarrow> 'c clusterInfo \<Rightarrow> 'w \<Rightarrow> (int \<times> 'w) option" where
  "disconnectDatabase redis cl w = do {
     cl \<leftarrow> remove_context_from_cluster cl;
     flushDb redis cl w
   }"

text \<open>\<open>cluster_info\<close> is \<^verbatim>\<open>__clusterInfo\<close>; \<open>blank\<close> the contents of the allocated struct.\<close>

definition cluster_info ::
    "('c, 'w) redis_connect \<Rightarrow> ('c, 'w) redis_command \<Rightarrow> (nat \<Rightarrow> cstr) \<Rightarrow> (nat \<Rightarrow> u8 list) \<Rightarrow>
     'c clusterInfo \<Rightarrow> 'c \<Rightarrow> 'w \<Rightarrow> ('c clusterInfo \<times> 'w) option" where
  "cluster_info connect redis slack junk blank localContext w =
     (case redis localContext [ascii ''cluster'', ascii ''nodes''] w of
        (None, w) \<Rightarrow> None
      | (Some r, w) \<Rightarrow> do {
          cl \<leftarrow> from_str_to_cluster slack (r_str r) (blank\<lparr>globalContext := localContext\<rparr>);
          cl \<leftarrow> process_cluterInfo junk cl;
          cl \<leftarrow> assign_slot cl;
          add_context_to_cluster connect cl w
        })"

text \<open>
  \<open>connect_cluster\<close> is \<^verbatim>\<open>__connect_cluster\<close>.  A refused connection makes it return
  without a value: an indeterminate pointer, so \<open>None\<close>.
\<close>

definition connect_cluster ::
    "('c, 'w) redis_connect \<Rightarrow> ('c, 'w) redis_command \<Rightarrow> (nat \<Rightarrow> cstr) \<Rightarrow> (nat \<Rightarrow> u8 list) \<Rightarrow>
     'c clusterInfo \<Rightarrow> cstr \<Rightarrow> int \<Rightarrow> 'w \<Rightarrow> ('c clusterInfo \<times> 'w) option" where
  "connect_cluster connect redis slack junk blank ip port w =
     (case connect ip port w of
        (None, w) \<Rightarrow> None
      | (Some c, w) \<Rightarrow> cluster_info connect redis slack junk blank c w)"

section \<open>Commands\<close>

text \<open>\<open>set_redirect\<close> only parses: its result here is the slot, address and port it has copied.\<close>

definition set_redirect :: "cstr \<Rightarrow> (cstr \<times> cstr \<times> cstr) option" where
  "set_redirect str = do {
     slot \<leftarrow> strchr str 32;
     let slot = tl slot;
     ip \<leftarrow> strchr slot 32;
     let ip = tl ip;
     port \<leftarrow> strchr ip 58;
     let port = tl port;
     let s_slot = take (length slot - length ip - 1) slot;
     let s_ip = take (length ip - length port - 1) ip;
     if length port + 1 \<le> 9 then Some (s_slot, s_ip, port) else None
   }"

definition slot_of :: "cstr \<Rightarrow> nat option" where
  "slot_of key = map_option (\<lambda>c. unat (c AND 16383)) (crc16 key (length key))"

text \<open>The node of a slot, the unused test of its \<open>slots\<close> array, and its context.\<close>

definition route :: "'c clusterInfo \<Rightarrow> nat \<Rightarrow> 'c pointer option" where
  "route cl myslot = do {
     h \<leftarrow> load (slot_to_host cl) myslot;
     i \<leftarrow> h;
     n \<leftarrow> node cl i;
     load (n_slots n) myslot;
     Some (n_context n)
   }"

definition moved :: "reply \<Rightarrow> bool" where
  "moved r \<longleftrightarrow> r_type r = REPLY_ERROR \<and> prefix (ascii ''MOVED'') (r_str r)"

definition set_nodb ::
    "('c, 'w) redis_command \<Rightarrow> 'c clusterInfo \<Rightarrow> cstr \<Rightarrow> cstr \<Rightarrow> 'w \<Rightarrow> (int \<times> 'w) option" where
  "set_nodb redis cl key set_in_value w = do {
     myslot \<leftarrow> slot_of key;
     c \<leftarrow> route cl myslot;
     (case c of
        Indeterminate \<Rightarrow> None
      | Null \<Rightarrow> Some (-1, w)
      | Valid c \<Rightarrow>
          (case redis c [ascii ''set'', key, set_in_value] w of
             (None, w) \<Rightarrow> None
           | (Some r, w) \<Rightarrow>
               if r_type r = REPLY_STRING then Some (0, w)
               else if moved r then do { set_redirect (r_str r); Some (-1, w) }
               else if r_type r = REPLY_STATUS then Some (0, w)
               else Some (-1, w)))
   }"

text \<open>\<open>strcpy\<close> into a buffer of \<open>cap\<close> bytes.\<close>

definition strcpy :: "nat \<Rightarrow> cstr \<Rightarrow> cstr option" where
  "strcpy cap s = (if length s + 1 \<le> cap then Some s else None)"

definition get_nodb ::
    "('c, 'w) redis_command \<Rightarrow> 'c clusterInfo \<Rightarrow> nat \<Rightarrow> cstr \<Rightarrow> cstr \<Rightarrow> 'w \<Rightarrow> (int \<times> cstr \<times> 'w) option" where
  "get_nodb redis cl cap key get_in_value w = do {
     myslot \<leftarrow> slot_of key;
     c \<leftarrow> route cl myslot;
     (case c of
        Indeterminate \<Rightarrow> None
      | Null \<Rightarrow> do { v \<leftarrow> strcpy cap (ascii ''conext ==NULL''); Some (-1, v, w) }
      | Valid c \<Rightarrow>
          (case redis c [ascii ''get'', key] w of
             (None, w) \<Rightarrow> None
           | (Some r, w) \<Rightarrow>
               if r_type r = REPLY_STRING then do { v \<leftarrow> strcpy cap (r_str r); Some (0, v, w) }
               else if r_type r = REPLY_NIL then do { v \<leftarrow> strcpy cap (ascii ''nil''); Some (0, v, w) }
               else if moved r then do { v \<leftarrow> strcpy cap (ascii ''redirection''); Some (-1, v, w) }
               else Some (-1, get_in_value, w)))
   }"

text \<open>The key of a database: \<^verbatim>\<open>sprintf(localSetKey, "%d\b%s", dbnum, key)\<close> into 1024 bytes.\<close>

definition db_key :: "int \<Rightarrow> cstr \<Rightarrow> cstr option" where
  "db_key dbnum key = strcpy 1024 (decimal dbnum @ 8 # key)"

definition set_withdb ::
    "('c, 'w) redis_command \<Rightarrow> 'c clusterInfo \<Rightarrow> cstr \<Rightarrow> cstr \<Rightarrow> int \<Rightarrow> 'w \<Rightarrow> (int \<times> 'w) option" where
  "set_withdb redis cl key set_in_value dbnum w = do {
     localSetKey \<leftarrow> db_key dbnum key;
     set_nodb redis cl localSetKey set_in_value w
   }"

definition get_withdb ::
    "('c, 'w) redis_command \<Rightarrow> 'c clusterInfo \<Rightarrow> nat \<Rightarrow> cstr \<Rightarrow> cstr \<Rightarrow> int \<Rightarrow> 'w \<Rightarrow> (int \<times> cstr \<times> 'w) option" where
  "get_withdb redis cl cap key get_in_value dbnum w = do {
     localGetKey \<leftarrow> db_key dbnum key;
     get_nodb redis cl cap localGetKey get_in_value w
   }"

end
