(* ===== verification/RedisTheorems.thy ===== *)
theory RedisTheorems
  imports Redis
begin

text \<open>
  What the Redis client guarantees: the lines and fields of a well-formed answer are recovered,
  the slot table names the owner of every slot, and two keys, or the same key in two databases,
  never share a Redis key.
\<close>

unbundle bit_operations_syntax

section \<open>Lines\<close>

definition is_slave :: "cstr \<Rightarrow> bool" where
  "is_slave l \<longleftrightarrow> sublist (ascii ''slave'') l"

text \<open>The stale memory behind the copied lines makes none of them look like a slave's.\<close>

definition harmless :: "(nat \<Rightarrow> cstr) \<Rightarrow> cstr list \<Rightarrow> bool" where
  "harmless slack ls \<longleftrightarrow> (\<forall>n. list_all (\<lambda>l. \<not> is_slave (l @ slack n)) (filter (\<lambda>l. \<not> is_slave l) ls))"

lemma harmless_line: "harmless slack (l # ls) \<Longrightarrow> is_slave (l @ slack n) \<longleftrightarrow> is_slave l"
  by (auto simp: harmless_def is_slave_def sublist_append split: if_splits)

lemma cluster_lines_append:
  assumes "harmless slack ls" and "list_all (\<lambda>l. 10 \<notin> set l) ls" and "10 \<notin> set rest"
    and "length argv + length (filter (\<lambda>l. \<not> is_slave l) ls) < MAXNODES"
  shows "cluster_lines slack n (concat (map (\<lambda>l. l @ [10]) ls) @ rest) argv
    = Some (argv @ filter (\<lambda>l. \<not> is_slave l) ls)"
  using assms(1,2,4)
proof (induction ls arbitrary: n argv)
  case Nil
  then have "strchr rest 10 = None" using assms(3) by (simp add: strchr_None)
  with Nil show ?case by (subst cluster_lines.simps) simp
next
  case (Cons l ls)
  let ?rest = "concat (map (\<lambda>l. l @ [10]) ls) @ rest"
  have s: "strchr (concat (map (\<lambda>l. l @ [10]) (l # ls)) @ rest) 10 = Some (10 # ?rest)"
    using Cons.prems(2) strchr_append[of 10 l ?rest] by simp
  have slave: "strstr (l @ slack n) (ascii ''slave'') \<noteq> None \<longleftrightarrow> is_slave l"
    using strstr_None[of "l @ slack n" "ascii ''slave''"] harmless_line[OF Cons.prems(1), of n] by (simp add: is_slave_def)
  have h: "harmless slack ls" using Cons.prems(1) by (auto simp: harmless_def split: if_splits)
  have t: "take (length (concat (map (\<lambda>l. l @ [10]) (l # ls)) @ rest) - length (10 # ?rest))
      (concat (map (\<lambda>l. l @ [10]) (l # ls)) @ rest) = l" by simp
  have "length argv < MAXNODES" using Cons.prems(3) by simp
  then have "cluster_lines slack n (concat (map (\<lambda>l. l @ [10]) (l # ls)) @ rest) argv =
      (if is_slave l then cluster_lines slack (Suc n) ?rest argv
       else cluster_lines slack (Suc n) ?rest (argv @ [l]))"
    by (subst cluster_lines.simps) (simp only: s option.case Let_def t slave list.sel if_True split: if_splits)
  then show ?case
    using Cons.IH[of argv "Suc n", OF h] Cons.IH[of "argv @ [l]" "Suc n", OF h] Cons.prems(2,3)
    by (cases "is_slave l") simp_all
qed

lemma from_str_masters:
  assumes "harmless slack ls" and "list_all (\<lambda>l. 10 \<notin> set l) ls" and "10 \<notin> set rest"
    and "ms = filter (\<lambda>l. \<not> is_slave l) ls" and "length ms < 50" and "length (cl_argv cl) = 50"
  shows "from_str_to_cluster slack (concat (map (\<lambda>l. l @ [10]) ls) @ rest) cl =
    Some (cl\<lparr>cl_argv := splice (cl_argv cl) 0 ms, cl_len := length ms\<rparr>)"
proof -
  have "cluster_lines slack 0 (concat (map (\<lambda>l. l @ [10]) ls) @ rest) [] = Some ms"
    using cluster_lines_append[OF assms(1-3), where argv = "[]" and n = 0] assms(4,5) by (simp add: MAXNODES_def)
  moreover have "foldM (\<lambda>i a. Option.bind (load ms i) (store a i)) [0..<length ms] (cl_argv cl) = Some (splice (cl_argv cl) 0 ms)"
    using foldM_fill[of "length ms" "load ms" "(!) ms" "cl_argv cl"] assms(5,6) by (simp add: map_nth)
  ultimately show ?thesis by (simp add: from_str_to_cluster_def)
qed

section \<open>Fields\<close>

text \<open>A line of the answer: id, address, port with an optional bus port, flags and times, state, slots.\<close>

definition node_line :: "cstr \<Rightarrow> cstr \<Rightarrow> int \<Rightarrow> cstr \<Rightarrow> cstr \<Rightarrow> int \<Rightarrow> int \<Rightarrow> cstr" where
  "node_line ident ip port cport mid a b =
     ident @ 32 # ip @ 58 # (decimal port @ cport) @ 32 # mid @ ascii ''connected'' @ 32 # decimal a @ 45 # decimal b"

lemma strstr_after: "pat \<noteq> [] \<Longrightarrow> hd pat \<notin> set a \<Longrightarrow> strstr (a @ pat @ b) pat = Some (pat @ b)"
proof (induction a)
  case Nil
  then show ?case by (simp add: strstr_here)
next
  case (Cons x a)
  then have "\<not> prefix pat (x # a @ pat @ b)" by (cases pat) auto
  with Cons show ?case by simp
qed

lemma connected_chars: "ascii ''connected'' = [99, 111, 110, 110, 101, 99, 116, 101, 100]"
  by (simp add: ascii_def)

lemma take_diff: "take (length (xs @ ys) - length ys) (xs @ ys) = xs"
  by simp

lemma decimal_no: "c \<noteq> 45 \<Longrightarrow> \<not> is_digit c \<Longrightarrow> c \<notin> set (decimal i)"
  using decimal_chars by blast

lemma decimal_no_minus: "0 \<le> i \<Longrightarrow> 45 \<notin> set (decimal i)"
proof
  assume "0 \<le> i" and "45 \<in> set (decimal i)"
  then have "is_digit 45" using decimal_nat_digits[of "nat i"] by (auto simp: decimal_def list_all_iff)
  then show False by (simp add: is_digit_def)
qed

lemma atoi_decimal_Nil: "INT_MIN \<le> i \<Longrightarrow> i \<le> INT_MAX \<Longrightarrow> atoi (decimal i) = i"
  using atoi_decimal[of i "[]"] by simp

lemma parse_node_line:
  assumes "32 \<notin> set ident" and "58 \<notin> set ip" and "32 \<notin> set cport" and "cport = [] \<or> \<not> is_digit (hd cport)"
    and "99 \<notin> set mid" and port: "0 \<le> port" "port \<le> INT_MAX" and a: "0 \<le> a" "a \<le> INT_MAX" and b: "0 \<le> b" "b \<le> INT_MAX"
    and rest: "rest = [] \<or> \<not> is_digit (hd rest)"
  shows "parse_node (node_line ident ip port cport mid a b @ rest) = Some (ip, port, a, b)"
proof -
  have m: "INT_MIN \<le> x" if "0 \<le> x" for x using that by (simp add: INT_MIN_def)
  let ?slots = "decimal a @ 45 # decimal b @ rest"
  let ?conn = "ascii ''connected'' @ 32 # ?slots"
  let ?tail = "32 # mid @ ?conn"
  let ?port = "(decimal port @ cport) @ ?tail"
  have sp: "32 \<notin> set (decimal port @ cport)" using assms(3) decimal_no[of 32 port] by (simp add: is_digit_def)
  have s1: "strchr (node_line ident ip port cport mid a b @ rest) 32 = Some (32 # ip @ 58 # ?port)"
    using strchr_append[OF assms(1)] by (simp add: node_line_def)
  have s2: "strchr (ip @ 58 # ?port) 58 = Some (58 # ?port)" by (rule strchr_append[OF assms(2)])
  have s3: "strchr ?port 32 = Some ?tail" by (rule strchr_append[OF sp])
  have s4: "strstr ?tail (ascii ''connected'') = Some ?conn"
    using strstr_after[of "ascii ''connected''" "32 # mid" "32 # ?slots"] assms(5) by (simp add: connected_chars)
  have s5: "strchr ?conn 32 = Some (32 # ?slots)" by (rule strchr_append) (simp add: connected_chars)
  have s6: "strchr ?slots 45 = Some (45 # decimal b @ rest)" by (rule strchr_append[OF decimal_no_minus[OF a(1)]])
  have t1: "take (length (ip @ 58 # ?port) - length (58 # ?port)) (ip @ 58 # ?port) = ip" by simp
  have t2: "atoi (take (length ?port - length ?tail) ?port) = port"
    unfolding take_diff using atoi_decimal[of port cport] port m assms(4) by auto
  have t3: "atoi (take (length ?slots - length (decimal b @ rest) - 1) ?slots) = a"
    using atoi_decimal_Nil[of a] a m by simp
  have t4: "atoi (decimal b @ rest) = b" using atoi_decimal[of b rest] b m rest by auto
  show ?thesis
    by (simp only: parse_node_def s1 s2 s3 s4 s5 s6 Option.bind.simps list.sel Let_def t1 t2 t3 t4)
qed

section \<open>Slots\<close>

lemma slot_of_eq: "slot_of key = Some (unat (crc_spec key AND 16383))"
  by (simp add: slot_of_def crc16_fold)

lemma slot_less: "slot_of key = Some s \<Longrightarrow> s < SLOTS"
proof -
  assume s: "slot_of key = Some s"
  have "crc_spec key AND 16383 = take_bit 14 (crc_spec key)" by (simp add: take_bit_eq_mask mask_eq_exp_minus_1)
  then have "take_bit 14 (crc_spec key AND 16383) = crc_spec key AND 16383" by simp
  then have "unat (crc_spec key AND 16383) < 2 ^ 14" by (rule unat_less_of_take_bit)
  with s show ?thesis by (simp add: slot_of_eq SLOTS_def)
qed

definition covers :: "'c parseArgv \<Rightarrow> nat \<Rightarrow> bool" where
  "covers n k \<longleftrightarrow> n_start_slot n \<le> int k \<and> int k \<le> n_end_slot n"

definition parsed_ok :: "'c clusterInfo \<Rightarrow> bool" where
  "parsed_ok cl \<longleftrightarrow> cl_len cl \<le> MAXNODES \<and> length (cl_parse cl) = MAXNODES \<and> length (slot_to_host cl) = SLOTS \<and>
     (\<forall>i < cl_len cl. \<exists>n. cl_parse cl ! i = Some n \<and> 0 \<le> n_start_slot n \<and> n_end_slot n < int SLOTS \<and>
        length (n_slots n) = SLOTS)"

lemma assign_loop:
  assumes "i < length slots" and "\<forall>j \<in> set js. 0 \<le> j \<and> j < int (length host)"
  shows "\<exists>host'. foldM (\<lambda>j (host, slots). do {
         host \<leftarrow> (if 0 \<le> j then store host (nat j) (Some i) else None);
         slots \<leftarrow> store slots i (1 :: u8);
         Some (host, slots)
       }) js (host, slots) = Some (host', if js = [] then slots else slots[i := 1])
    \<and> length host' = length host \<and> (\<forall>k < length host. host' ! k = (if int k \<in> set js then Some i else host ! k))"
  using assms
proof (induction js arbitrary: host slots)
  case (Cons j js)
  obtain host' where h: "foldM (\<lambda>j (host, slots). do {
         host \<leftarrow> (if 0 \<le> j then store host (nat j) (Some i) else None);
         slots \<leftarrow> store slots i (1 :: u8);
         Some (host, slots)
       }) js (host[nat j := Some i], slots[i := 1]) = Some (host', if js = [] then slots[i := 1] else slots[i := 1, i := 1])"
    "length host' = length host"
    "\<forall>k < length host. host' ! k = (if int k \<in> set js then Some i else host[nat j := Some i] ! k)"
    using Cons.IH[of "slots[i := 1]" "host[nat j := Some i]"] Cons.prems by auto
  have "\<forall>k < length host. host' ! k = (if int k \<in> set (j # js) then Some i else host ! k)"
    using h(3) Cons.prems by (auto simp: nth_list_update)
  then show ?case using h Cons.prems by auto
qed simp

definition assigned :: "'c clusterInfo \<Rightarrow> nat \<Rightarrow> 'c clusterInfo \<Rightarrow> bool" where
  "assigned cl0 m cl \<longleftrightarrow> cl_len cl = cl_len cl0 \<and> length (cl_parse cl) = MAXNODES \<and> length (slot_to_host cl) = SLOTS \<and>
     (\<forall>k < SLOTS. slot_to_host cl ! k =
        fold (\<lambda>i h. if covers (the (cl_parse cl0 ! i)) k then Some i else h) [0..<m] (slot_to_host cl0 ! k)) \<and>
     (\<forall>i < m. \<exists>n. cl_parse cl0 ! i = Some n \<and> cl_parse cl ! i = Some (n\<lparr>n_slots :=
        if n_start_slot n \<le> n_end_slot n then (replicate SLOTS 0)[i := 1] else replicate SLOTS 0\<rparr>)) \<and>
     (\<forall>i. m \<le> i \<and> i < MAXNODES \<longrightarrow> cl_parse cl ! i = cl_parse cl0 ! i)"

lemma assign_node_step:
  assumes ok: "parsed_ok cl0" and a: "assigned cl0 m cl" and m: "m < cl_len cl0"
  shows "\<exists>cl'. assign_node m cl = Some cl' \<and> assigned cl0 (Suc m) cl'"
proof -
  obtain n where n: "cl_parse cl0 ! m = Some n" "0 \<le> n_start_slot n" "n_end_slot n < int SLOTS" "length (n_slots n) = SLOTS"
    using ok m by (auto simp: parsed_ok_def)
  have m50: "m < MAXNODES" using ok m by (simp add: parsed_ok_def)
  have len: "length (cl_parse cl) = MAXNODES" "length (slot_to_host cl) = SLOTS" "cl_parse cl ! m = Some n"
    using a n(1) m50 by (auto simp: assigned_def)
  let ?z = "replicate SLOTS 0 :: u8 list"
  let ?js = "[n_start_slot n..n_end_slot n]"
  obtain host where h: "foldM (\<lambda>j (host, slots). do {
         host \<leftarrow> (if 0 \<le> j then store host (nat j) (Some m) else None);
         slots \<leftarrow> store slots m (1 :: u8);
         Some (host, slots)
       }) ?js (slot_to_host cl, ?z) = Some (host, if ?js = [] then ?z else ?z[m := 1])"
    "length host = SLOTS" "\<forall>k < SLOTS. host ! k = (if int k \<in> set ?js then Some m else slot_to_host cl ! k)"
    using assign_loop[of m ?z ?js "slot_to_host cl"] n m50 len(2) by (auto simp: MAXNODES_def SLOTS_def)
  let ?n = "n\<lparr>n_slots := if ?js = [] then ?z else ?z[m := 1]\<rparr>"
  let ?cl = "cl\<lparr>slot_to_host := host, cl_parse := (cl_parse cl)[m := Some ?n]\<rparr>"
  have "memcpy_to (n_slots n) 0 (replicate 16384 0) = Some ?z"
    using n(4) by (simp add: memcpy_to_def splice_def SLOTS_def)
  then have "assign_node m cl = Some ?cl"
    using h(1) len m50 by (simp add: assign_node_def node_def set_node_def)
  moreover have "host ! k = fold (\<lambda>i h. if covers (the (cl_parse cl0 ! i)) k then Some i else h) [0..<Suc m] (slot_to_host cl0 ! k)"
    if "k < SLOTS" for k
    using h(3) a that n(1) by (simp add: assigned_def covers_def)
  then have "assigned cl0 (Suc m) ?cl"
    using a n(1) h(2) len m50 by (auto simp: assigned_def nth_list_update less_Suc_eq)
  ultimately show ?thesis by blast
qed

lemma assign_slot_assigned:
  assumes ok: "parsed_ok cl"
  obtains cl' where "assign_slot cl = Some cl'" and "assigned cl (cl_len cl) cl'"
proof -
  have "\<exists>cl'. foldM assign_node [0..<m] cl = Some cl' \<and> assigned cl m cl'" if "m \<le> cl_len cl" for m
    using that
  proof (induction m)
    case 0
    then show ?case using ok by (simp add: assigned_def parsed_ok_def)
  next
    case (Suc m)
    then obtain cl' where "foldM assign_node [0..<m] cl = Some cl'" "assigned cl m cl'" by auto
    with assign_node_step[OF ok, of m cl'] Suc.prems show ?case
      by (auto simp: foldM_append foldM_single)
  qed
  from this[of "cl_len cl"] that show ?thesis by (auto simp: assign_slot_def)
qed

lemma last_owner:
  assumes "i < m" and "P i" and "\<And>i'. i < i' \<Longrightarrow> i' < m \<Longrightarrow> \<not> P i'"
  shows "fold (\<lambda>i h. if P i then Some i else h) [0..<m] h0 = Some i"
  using assms
proof (induction m)
  case (Suc m)
  then show ?case by (cases "i = m") auto
qed simp

section \<open>The cluster as one store of numbered databases\<close>

text \<open>
  What the code relies on from the servers: \<open>rd w c k\<close> is the value of key k at the node
  behind context c; \<^verbatim>\<open>SET\<close> answers with a status and changes this one value,
  \<^verbatim>\<open>GET\<close> answers with the value as a string, or with nil when there is none.
\<close>

definition redis_laws :: "('c, 'w) redis_command \<Rightarrow> ('w \<Rightarrow> 'c \<Rightarrow> cstr \<Rightarrow> cstr option) \<Rightarrow> bool" where
  "redis_laws redis rd \<longleftrightarrow>
     (\<forall>c k v w. \<exists>r w'. redis c [ascii ''set'', k, v] w = (Some r, w') \<and> r_type r = REPLY_STATUS \<and>
        (\<forall>c' k'. rd w' c' k' = (if c' = c \<and> k' = k then Some v else rd w c' k'))) \<and>
     (\<forall>c k w. \<exists>r. redis c [ascii ''get'', k] w = (Some r, w) \<and>
        (case rd w c k of None \<Rightarrow> r_type r = REPLY_NIL | Some v \<Rightarrow> r_type r = REPLY_STRING \<and> r_str r = v))"

definition cluster_ready :: "'c clusterInfo \<Rightarrow> bool" where
  "cluster_ready cl \<longleftrightarrow> (\<forall>s < SLOTS. \<exists>c. route cl s = Some (Valid c))"

definition db_ok :: "int \<Rightarrow> cstr \<Rightarrow> bool" where
  "db_ok db key \<longleftrightarrow> INT_MIN \<le> db \<and> db \<le> INT_MAX \<and> length (decimal db) + length key + 2 \<le> 1024"

definition context_of :: "'c clusterInfo \<Rightarrow> cstr \<Rightarrow> 'c" where
  "context_of cl k = (case route cl (the (slot_of k)) of Some (Valid c) \<Rightarrow> c)"

definition db_value :: "('w \<Rightarrow> 'c \<Rightarrow> cstr \<Rightarrow> cstr option) \<Rightarrow> 'c clusterInfo \<Rightarrow> 'w \<Rightarrow> int \<Rightarrow> cstr \<Rightarrow> cstr option" where
  "db_value rd cl w db key = (let k = decimal db @ 8 # key in rd w (context_of cl k) k)"

lemma db_key_eq: "db_ok db key \<Longrightarrow> db_key db key = Some (decimal db @ 8 # key)"
  by (simp add: db_key_def strcpy_def db_ok_def)

lemma db_key_inj: "db_ok db key \<Longrightarrow> db_ok db' key' \<Longrightarrow>
   decimal db @ 8 # key = decimal db' @ 8 # key' \<longleftrightarrow> db = db' \<and> key = key'"
  using decimal_inj[of db 8 key db' key'] by (auto simp: db_ok_def is_digit_def)

lemma route_ready: "cluster_ready cl \<Longrightarrow> route cl (the (slot_of k)) = Some (Valid (context_of cl k))"
proof -
  assume "cluster_ready cl"
  moreover have "the (slot_of k) < SLOTS" using slot_less[of k] by (simp add: slot_of_eq)
  ultimately obtain c where "route cl (the (slot_of k)) = Some (Valid c)" by (auto simp: cluster_ready_def)
  then show ?thesis by (simp add: context_of_def)
qed

lemma set_withdb_eq:
  assumes laws: "redis_laws redis rd" and ready: "cluster_ready cl" and ok: "db_ok db key"
  obtains w' where "set_withdb redis cl key v db w = Some (0, w')"
    and "\<And>db' key'. db_ok db' key' \<Longrightarrow> db_value rd cl w' db' key' =
      (if db' = db \<and> key' = key then Some v else db_value rd cl w db' key')"
proof -
  let ?k = "decimal db @ 8 # key"
  let ?c = "context_of cl ?k"
  obtain r w' where r: "redis ?c [ascii ''set'', ?k, v] w = (Some r, w')" "r_type r = REPLY_STATUS"
    "\<forall>c' k'. rd w' c' k' = (if c' = ?c \<and> k' = ?k then Some v else rd w c' k')"
    using laws unfolding redis_laws_def by blast
  have "set_withdb redis cl key v db w = Some (0, w')"
    using r(1,2) route_ready[OF ready, of ?k]
    by (simp add: set_withdb_def db_key_eq[OF ok] set_nodb_def slot_of_eq moved_def)
  moreover have "db_value rd cl w' db' key' = (if db' = db \<and> key' = key then Some v else db_value rd cl w db' key')"
    if "db_ok db' key'" for db' key'
    using r(3) db_key_inj[OF that ok] by (auto simp: db_value_def Let_def)
  ultimately show ?thesis by (rule that)
qed

lemma get_withdb_eq:
  assumes laws: "redis_laws redis rd" and ready: "cluster_ready cl" and ok: "db_ok db key"
    and fits: "4 \<le> cap" "\<And>v. db_value rd cl w db key = Some v \<Longrightarrow> length v < cap"
  shows "get_withdb redis cl cap key old db w =
    Some (0, case db_value rd cl w db key of None \<Rightarrow> ascii ''nil'' | Some v \<Rightarrow> v, w)"
proof -
  let ?k = "decimal db @ 8 # key"
  let ?c = "context_of cl ?k"
  obtain r where r: "redis ?c [ascii ''get'', ?k] w = (Some r, w)"
    "case rd w ?c ?k of None \<Rightarrow> r_type r = REPLY_NIL | Some v \<Rightarrow> r_type r = REPLY_STRING \<and> r_str r = v"
    using laws unfolding redis_laws_def by blast
  have nil: "length (ascii ''nil'') = 3" by (simp add: ascii_def)
  show ?thesis
    using r route_ready[OF ready, of ?k] fits nil
    by (auto simp: get_withdb_def db_key_eq[OF ok] get_nodb_def slot_of_eq db_value_def strcpy_def Let_def
        split: option.splits)
qed

section \<open>Properties\<close>

text \<open>C29: the parser of \<^verbatim>\<open>cluster nodes\<close> recovers the address, the port and the first
  slot range of every well-formed master line, with or without a bus port after the port; whatever
  ranges follow the first one are ignored.\<close>

theorem parse_node_recovers:
  assumes "32 \<notin> set ident" and "58 \<notin> set ip" and "32 \<notin> set cport" and "cport = [] \<or> \<not> is_digit (hd cport)"
    and "99 \<notin> set mid" and "0 \<le> port" "port \<le> INT_MAX" and "0 \<le> a" "a \<le> INT_MAX" and "0 \<le> b" "b \<le> INT_MAX"
    and "rest = [] \<or> \<not> is_digit (hd rest)"
  shows "parse_node (node_line ident ip port cport mid a b @ rest) = Some (ip, port, a, b)"
  using assms by (rule parse_node_line)

theorem parse_node_recovers_witness:
  "parse_node (node_line (ascii ''07c37df'') (ascii ''127.0.0.1'') 30004 (ascii ''@31004'')
     (ascii ''master - 0 14262 4 '') 0 5460 @ ascii '' 10923-11000'') = Some (ascii ''127.0.0.1'', 30004, 0, 5460)"
  by (rule parse_node_recovers) (simp_all add: ascii_def is_digit_def INT_MAX_def)

text \<open>\<^verbatim>\<open>from_str_to_cluster\<close> keeps exactly the lines that do not mention a slave, in
  order, for fewer than 50 of them, unless stale memory behind a copied line makes a master's line look
  like a slave's.\<close>

theorem from_str_to_cluster_masters:
  assumes "harmless slack ls" and "list_all (\<lambda>l. 10 \<notin> set l) ls" and "10 \<notin> set rest"
    and "length (filter (\<lambda>l. \<not> is_slave l) ls) < 50" and "length (cl_argv cl) = 50"
  shows "\<exists>cl'. from_str_to_cluster slack (concat (map (\<lambda>l. l @ [10]) ls) @ rest) cl = Some cl' \<and>
    take (cl_len cl') (cl_argv cl') = filter (\<lambda>l. \<not> is_slave l) ls \<and>
    cl_len cl' = length (filter (\<lambda>l. \<not> is_slave l) ls)"
  using from_str_masters[OF assms(1-3) refl assms(4,5)] assms(4,5) by (simp add: splice_def)

theorem from_str_to_cluster_masters_witness:
  "\<exists>cl'. from_str_to_cluster (\<lambda>n. []) (concat (map (\<lambda>l. l @ [10]) [ascii ''a master'', ascii ''b slave'']) @ [])
      (\<lparr>cl_len = 0, cl_argv = replicate 50 [], cl_parse = [], slot_to_host = [], globalContext = ()\<rparr>) = Some cl' \<and>
    take (cl_len cl') (cl_argv cl') = filter (\<lambda>l. \<not> is_slave l) [ascii ''a master'', ascii ''b slave''] \<and>
    cl_len cl' = length (filter (\<lambda>l. \<not> is_slave l) [ascii ''a master'', ascii ''b slave''])"
  by (rule from_str_to_cluster_masters)
    (simp_all add: ascii_def le_less_trans[OF length_filter_le] harmless_def list_all_iff)

text \<open>After \<^verbatim>\<open>assign_slot\<close> every slot points at the last node whose range covers it;
  but the \<^verbatim>\<open>slots\<close> array of that node has its mark at the node's own number instead of
  at its slots, so the test \<^verbatim>\<open>slots[myslot] != 1\<close> of the callers is true for every slot
  the node owns but at most one.\<close>

theorem assign_slot_owner:
  assumes "parsed_ok cl" and "i < cl_len cl" and "cl_parse cl ! i = Some n" and "covers n k" and "k < SLOTS"
    and "\<And>i' n'. i < i' \<Longrightarrow> i' < cl_len cl \<Longrightarrow> cl_parse cl ! i' = Some n' \<Longrightarrow> \<not> covers n' k"
  shows "\<exists>cl' n'. assign_slot cl = Some cl' \<and> slot_to_host cl' ! k = Some i \<and> cl_parse cl' ! i = Some n' \<and>
    n_context n' = n_context n \<and> n_slots n' = (replicate SLOTS 0)[i := 1]"
proof -
  obtain cl' where cl': "assign_slot cl = Some cl'" "assigned cl (cl_len cl) cl'"
    by (rule assign_slot_assigned[OF assms(1)])
  have "slot_to_host cl' ! k = Some i"
  proof -
    have "\<not> covers (the (cl_parse cl ! i')) k" if "i < i'" "i' < cl_len cl" for i'
      using assms(6)[OF that] assms(1) that(2) by (auto simp: parsed_ok_def)
    then show ?thesis
      using cl'(2) assms(2-5) last_owner[of i "cl_len cl" "\<lambda>i. covers (the (cl_parse cl ! i)) k"]
      by (simp add: assigned_def)
  qed
  moreover have "n_start_slot n \<le> n_end_slot n" using assms(4) by (auto simp: covers_def)
  then have "cl_parse cl' ! i = Some (n\<lparr>n_slots := (replicate SLOTS 0)[i := 1]\<rparr>)"
    using cl'(2) assms(2,3) by (auto simp: assigned_def)
  ultimately show ?thesis using cl'(1) by auto
qed

definition two_nodes :: "unit clusterInfo" where
  "two_nodes = \<lparr>cl_len = 2, cl_argv = replicate 50 [],
     cl_parse = [Some \<lparr>n_ip = [], n_context = Indeterminate, n_port = 7000, n_start_slot = 0, n_end_slot = 8191,
         n_slots = replicate 16384 0\<rparr>,
       Some \<lparr>n_ip = [], n_context = Indeterminate, n_port = 7001, n_start_slot = 8192, n_end_slot = 16383,
         n_slots = replicate 16384 0\<rparr>] @ replicate 48 None,
     slot_to_host = replicate 16384 None, globalContext = ()\<rparr>"

lemma less_2: "i < (2 :: nat) \<longleftrightarrow> i = 0 \<or> i = 1"
  by auto

theorem assign_slot_owner_witness:
  "\<exists>cl' n'. assign_slot two_nodes = Some cl' \<and> slot_to_host cl' ! 9000 = Some 1 \<and> cl_parse cl' ! 1 = Some n' \<and>
    n_context n' = n_context (the (cl_parse two_nodes ! 1)) \<and> n_slots n' = (replicate SLOTS 0)[1 := 1]"
  by (rule assign_slot_owner)
    (auto simp: two_nodes_def parsed_ok_def MAXNODES_def SLOTS_def covers_def less_2)

text \<open>C9: against servers that behave as \<^verbatim>\<open>SET\<close> and \<^verbatim>\<open>GET\<close> are
  documented, a value set under a database number and a key is what \<^verbatim>\<open>get\<close> then returns
  for them, and every other pair of database and key keeps its value: the encoding of the pair in one
  Redis key and its routing over the nodes never mix two pairs up.\<close>

theorem get_after_set:
  assumes "redis_laws redis rd" and "cluster_ready cl" and "db_ok db key" and "db_ok db' key'"
    and "4 \<le> cap" and "length v < cap"
  shows "\<exists>w'. set_withdb redis cl key v db w = Some (0, w') \<and>
    get_withdb redis cl cap key old db w' = Some (0, v, w') \<and>
    db_value rd cl w' db' key' = (if db' = db \<and> key' = key then Some v else db_value rd cl w db' key')"
proof -
  obtain w' where w: "set_withdb redis cl key v db w = Some (0, w')"
    "\<And>db' key'. db_ok db' key' \<Longrightarrow> db_value rd cl w' db' key' =
      (if db' = db \<and> key' = key then Some v else db_value rd cl w db' key')"
    using set_withdb_eq[OF assms(1-3)] by blast
  have "get_withdb redis cl cap key old db w' = Some (0, v, w')"
    using get_withdb_eq[OF assms(1-3), of cap w' old] w(2)[OF assms(3)] assms(5,6) by simp
  with w assms(4) show ?thesis by blast
qed

definition demo_redis :: "(unit, cstr \<Rightarrow> cstr option) redis_command" where
  "demo_redis c args w =
     (case args of
        [s, k, v] \<Rightarrow> (Some \<lparr>r_type = REPLY_STATUS, r_str = ascii ''OK''\<rparr>, w(k \<mapsto> v))
      | [g, k] \<Rightarrow> (Some (case w k of None \<Rightarrow> \<lparr>r_type = REPLY_NIL, r_str = []\<rparr>
                                   | Some v \<Rightarrow> \<lparr>r_type = REPLY_STRING, r_str = v\<rparr>), w)
      | _ \<Rightarrow> (None, w))"

definition demo_cluster :: "unit clusterInfo" where
  "demo_cluster = \<lparr>cl_len = 1, cl_argv = replicate 50 [],
     cl_parse = Some \<lparr>n_ip = [], n_context = Valid (), n_port = 7000, n_start_slot = 0, n_end_slot = 16383,
         n_slots = replicate 16384 0\<rparr> # replicate 49 None,
     slot_to_host = replicate 16384 (Some 0), globalContext = ()\<rparr>"

lemma demo_laws: "redis_laws demo_redis (\<lambda>w c. w)"
  by (auto simp: redis_laws_def demo_redis_def split: option.splits)

lemma demo_ready: "cluster_ready demo_cluster"
  by (simp add: cluster_ready_def route_def demo_cluster_def node_def SLOTS_def)

lemma db_ok_small: "0 \<le> db \<Longrightarrow> db < 10 \<Longrightarrow> length key \<le> 1000 \<Longrightarrow> db_ok db key"
proof -
  assume "0 \<le> db" "db < 10" "length key \<le> 1000"
  moreover from this have "length (decimal db) = 1" by (simp add: decimal_def decimal_nat.simps)
  ultimately show ?thesis by (simp add: db_ok_def INT_MIN_def INT_MAX_def)
qed

theorem get_after_set_witness:
  "\<exists>w'. set_withdb demo_redis demo_cluster (ascii ''42'') (ascii ''7'') 1 (\<lambda>k. None) = Some (0, w') \<and>
    get_withdb demo_redis demo_cluster 80 (ascii ''42'') [] 1 w' = Some (0, ascii ''7'', w') \<and>
    db_value (\<lambda>w c. w) demo_cluster w' 2 (ascii ''42'') =
      (if 2 = (1 :: int) \<and> ascii ''42'' = ascii ''42'' then Some (ascii ''7'')
       else db_value (\<lambda>w c. w) demo_cluster (\<lambda>k. None) 2 (ascii ''42''))"
  by (rule get_after_set[OF demo_laws demo_ready]) (simp_all add: db_ok_small ascii_def)

text \<open>Disconnecting is an error for every non-empty cluster: \<^verbatim>\<open>disconnectDatabase\<close>
  flushes through the contexts that it has just freed.\<close>

theorem disconnect_uses_freed_contexts:
  assumes "0 < cl_len cl"
  shows "disconnectDatabase redis cl w = None"
proof (cases "remove_context_from_cluster cl")
  case (Some cl')
  have keep: "cl_len y = cl_len x \<and> (\<exists>n. node y i = Some n \<and> (case n_context n of Valid c \<Rightarrow> False | _ \<Rightarrow> True)) \<and>
      (\<forall>j. j \<noteq> i \<longrightarrow> node y j = node x j)" if "remove_context i x = Some y" for i x y
    using that
    by (auto simp: remove_context_def set_node_def store_def node_def load_def
        split: Option.bind_splits pointer.splits if_splits)
  have "cl_len y = cl_len x \<and> (0 < m \<longrightarrow> (\<exists>n. node y 0 = Some n \<and> (case n_context n of Valid c \<Rightarrow> False | _ \<Rightarrow> True)))"
    if "foldM remove_context [0..<m] x = Some y" for m x y
    using that
  proof (induction m arbitrary: y)
    case (Suc m)
    then obtain z where z: "foldM remove_context [0..<m] x = Some z" "remove_context m z = Some y"
      by (auto simp: foldM_append foldM_single Option.bind_eq_Some_conv)
    then show ?case using Suc.IH[OF z(1)] keep[OF z(2)] by (cases "m = 0") auto
  qed simp
  from this[of "cl_len cl" cl cl'] obtain n where n: "cl_len cl' = cl_len cl" "node cl' 0 = Some n"
    "case n_context n of Valid c \<Rightarrow> False | _ \<Rightarrow> True"
    using Some assms by (auto simp: remove_context_from_cluster_def)
  then obtain k where "cl_len cl' = Suc k" using assms gr0_implies_Suc by metis
  then have "flushDb redis cl' w = None" using n by (auto simp: flushDb_def split: pointer.splits)
  with Some show ?thesis by (simp add: disconnectDatabase_def)
qed (simp add: disconnectDatabase_def)

theorem disconnect_uses_freed_contexts_witness: "disconnectDatabase demo_redis demo_cluster (\<lambda>k. None) = None"
  by (rule disconnect_uses_freed_contexts) (simp add: demo_cluster_def)

end
