(* ===== verification/BoundedQueue.thy ===== *)
theory BoundedQueue
  imports Prelude
begin

text \<open>
  The interface between the thread that receives packets and the threads that process them: a
  first-in first-out queue of bounded length.  An operation that would have to wait is
  \<^verbatim>\<open>None\<close>.  The locale states what the two threads rely on; a sequence of operations of any
  implementation then gives the results of the same sequence on a list.
\<close>

datatype 'm queue_op = Put 'm | Get

fun run_ops :: "('m \<Rightarrow> 's \<Rightarrow> 's option) \<Rightarrow> ('s \<Rightarrow> ('a \<times> 's) option) \<Rightarrow> 'm queue_op list \<Rightarrow> 's
    \<Rightarrow> ('a list \<times> 's) option" where
  "run_ops put get [] s = Some ([], s)"
| "run_ops put get (Put m # ops) s = Option.bind (put m s) (run_ops put get ops)"
| "run_ops put get (Get # ops) s = do {
     (x, s) \<leftarrow> get s;
     (xs, s) \<leftarrow> run_ops put get ops s;
     Some (x # xs, s)
   }"

fun puts :: "'m queue_op list \<Rightarrow> 'm list" where
  "puts [] = []"
| "puts (Put m # ops) = m # puts ops"
| "puts (Get # ops) = puts ops"

definition fifo_put :: "nat \<Rightarrow> ('m \<Rightarrow> 'a) \<Rightarrow> 'm \<Rightarrow> 'a list \<Rightarrow> 'a list option" where
  "fifo_put cap norm m q = (if length q < cap then Some (q @ [norm m]) else None)"

definition fifo_get :: "'a list \<Rightarrow> ('a \<times> 'a list) option" where
  "fifo_get q = (case q of [] \<Rightarrow> None | x # xs \<Rightarrow> Some (x, xs))"

lemma fifo_get_simps [simp]: "fifo_get [] = None" "fifo_get (x # xs) = Some (x, xs)"
  by (simp_all add: fifo_get_def)

locale bounded_queue =
  fixes ok :: "'s \<Rightarrow> bool"
    and valid :: "'m \<Rightarrow> bool"
    and contents :: "'s \<Rightarrow> 'a list"
    and cap :: nat
    and norm :: "'m \<Rightarrow> 'a"
    and put :: "'m \<Rightarrow> 's \<Rightarrow> 's option"
    and get :: "'s \<Rightarrow> ('a \<times> 's) option"
  assumes put_refines: "ok s \<Longrightarrow> valid m \<Longrightarrow> map_option contents (put m s) = fifo_put cap norm m (contents s)"
    and put_ok: "ok s \<Longrightarrow> valid m \<Longrightarrow> put m s = Some s' \<Longrightarrow> ok s'"
    and get_refines: "ok s \<Longrightarrow> map_option (map_prod id contents) (get s) = fifo_get (contents s)"
    and get_ok: "ok s \<Longrightarrow> get s = Some (x, s') \<Longrightarrow> ok s'"
    and bound: "ok s \<Longrightarrow> length (contents s) \<le> cap"
begin

lemma put_Some: "ok s \<Longrightarrow> valid m \<Longrightarrow> put m s = Some s' \<Longrightarrow> ok s' \<and> contents s' = contents s @ [norm m]"
  using put_refines[of s m] put_ok[of s m s'] by (auto simp: fifo_put_def split: if_splits)

lemma put_None: "ok s \<Longrightarrow> valid m \<Longrightarrow> put m s = None \<Longrightarrow> length (contents s) = cap"
  using put_refines[of s m] bound[of s] by (auto simp: fifo_put_def split: if_splits)

lemma get_Some: "ok s \<Longrightarrow> get s = Some (x, s') \<Longrightarrow> ok s' \<and> contents s = x # contents s'"
  using get_refines[of s] get_ok[of s x s'] by (auto simp: fifo_get_def split: list.splits)

lemma get_None: "ok s \<Longrightarrow> get s = None \<Longrightarrow> contents s = []"
  using get_refines[of s] by (auto simp: fifo_get_def split: list.splits)

text \<open>Refinement: running operations on the implementation and looking at its contents is running
  them on a list, the blocking of an operation included.\<close>

lemma run_refines:
  assumes "ok s" and "list_all valid (puts ops)"
  shows "map_option (map_prod id contents) (run_ops put get ops s)
       = run_ops (fifo_put cap norm) fifo_get ops (contents s)"
  using assms
proof (induction ops arbitrary: s)
  case Nil
  then show ?case by simp
next
  case (Cons op ops)
  show ?case
  proof (cases op)
    case (Put m)
    show ?thesis
    proof (cases "put m s")
      case None
      then show ?thesis using Put Cons.prems put_refines[of s m] by simp
    next
      case (Some s')
      then show ?thesis
        using Put Cons.prems Cons.IH[of s'] put_refines[of s m] put_ok[of s m s'] by (cases "fifo_put cap norm m (contents s)") auto
    qed
  next
    case Get
    show ?thesis
    proof (cases "get s")
      case None
      then show ?thesis using Get Cons.prems get_None[of s] by simp
    next
      case (Some y)
      then obtain x s' where y: "get s = Some (x, s')" by (cases y) auto
      with get_Some[OF Cons.prems(1) y] Cons.IH[of s', symmetric] Cons.prems Get show ?thesis
        by (cases "run_ops put get ops s'") auto
    qed
  qed
qed

text \<open>Nothing is lost, duplicated, reordered or invented.\<close>

lemma run_conserves:
  assumes "ok s" and "list_all valid (puts ops)" and "run_ops put get ops s = Some (xs, s')"
  shows "ok s' \<and> contents s @ map norm (puts ops) = xs @ contents s'"
  using assms
proof (induction ops arbitrary: s xs)
  case Nil
  then show ?case by simp
next
  case (Cons op ops)
  show ?case
  proof (cases op)
    case (Put m)
    then obtain t where "put m s = Some t" "run_ops put get ops t = Some (xs, s')"
      using Cons.prems(3) by (auto split: Option.bind_splits)
    with Cons.IH[of t xs] put_Some[of s m t] Cons.prems(1,2) Put show ?thesis by simp
  next
    case Get
    then obtain x t ys where "get s = Some (x, t)" "run_ops put get ops t = Some (ys, s')" "xs = x # ys"
      using Cons.prems(3) by (auto split: Option.bind_splits)
    with Cons.IH[of t ys] get_Some[of s x t] Cons.prems(1,2) Get show ?thesis by simp
  qed
qed

end

end
