(* ===== verification/Ring.thy ===== *)
theory Ring
  imports Payload BoundedQueue
begin

text \<open>
  \<^verbatim>\<open>ring.h\<close>: the circular buffer of received packets, 4096 cells with 32-bit indices
  masked after every move.  The operations of the two clients, writing at the head and reading at
  the tail, satisfy the interface \<open>bounded_queue\<close> as long as at most 4095 cells are used; one more
  push makes the ring look empty.
\<close>

unbundle bit_operations_syntax

definition RING_SIZE :: nat where "RING_SIZE = 4096"
definition BUFSIZE_ring :: nat where "BUFSIZE_ring = 200"

type_synonym timeval = "int \<times> int"

record epoll_packet =
  pk_buf :: "u8 list"
  pk_fd :: u32
  pk_efd :: u32
  pk_recv :: timeval
  pk_done :: timeval

record ring_buffer =
  head :: u32
  tail :: u32
  cells :: "epoll_packet list"

definition ring_buffer_tail :: "ring_buffer \<Rightarrow> nat" where
  "ring_buffer_tail r = unat (tail r)"

definition ring_buffer_head :: "ring_buffer \<Rightarrow> nat" where
  "ring_buffer_head r = unat (head r)"

definition ring_buffer_push :: "ring_buffer \<Rightarrow> ring_buffer" where
  "ring_buffer_push r = r\<lparr>head := (head r + 1) AND (of_nat RING_SIZE - 1)\<rparr>"

definition ring_buffer_pop :: "ring_buffer \<Rightarrow> ring_buffer" where
  "ring_buffer_pop r = r\<lparr>tail := (tail r + 1) AND (of_nat RING_SIZE - 1)\<rparr>"

definition ring_buffer_used :: "ring_buffer \<Rightarrow> int" where
  "ring_buffer_used r = sint ((head r - tail r) AND (of_nat RING_SIZE - 1))"

definition ring_buffer_avail :: "ring_buffer \<Rightarrow> int" where
  "ring_buffer_avail r = int RING_SIZE - ring_buffer_used r"

definition zero_packet :: epoll_packet where
  "zero_packet = \<lparr>pk_buf = replicate BUFSIZE_ring 0, pk_fd = 0, pk_efd = 0, pk_recv = (0, 0), pk_done = (0, 0)\<rparr>"

definition ring_buffer_init :: ring_buffer where
  "ring_buffer_init = \<lparr>head = 0, tail = 0, cells = replicate RING_SIZE zero_packet\<rparr>"

definition reset_packet :: "epoll_packet \<Rightarrow> epoll_packet" where
  "reset_packet p = p\<lparr>pk_buf := replicate (length (pk_buf p)) 0, pk_fd := 0\<rparr>"

text \<open>
  What \<^verbatim>\<open>processEPOLLIN\<close> does at the head: copy the payload, the descriptors and the time
  of receipt into the cell.
\<close>

type_synonym msg = "u8 list \<times> u32 \<times> u32 \<times> timeval"

definition fill_cell :: "msg \<Rightarrow> epoll_packet \<Rightarrow> epoll_packet option" where
  "fill_cell m p = (case m of (buf, fd, efd, now) \<Rightarrow> do {
     data \<leftarrow> memcpy_from buf 0 PAYLOAD_SIZE;
     b \<leftarrow> memcpy_to (pk_buf p) 0 data;
     Some (p\<lparr>pk_buf := b, pk_fd := fd, pk_efd := efd, pk_recv := now\<rparr>)
   })"

definition ring_write :: "msg \<Rightarrow> ring_buffer \<Rightarrow> ring_buffer option" where
  "ring_write m r = do {
     p \<leftarrow> load (cells r) (ring_buffer_head r);
     p \<leftarrow> fill_cell m p;
     c \<leftarrow> store (cells r) (ring_buffer_head r) p;
     Some (r\<lparr>cells := c\<rparr>)
   }"

definition ring_read :: "ring_buffer \<Rightarrow> epoll_packet option" where
  "ring_read r = load (cells r) (ring_buffer_tail r)"

text \<open>The time of completion, which the processing thread stores in the cell it has already popped.\<close>

definition set_done :: "nat \<Rightarrow> timeval \<Rightarrow> ring_buffer \<Rightarrow> ring_buffer option" where
  "set_done i now r = do {
     p \<leftarrow> load (cells r) i;
     c \<leftarrow> store (cells r) i (p\<lparr>pk_done := now\<rparr>);
     Some (r\<lparr>cells := c\<rparr>)
   }"

section \<open>Indices\<close>

definition ring_ok :: "ring_buffer \<Rightarrow> bool" where
  "ring_ok r \<longleftrightarrow> unat (head r) < 4096 \<and> unat (tail r) < 4096 \<and> length (cells r) = 4096 \<and>
     (\<forall>p \<in> set (cells r). length (pk_buf p) = BUFSIZE_ring)"

definition used :: "ring_buffer \<Rightarrow> nat" where
  "used r = (if unat (tail r) \<le> unat (head r) then unat (head r) - unat (tail r)
     else unat (head r) + 4096 - unat (tail r))"

lemma mask_ring: "(x :: u32) AND (of_nat RING_SIZE - 1) = take_bit 12 x"
  by (simp add: RING_SIZE_def take_bit_eq_mask mask_eq_exp_minus_1)

lemma unat_take_12: "unat (take_bit 12 (x :: u32)) = unat x mod 4096"
  by (simp only: unsigned_take_bit_eq) (simp add: take_bit_eq_mod)

lemma succ_4096: "h < 4096 \<Longrightarrow> (h + 1) mod 4096 = (if h = 4095 then 0 else h + 1 :: nat)"
  by (cases "h = 4095") simp_all

lemma unat_succ_12: "unat (x :: u32) < 4096 \<Longrightarrow>
    unat (take_bit 12 (x + 1)) = (if unat x = 4095 then 0 else unat x + 1)"
proof -
  assume a: "unat x < 4096"
  then have "unat (x + 1) = unat x + 1" by (simp add: unat_plus_if')
  with succ_4096[OF a] show ?thesis by (simp only: unat_take_12)
qed

lemma unat_sub_12:
  assumes "unat (x :: u32) < 4096" and "unat y < 4096"
  shows "unat (take_bit 12 (x - y)) =
    (if unat y \<le> unat x then unat x - unat y else unat x + 4096 - unat y)"
proof (cases "unat y \<le> unat x")
  case True
  then have "unat (x - y) = unat x - unat y" by (simp add: unat_sub word_le_nat_alt)
  with True assms(1) show ?thesis by (simp add: unat_take_12)
next
  case False
  then have "unat (x - y) = 2 ^ 32 + unat x - unat y"
    by (simp add: unat_sub_if_size word_size word_le_nat_alt)
  also have "\<dots> = (unat x + 4096 - unat y) + 4096 * 1048575" using False assms by simp
  finally have "unat (x - y) mod 4096 = (unat x + 4096 - unat y) mod 4096" by (simp only: mod_mult_self2)
  moreover have "unat x + 4096 - unat y < 4096" using False assms(2) by arith
  ultimately show ?thesis using False by (simp only: unat_take_12 mod_less if_False)
qed

lemma ring_buffer_used_eq: "ring_ok r \<Longrightarrow> ring_buffer_used r = int (used r)"
proof -
  assume "ring_ok r"
  then have u: "unat (take_bit 12 (head r - tail r)) = used r"
    by (simp add: ring_ok_def used_def unat_sub_12)
  have "used r < 4096" using \<open>ring_ok r\<close> by (auto simp: ring_ok_def used_def)
  with u have "sint (take_bit 12 (head r - tail r)) = int (unat (take_bit 12 (head r - tail r)))"
    by (intro sint_eq_unat) (simp add: bit_simps)
  with u show ?thesis by (simp only: ring_buffer_used_def mask_ring u)
qed

lemma used_less: "ring_ok r \<Longrightarrow> used r < 4096"
  by (auto simp: ring_ok_def used_def)

lemma push_head: "ring_ok r \<Longrightarrow>
    unat (head (ring_buffer_push r)) = (if unat (head r) = 4095 then 0 else unat (head r) + 1)"
  by (simp add: ring_buffer_push_def mask_ring unat_succ_12 ring_ok_def)

lemma pop_tail: "ring_ok r \<Longrightarrow>
    unat (tail (ring_buffer_pop r)) = (if unat (tail r) = 4095 then 0 else unat (tail r) + 1)"
  by (simp add: ring_buffer_pop_def mask_ring unat_succ_12 ring_ok_def)

lemma push_pop_simps [simp]:
  "tail (ring_buffer_push r) = tail r" "cells (ring_buffer_push r) = cells r"
  "head (ring_buffer_pop r) = head r" "cells (ring_buffer_pop r) = cells r"
  by (simp_all add: ring_buffer_push_def ring_buffer_pop_def)

lemma ring_ok_push: "ring_ok r \<Longrightarrow> ring_ok (ring_buffer_push r)"
  using push_head[of r] by (auto simp: ring_ok_def)

lemma ring_ok_pop: "ring_ok r \<Longrightarrow> ring_ok (ring_buffer_pop r)"
  using pop_tail[of r] by (auto simp: ring_ok_def)

text \<open>A push beyond 4095 used cells makes the ring look empty, a pop of an empty ring makes it
  look full.\<close>

lemma used_push: "ring_ok r \<Longrightarrow> used (ring_buffer_push r) = (if used r = 4095 then 0 else used r + 1)"
  using push_head[of r] by (auto simp: used_def ring_ok_def split: if_splits)

lemma used_pop: "ring_ok r \<Longrightarrow> used (ring_buffer_pop r) = (if used r = 0 then 4095 else used r - 1)"
  using pop_tail[of r] by (auto simp: used_def ring_ok_def split: if_splits)

section \<open>The queue of messages\<close>

definition cell_index :: "ring_buffer \<Rightarrow> nat \<Rightarrow> nat" where
  "cell_index r i = (if unat (tail r) + i < 4096 then unat (tail r) + i else unat (tail r) + i - 4096)"

definition message :: "epoll_packet \<Rightarrow> msg" where
  "message p = (slice 0 PAYLOAD_SIZE (pk_buf p), pk_fd p, pk_efd p, pk_recv p)"

definition items :: "ring_buffer \<Rightarrow> msg list" where
  "items r = map (\<lambda>i. message (cells r ! cell_index r i)) [0..<used r]"

definition msg_ok :: "msg \<Rightarrow> bool" where
  "msg_ok m \<longleftrightarrow> PAYLOAD_SIZE \<le> length (fst m)"

definition sent_message :: "msg \<Rightarrow> msg" where
  "sent_message m = (case m of (buf, fd, efd, now) \<Rightarrow> (slice 0 PAYLOAD_SIZE buf, fd, efd, now))"

lemma length_items [simp]: "length (items r) = used r"
  by (simp add: items_def)

lemma fill_cell_message:
  assumes "msg_ok m" and "length (pk_buf p) = BUFSIZE_ring"
  shows "\<exists>p'. fill_cell m p = Some p' \<and> length (pk_buf p') = BUFSIZE_ring \<and> message p' = sent_message m"
proof -
  obtain buf fd efd now where m: "m = (buf, fd, efd, now)" by (cases m)
  have "length (slice 0 PAYLOAD_SIZE buf) = PAYLOAD_SIZE" using assms(1) by (simp add: m msg_ok_def)
  then show ?thesis
    using assms slice_splice[of 0 "slice 0 PAYLOAD_SIZE buf" "pk_buf p"]
    by (simp add: m fill_cell_def msg_ok_def memcpy_from_def memcpy_to_def message_def sent_message_def
        BUFSIZE_ring_def PAYLOAD_SIZE_def)
qed

lemma ring_write_ok:
  assumes "ring_ok r" and "msg_ok m"
  shows "\<exists>p. ring_write m r = Some (r\<lparr>cells := (cells r)[unat (head r) := p]\<rparr>) \<and>
    length (pk_buf p) = BUFSIZE_ring \<and> message p = sent_message m"
proof -
  have h: "unat (head r) < length (cells r)" using assms(1) by (simp add: ring_ok_def)
  then have "length (pk_buf (cells r ! unat (head r))) = BUFSIZE_ring" using assms(1) by (simp add: ring_ok_def)
  then show ?thesis
    using fill_cell_message[OF assms(2)] h by (fastforce simp: ring_write_def ring_buffer_head_def)
qed

lemma ring_ok_write: "ring_ok r \<Longrightarrow> length (pk_buf p) = BUFSIZE_ring \<Longrightarrow>
    ring_ok (r\<lparr>cells := (cells r)[i := p]\<rparr>)"
  using set_update_subset_insert[of "cells r" i p] by (auto simp: ring_ok_def)

lemma cell_index_used: "ring_ok r \<Longrightarrow> cell_index r (used r) = unat (head r)"
  by (auto simp: cell_index_def used_def ring_ok_def)

lemma cell_index_neq: "ring_ok r \<Longrightarrow> i < used r \<Longrightarrow> cell_index r i \<noteq> unat (head r)"
  by (auto simp: cell_index_def used_def ring_ok_def split: if_splits)

lemma cell_index_pop: "ring_ok r \<Longrightarrow> i < 4095 \<Longrightarrow> cell_index (ring_buffer_pop r) i = cell_index r (Suc i)"
  using pop_tail[of r] by (auto simp: cell_index_def ring_ok_def split: if_splits)

lemma used_cells [simp]: "used (r\<lparr>cells := c\<rparr>) = used r"
  by (simp add: used_def)

lemma cell_index_cells [simp]: "cell_index (r\<lparr>cells := c\<rparr>) = cell_index r"
  by (rule ext) (simp add: cell_index_def)

text \<open>The cell at the head is none of the queue's, so that filling it is invisible until the push.\<close>

lemma items_write: "ring_ok r \<Longrightarrow> items (r\<lparr>cells := (cells r)[unat (head r) := p]\<rparr>) = items r"
proof -
  assume ok: "ring_ok r"
  have "(cells r)[unat (head r) := p] ! cell_index r i = cells r ! cell_index r i" if "i < used r" for i
    using cell_index_neq[OF ok that] by (simp add: nth_list_update_neq)
  then show ?thesis by (simp add: items_def)
qed

lemma items_push:
  assumes "ring_ok r" and "used r < 4095"
  shows "items (ring_buffer_push r) = items r @ [message (cells r ! unat (head r))]"
proof -
  have "cell_index (ring_buffer_push r) = cell_index r" by (rule ext) (simp add: cell_index_def)
  then show ?thesis
    using assms used_push[of r] cell_index_used[of r] by (simp add: items_def)
qed

lemma items_pop:
  assumes "ring_ok r" and "0 < used r"
  shows "items r = message (cells r ! unat (tail r)) # items (ring_buffer_pop r)"
proof -
  obtain n where n: "used r = Suc n" using assms(2) by (cases "used r") auto
  then have "used (ring_buffer_pop r) = n" "n < 4095"
    using used_pop[OF assms(1)] used_less[OF assms(1)] by simp_all
  moreover have "cell_index r 0 = unat (tail r)" using assms(1) by (simp add: cell_index_def ring_ok_def)
  ultimately show ?thesis
    using cell_index_pop[OF assms(1)] by (simp add: items_def n upt_conv_Cons map_Suc_upt[symmetric] del: upt_Suc)
qed

lemma set_done_ok:
  assumes "ring_ok r" and "i < 4096"
  shows "\<exists>p. set_done i now r = Some (r\<lparr>cells := (cells r)[i := p]\<rparr>) \<and> length (pk_buf p) = BUFSIZE_ring \<and>
    message p = message (cells r ! i)"
  using assms
  by (intro exI[of _ "(cells r ! i)\<lparr>pk_done := now\<rparr>"]) (simp add: set_done_def ring_ok_def message_def)

lemma items_same_message:
  "message p = message (cells r ! i) \<Longrightarrow> items (r\<lparr>cells := (cells r)[i := p]\<rparr>) = items r"
  by (auto simp: items_def nth_list_update split: if_splits) (metis list_update_beyond not_le nth_list_update)

section \<open>The interface\<close>

text \<open>
  \<^verbatim>\<open>ring_put\<close> is the producer's side between its lock and its unlock
  (\<^verbatim>\<open>processEPOLLIN\<close>), \<^verbatim>\<open>ring_get\<close> the consumer's side up to its unlock
  (\<^verbatim>\<open>processPackets\<close>); \<^verbatim>\<open>None\<close> is the branch that waits.
\<close>

definition ring_put :: "msg \<Rightarrow> ring_buffer \<Rightarrow> ring_buffer option" where
  "ring_put m r =
    (if ring_buffer_avail r \<le> 1 then None
     else map_option ring_buffer_push (ring_write m r))"

definition ring_get :: "ring_buffer \<Rightarrow> (msg \<times> ring_buffer) option" where
  "ring_get r =
    (if ring_buffer_used r \<le> 0 then None
     else map_option (\<lambda>p. (message p, ring_buffer_pop r)) (ring_read r))"

lemma ring_ok_init: "ring_ok ring_buffer_init"
  by (simp add: ring_ok_def ring_buffer_init_def RING_SIZE_def zero_packet_def)

lemma used_init [simp]: "used ring_buffer_init = 0"
  by (simp add: used_def ring_buffer_init_def)

lemma items_init [simp]: "items ring_buffer_init = []"
  by (simp add: items_def)

lemma guards_eq:
  assumes "ring_ok r"
  shows "ring_buffer_avail r \<le> 1 \<longleftrightarrow> used r = 4095" and "ring_buffer_used r \<le> 0 \<longleftrightarrow> used r = 0"
  using used_less[OF assms] by (auto simp: ring_buffer_avail_def ring_buffer_used_eq[OF assms] RING_SIZE_def)

lemma ring_read_ok: "ring_ok r \<Longrightarrow> ring_read r = Some (cells r ! unat (tail r))"
  by (simp add: ring_read_def ring_buffer_tail_def ring_ok_def)

lemma ring_put_ok:
  assumes "ring_ok r" and "msg_ok m" and "used r \<noteq> 4095"
  shows "\<exists>r'. ring_put m r = Some r' \<and> ring_ok r' \<and> items r' = items r @ [sent_message m]"
proof -
  obtain p where p: "ring_write m r = Some (r\<lparr>cells := (cells r)[unat (head r) := p]\<rparr>)"
    "length (pk_buf p) = BUFSIZE_ring" "message p = sent_message m"
    using ring_write_ok[OF assms(1,2)] by blast
  let ?r = "r\<lparr>cells := (cells r)[unat (head r) := p]\<rparr>"
  have ok: "ring_ok ?r" by (rule ring_ok_write[OF assms(1) p(2)])
  moreover have "used ?r < 4095" using used_less[OF assms(1)] assms(3) by simp
  ultimately have "items (ring_buffer_push ?r) = items r @ [sent_message m]"
    using items_push[OF ok] items_write[OF assms(1)] p(3) assms(1) by (simp add: ring_ok_def)
  then show ?thesis using p(1) ring_ok_push[OF ok] guards_eq[OF assms(1)] assms(3) by (simp add: ring_put_def)
qed

lemma ring_get_ok:
  assumes "ring_ok r" and "used r \<noteq> 0"
  shows "ring_get r = Some (hd (items r), ring_buffer_pop r) \<and> items r = hd (items r) # items (ring_buffer_pop r)"
  using items_pop[OF assms(1)] assms(2) guards_eq[OF assms(1)] ring_read_ok[OF assms(1)] by (simp add: ring_get_def)

lemma ring_put_full: "ring_ok r \<Longrightarrow> used r = 4095 \<Longrightarrow> ring_put m r = None"
  by (simp add: ring_put_def guards_eq)

lemma ring_get_empty: "ring_ok r \<Longrightarrow> used r = 0 \<Longrightarrow> ring_get r = None"
  by (simp add: ring_get_def guards_eq)

interpretation rq: bounded_queue ring_ok msg_ok items 4095 sent_message ring_put ring_get
proof unfold_locales
  fix s m assume s: "ring_ok s" and m: "msg_ok m"
  show "map_option items (ring_put m s) = fifo_put 4095 sent_message m (items s)"
  proof (cases "used s = 4095")
    case True
    with ring_put_full[OF s] show ?thesis by (simp add: fifo_put_def)
  next
    case False
    moreover have "used s < 4096" by (rule used_less[OF s])
    ultimately show ?thesis using ring_put_ok[OF s m False] by (auto simp: fifo_put_def)
  qed
next
  fix s m s' assume "ring_ok s" "msg_ok m" "ring_put m s = Some s'"
  with ring_put_ok[of s m] ring_put_full[of s m] show "ring_ok s'" by (cases "used s = 4095") simp_all
next
  fix s assume s: "ring_ok s"
  show "map_option (map_prod id items) (ring_get s) = fifo_get (items s)"
  proof (cases "used s = 0")
    case True
    with ring_get_empty[OF s] show ?thesis by (simp add: items_def)
  next
    case False
    obtain x xs where "items s = x # xs" using False by (cases "items s") (simp_all flip: length_items)
    with ring_get_ok[OF s False] show ?thesis by simp
  qed
next
  fix s x s' assume "ring_ok s" "ring_get s = Some (x, s')"
  with ring_get_ok[of s] ring_get_empty[of s] ring_ok_pop[of s] show "ring_ok s'" by (cases "used s = 0") simp_all
next
  fix s assume "ring_ok s"
  with used_less[of s] show "length (items s) \<le> 4095" by simp
qed

section \<open>Properties\<close>

text \<open>C4: used by one thread at a time, the ring is the first-in first-out list of the messages in it:
  every sequence of writes and reads returns the messages the list returns, in the same order, each
  with its 146 bytes, descriptors and time, and waits exactly where the list is empty or holds 4095.\<close>

theorem ring_refines_fifo:
  assumes "ring_ok r" and "list_all msg_ok (puts ops)"
  shows "map_option (map_prod id items) (run_ops ring_put ring_get ops r)
       = run_ops (fifo_put 4095 sent_message) fifo_get ops (items r)"
  by (rule rq.run_refines[OF assms])

theorem ring_refines_fifo_witness:
  "map_option (map_prod id items)
      (run_ops ring_put ring_get [Put (replicate 200 7, 5, 3, (1, 2)), Get, Get] ring_buffer_init)
    = run_ops (fifo_put 4095 sent_message) fifo_get [Put (replicate 200 7, 5, 3, (1, 2)), Get, Get] (items ring_buffer_init)"
  by (rule ring_refines_fifo) (simp_all add: ring_ok_init msg_ok_def PAYLOAD_SIZE_def)

text \<open>The counters of the ring are exact and never leave their range, but they do not saturate:
  the number of used cells counts modulo 4096 under every push and pop, so that a push on a ring with
  4095 used cells makes it empty and a pop of an empty ring makes it hold 4095 cells.\<close>

theorem ring_counts_mod_4096:
  assumes "ring_ok r"
  shows "0 \<le> ring_buffer_used r \<and> ring_buffer_used r < 4096 \<and>
    ring_buffer_used r + ring_buffer_avail r = 4096 \<and>
    ring_buffer_used (ring_buffer_push r) = (ring_buffer_used r + 1) mod 4096 \<and>
    ring_buffer_used (ring_buffer_pop r) = (ring_buffer_used r - 1) mod 4096 \<and>
    ring_buffer_head (ring_buffer_push r) < 4096 \<and> ring_buffer_tail (ring_buffer_pop r) < 4096"
proof -
  have u: "used r < 4096" by (rule used_less[OF assms])
  have "ring_ok (ring_buffer_push r)" "ring_ok (ring_buffer_pop r)"
    using ring_ok_push[OF assms] ring_ok_pop[OF assms] by simp_all
  moreover have "int (if used r = 4095 then 0 else used r + 1) = (int (used r) + 1) mod 4096"
    using u by (cases "used r = 4095") simp_all
  moreover have "int (if used r = 0 then 4095 else used r - 1) = (int (used r) - 1) mod 4096"
    using u by (cases "used r = 0") (simp_all add: of_nat_diff)
  ultimately show ?thesis
    using u used_push[OF assms] used_pop[OF assms] assms
    by (simp add: ring_buffer_used_eq ring_buffer_avail_def RING_SIZE_def ring_buffer_head_def ring_buffer_tail_def ring_ok_def)
qed

theorem ring_counts_mod_4096_witness:
  "0 \<le> ring_buffer_used ring_buffer_init \<and> ring_buffer_used ring_buffer_init < 4096 \<and>
    ring_buffer_used ring_buffer_init + ring_buffer_avail ring_buffer_init = 4096 \<and>
    ring_buffer_used (ring_buffer_push ring_buffer_init) = (ring_buffer_used ring_buffer_init + 1) mod 4096 \<and>
    ring_buffer_used (ring_buffer_pop ring_buffer_init) = (ring_buffer_used ring_buffer_init - 1) mod 4096 \<and>
    ring_buffer_head (ring_buffer_push ring_buffer_init) < 4096 \<and> ring_buffer_tail (ring_buffer_pop ring_buffer_init) < 4096"
  by (rule ring_counts_mod_4096) (rule ring_ok_init)

end
