(* ===== verification/RingThreads.thy ===== *)
theory RingThreads
  imports Ring
begin

text \<open>
  The two threads on a ring: the receiving thread (the tail of \<^verbatim>\<open>processEPOLLIN\<close> in
  \<^verbatim>\<open>server.c\<close>, one thread because \<^verbatim>\<open>MAXPORTS\<close> is 1) and the
  processing thread that owns the ring (the head of the loop of
  \<^verbatim>\<open>processPackets\<close>), as a labelled step relation with one step per statement that
  touches shared state.

  The processing thread never locks the mutex that it waits on and unlocks.  POSIX leaves that
  undefined; the model lets unlocking and waiting release the mutex whoever holds it, which is what a
  default mutex does in practice, and records the misuse.  Statements are taken to be atomic and
  their effects to be visible in program order.  A wait may be woken spuriously, as POSIX allows.
\<close>

section \<open>States and steps\<close>

datatype thread = Producer | Consumer

datatype producer_pc = PIdle | PLock | PTest | PSleep | PWoken | PFill | PPush | PUnlock | PSignal

datatype consumer_pc = CTest | CWait | CSleep | CWoken | CRead | CPop | CUnlock | CSignal | CDone

datatype action = Receive msg | ProducerLock | ProducerWait | ProducerGo | ProducerSpurious
  | ProducerResume | ProducerFill | ProducerPush | ProducerUnlock | ProducerSignal
  | ConsumerWait | ConsumerGo | ConsumerSleep | ConsumerSpurious | ConsumerResume | ConsumerRead
  | ConsumerPop | ConsumerUnlock | ConsumerSignal | ConsumerDone timeval

record ring_sys =
  ring :: ring_buffer
  owner :: "thread option"
  ppc :: producer_pc
  cpc :: consumer_pc
  pending :: msg
  cell :: nat
  sent :: "msg list"
  received :: "msg list"
  misuse :: bool

definition initial :: "ring_sys \<Rightarrow> bool" where
  "initial s \<longleftrightarrow> ring s = ring_buffer_init \<and> owner s = None \<and> ppc s = PIdle \<and> cpc s = CTest \<and>
     sent s = [] \<and> received s = [] \<and> \<not> misuse s"

inductive step :: "action \<Rightarrow> ring_sys \<Rightarrow> ring_sys \<Rightarrow> bool" where
  receive: "ppc s = PIdle \<Longrightarrow> msg_ok m \<Longrightarrow> step (Receive m) s (s\<lparr>ppc := PLock, pending := m\<rparr>)"
| p_lock: "ppc s = PLock \<Longrightarrow> owner s = None \<Longrightarrow>
    step ProducerLock s (s\<lparr>owner := Some Producer, ppc := PTest\<rparr>)"
| p_wait: "ppc s = PTest \<Longrightarrow> ring_buffer_avail (ring s) \<le> 1 \<Longrightarrow>
    step ProducerWait s (s\<lparr>owner := None, ppc := PSleep, misuse := (misuse s \<or> owner s \<noteq> Some Producer)\<rparr>)"
| p_go: "ppc s = PTest \<Longrightarrow> \<not> ring_buffer_avail (ring s) \<le> 1 \<Longrightarrow> step ProducerGo s (s\<lparr>ppc := PFill\<rparr>)"
| p_spurious: "ppc s = PSleep \<Longrightarrow> step ProducerSpurious s (s\<lparr>ppc := PWoken\<rparr>)"
| p_resume: "ppc s = PWoken \<Longrightarrow> owner s = None \<Longrightarrow>
    step ProducerResume s (s\<lparr>owner := Some Producer, ppc := PFill\<rparr>)"
| p_fill: "ppc s = PFill \<Longrightarrow> ring_write (pending s) (ring s) = Some r \<Longrightarrow>
    step ProducerFill s (s\<lparr>ring := r, ppc := PPush\<rparr>)"
| p_push: "ppc s = PPush \<Longrightarrow>
    step ProducerPush s (s\<lparr>ring := ring_buffer_push (ring s), ppc := PUnlock, sent := sent s @ [sent_message (pending s)]\<rparr>)"
| p_unlock: "ppc s = PUnlock \<Longrightarrow>
    step ProducerUnlock s (s\<lparr>owner := None, ppc := PSignal, misuse := (misuse s \<or> owner s \<noteq> Some Producer)\<rparr>)"
| p_signal: "ppc s = PSignal \<Longrightarrow>
    step ProducerSignal s (s\<lparr>ppc := PIdle, cpc := (if cpc s = CSleep then CWoken else cpc s)\<rparr>)"
| c_wait: "cpc s = CTest \<Longrightarrow> ring_buffer_used (ring s) \<le> 0 \<Longrightarrow> step ConsumerWait s (s\<lparr>cpc := CWait\<rparr>)"
| c_go: "cpc s = CTest \<Longrightarrow> \<not> ring_buffer_used (ring s) \<le> 0 \<Longrightarrow> step ConsumerGo s (s\<lparr>cpc := CRead\<rparr>)"
| c_sleep: "cpc s = CWait \<Longrightarrow>
    step ConsumerSleep s (s\<lparr>owner := None, cpc := CSleep, misuse := (misuse s \<or> owner s \<noteq> Some Consumer)\<rparr>)"
| c_spurious: "cpc s = CSleep \<Longrightarrow> step ConsumerSpurious s (s\<lparr>cpc := CWoken\<rparr>)"
| c_resume: "cpc s = CWoken \<Longrightarrow> owner s = None \<Longrightarrow>
    step ConsumerResume s (s\<lparr>owner := Some Consumer, cpc := CRead\<rparr>)"
| c_read: "cpc s = CRead \<Longrightarrow> ring_read (ring s) = Some p \<Longrightarrow>
    step ConsumerRead s (s\<lparr>cpc := CPop, cell := ring_buffer_tail (ring s), received := received s @ [message p]\<rparr>)"
| c_pop: "cpc s = CPop \<Longrightarrow> step ConsumerPop s (s\<lparr>ring := ring_buffer_pop (ring s), cpc := CUnlock\<rparr>)"
| c_unlock: "cpc s = CUnlock \<Longrightarrow>
    step ConsumerUnlock s (s\<lparr>owner := None, cpc := CSignal, misuse := (misuse s \<or> owner s \<noteq> Some Consumer)\<rparr>)"
| c_signal: "cpc s = CSignal \<Longrightarrow>
    step ConsumerSignal s (s\<lparr>cpc := CDone, ppc := (if ppc s = PSleep then PWoken else ppc s)\<rparr>)"
| c_done: "cpc s = CDone \<Longrightarrow> set_done (cell s) now (ring s) = Some r \<Longrightarrow>
    step (ConsumerDone now) s (s\<lparr>ring := r, cpc := CTest\<rparr>)"

text \<open>Runs as lists of actions; \<^verbatim>\<open>allowed\<close> restricts the steps taken.\<close>

inductive run :: "(action \<Rightarrow> ring_sys \<Rightarrow> bool) \<Rightarrow> action list \<Rightarrow> ring_sys \<Rightarrow> ring_sys \<Rightarrow> bool"
  for allowed :: "action \<Rightarrow> ring_sys \<Rightarrow> bool" where
  run_Nil: "run allowed [] s s"
| run_Cons: "step a s t \<Longrightarrow> allowed a s \<Longrightarrow> run allowed as t u \<Longrightarrow> run allowed (a # as) s u"

definition any :: "action \<Rightarrow> ring_sys \<Rightarrow> bool" where
  "any a s = True"

text \<open>A schedule without spurious wake-ups.\<close>

definition not_spurious :: "action \<Rightarrow> ring_sys \<Rightarrow> bool" where
  "not_spurious a s \<longleftrightarrow> a \<noteq> ProducerSpurious \<and> a \<noteq> ConsumerSpurious"

text \<open>A thread resumes from its wait only when what it waited for holds: what a \<^verbatim>\<open>while\<close>
  around the wait would ensure and the \<^verbatim>\<open>if\<close> of the code does not.\<close>

definition guarded :: "action \<Rightarrow> ring_sys \<Rightarrow> bool" where
  "guarded a s \<longleftrightarrow> (a = ProducerResume \<longrightarrow> \<not> ring_buffer_avail (ring s) \<le> 1) \<and>
     (a = ConsumerResume \<longrightarrow> \<not> ring_buffer_used (ring s) \<le> 0)"

lemma run_append: "run al as s t \<Longrightarrow> run al bs t u \<Longrightarrow> run al (as @ bs) s u"
  by (induction rule: run.induct) (auto intro: run.intros)

section \<open>Guarded runs lose nothing\<close>

text \<open>What the processing thread has taken out of the ring: between its read and its pop the last
  message read is still in the ring.\<close>

definition taken :: "ring_sys \<Rightarrow> msg list" where
  "taken s = (if cpc s = CPop then butlast (received s) else received s)"

definition inv :: "ring_sys \<Rightarrow> bool" where
  "inv s \<longleftrightarrow> ring_ok (ring s) \<and> sent s = taken s @ items (ring s) \<and>
     (ppc s \<noteq> PIdle \<longrightarrow> msg_ok (pending s)) \<and>
     (ppc s \<in> {PFill, PPush} \<longrightarrow> used (ring s) < 4095) \<and>
     (ppc s = PPush \<longrightarrow> message (cells (ring s) ! unat (head (ring s))) = sent_message (pending s)) \<and>
     (cpc s \<in> {CRead, CPop} \<longrightarrow> 0 < used (ring s)) \<and>
     (cpc s = CPop \<longrightarrow> received s \<noteq> [] \<and> last (received s) = hd (items (ring s))) \<and>
     (cpc s \<in> {CPop, CUnlock, CSignal, CDone} \<longrightarrow> cell s < 4096)"

lemma inv_initial: "initial s \<Longrightarrow> inv s"
  by (simp add: initial_def inv_def taken_def ring_ok_init)

lemma inv_fill:
  assumes "inv s" and "ppc s = PFill" and "ring_write (pending s) (ring s) = Some r"
  shows "inv (s\<lparr>ring := r, ppc := PPush\<rparr>)"
proof -
  have ok: "ring_ok (ring s)" "msg_ok (pending s)" using assms(1,2) by (simp_all add: inv_def)
  obtain p where p: "r = (ring s)\<lparr>cells := (cells (ring s))[unat (head (ring s)) := p]\<rparr>"
    "length (pk_buf p) = BUFSIZE_ring" "message p = sent_message (pending s)"
    using ring_write_ok[OF ok] assms(3) by auto
  have "ring_ok r" unfolding p(1) by (rule ring_ok_write[OF ok(1) p(2)])
  moreover have "items r = items (ring s)" unfolding p(1) by (rule items_write[OF ok(1)])
  moreover have "cells r ! unat (head r) = p" using ok(1) by (simp add: p(1) ring_ok_def)
  moreover have "used r = used (ring s)" by (simp add: p(1))
  ultimately show ?thesis using assms(1,2) p(3) by (simp add: inv_def taken_def)
qed

lemma inv_push:
  assumes "inv s" and "ppc s = PPush"
  shows "inv (s\<lparr>ring := ring_buffer_push (ring s), ppc := PUnlock, sent := sent s @ [sent_message (pending s)]\<rparr>)"
proof -
  have ok: "ring_ok (ring s)" "used (ring s) < 4095" using assms by (simp_all add: inv_def)
  have "items (ring_buffer_push (ring s)) = items (ring s) @ [sent_message (pending s)]"
    using items_push[OF ok] assms by (simp add: inv_def)
  moreover have "used (ring_buffer_push (ring s)) = used (ring s) + 1" using used_push[OF ok(1)] ok(2) by simp
  moreover have "hd (items (ring s) @ [x]) = hd (items (ring s))" if "cpc s = CPop" for x
  proof -
    have "items (ring s) \<noteq> []" using assms(1) that by (simp add: inv_def flip: length_greater_0_conv)
    then show ?thesis by simp
  qed
  ultimately show ?thesis using assms ring_ok_push[OF ok(1)] by (simp add: inv_def taken_def)
qed

lemma inv_read:
  assumes "inv s" and "cpc s = CRead" and "ring_read (ring s) = Some p"
  shows "inv (s\<lparr>cpc := CPop, cell := ring_buffer_tail (ring s), received := received s @ [message p]\<rparr>)"
proof -
  have ok: "ring_ok (ring s)" "0 < used (ring s)" using assms(1,2) by (simp_all add: inv_def)
  then have "message p = hd (items (ring s))" using items_pop[OF ok] ring_read_ok[OF ok(1)] assms(3) by simp
  moreover have "ring_buffer_tail (ring s) < 4096" using ok(1) by (simp add: ring_buffer_tail_def ring_ok_def)
  ultimately show ?thesis using assms(1,2) by (simp add: inv_def taken_def)
qed

lemma inv_pop:
  assumes "inv s" and "cpc s = CPop"
  shows "inv (s\<lparr>ring := ring_buffer_pop (ring s), cpc := CUnlock\<rparr>)"
proof -
  have ok: "ring_ok (ring s)" "0 < used (ring s)" using assms by (simp_all add: inv_def)
  have "items (ring s) = last (received s) # items (ring_buffer_pop (ring s))"
    using items_pop[OF ok] assms by (simp add: inv_def)
  moreover have "received s = butlast (received s) @ [last (received s)]"
    using assms by (intro append_butlast_last_id[symmetric]) (simp add: inv_def)
  ultimately have "sent s = received s @ items (ring_buffer_pop (ring s))"
    using assms by (simp add: inv_def taken_def)
  moreover have "used (ring_buffer_pop (ring s)) = used (ring s) - 1" using used_pop[OF ok(1)] ok(2) by simp
  ultimately show ?thesis using assms ring_ok_pop[OF ok(1)] by (auto simp: inv_def taken_def)
qed

lemma inv_done:
  assumes "inv s" and "cpc s = CDone" and "set_done (cell s) now (ring s) = Some r"
  shows "inv (s\<lparr>ring := r, cpc := CTest\<rparr>)"
proof -
  have ok: "ring_ok (ring s)" "cell s < 4096" using assms(1,2) by (simp_all add: inv_def)
  obtain p where p: "r = (ring s)\<lparr>cells := (cells (ring s))[cell s := p]\<rparr>"
    "length (pk_buf p) = BUFSIZE_ring" "message p = message (cells (ring s) ! cell s)"
    using set_done_ok[OF ok, of now] assms(3) by auto
  have "ring_ok r" unfolding p(1) by (rule ring_ok_write[OF ok(1) p(2)])
  moreover have "items r = items (ring s)" unfolding p(1) by (rule items_same_message[OF p(3)])
  moreover have "message (cells r ! unat (head r)) = message (cells (ring s) ! unat (head (ring s)))"
    using ok p(3) by (simp add: p(1) ring_ok_def nth_list_update)
  moreover have "used r = used (ring s)" by (simp add: p(1))
  ultimately show ?thesis using assms(1,2) by (simp add: inv_def taken_def)
qed

lemma inv_step: "step a s t \<Longrightarrow> guarded a s \<Longrightarrow> inv s \<Longrightarrow> inv t"
proof (induction rule: step.induct)
  case (p_go s)
  then show ?case using used_less[of "ring s"] by (auto simp: inv_def taken_def guards_eq)
next
  case (p_resume s)
  then show ?case using used_less[of "ring s"] by (auto simp: inv_def taken_def guarded_def guards_eq)
next
  case (c_go s)
  then show ?case by (auto simp: inv_def taken_def guards_eq)
next
  case (c_resume s)
  then show ?case by (auto simp: inv_def taken_def guarded_def guards_eq)
qed (simp_all add: inv_fill inv_push inv_read inv_pop inv_done, simp_all add: inv_def taken_def)

lemma inv_run: "run guarded as s t \<Longrightarrow> inv s \<Longrightarrow> inv t"
  by (induction rule: run.induct) (auto intro: inv_step)

section \<open>Schedules\<close>

text \<open>Given the action, a step is a function of the state, so that a schedule can be executed.\<close>

fun act :: "action \<Rightarrow> ring_sys \<Rightarrow> ring_sys option" where
  "act (Receive m) s = (if ppc s = PIdle \<and> msg_ok m then Some (s\<lparr>ppc := PLock, pending := m\<rparr>) else None)"
| "act ProducerLock s = (if ppc s = PLock \<and> owner s = None
     then Some (s\<lparr>owner := Some Producer, ppc := PTest\<rparr>) else None)"
| "act ProducerWait s = (if ppc s = PTest \<and> ring_buffer_avail (ring s) \<le> 1
     then Some (s\<lparr>owner := None, ppc := PSleep, misuse := (misuse s \<or> owner s \<noteq> Some Producer)\<rparr>) else None)"
| "act ProducerGo s = (if ppc s = PTest \<and> \<not> ring_buffer_avail (ring s) \<le> 1 then Some (s\<lparr>ppc := PFill\<rparr>) else None)"
| "act ProducerSpurious s = (if ppc s = PSleep then Some (s\<lparr>ppc := PWoken\<rparr>) else None)"
| "act ProducerResume s = (if ppc s = PWoken \<and> owner s = None
     then Some (s\<lparr>owner := Some Producer, ppc := PFill\<rparr>) else None)"
| "act ProducerFill s = (if ppc s = PFill
     then map_option (\<lambda>r. s\<lparr>ring := r, ppc := PPush\<rparr>) (ring_write (pending s) (ring s)) else None)"
| "act ProducerPush s = (if ppc s = PPush
     then Some (s\<lparr>ring := ring_buffer_push (ring s), ppc := PUnlock, sent := sent s @ [sent_message (pending s)]\<rparr>)
     else None)"
| "act ProducerUnlock s = (if ppc s = PUnlock
     then Some (s\<lparr>owner := None, ppc := PSignal, misuse := (misuse s \<or> owner s \<noteq> Some Producer)\<rparr>) else None)"
| "act ProducerSignal s = (if ppc s = PSignal
     then Some (s\<lparr>ppc := PIdle, cpc := (if cpc s = CSleep then CWoken else cpc s)\<rparr>) else None)"
| "act ConsumerWait s = (if cpc s = CTest \<and> ring_buffer_used (ring s) \<le> 0 then Some (s\<lparr>cpc := CWait\<rparr>) else None)"
| "act ConsumerGo s = (if cpc s = CTest \<and> \<not> ring_buffer_used (ring s) \<le> 0 then Some (s\<lparr>cpc := CRead\<rparr>) else None)"
| "act ConsumerSleep s = (if cpc s = CWait
     then Some (s\<lparr>owner := None, cpc := CSleep, misuse := (misuse s \<or> owner s \<noteq> Some Consumer)\<rparr>) else None)"
| "act ConsumerSpurious s = (if cpc s = CSleep then Some (s\<lparr>cpc := CWoken\<rparr>) else None)"
| "act ConsumerResume s = (if cpc s = CWoken \<and> owner s = None
     then Some (s\<lparr>owner := Some Consumer, cpc := CRead\<rparr>) else None)"
| "act ConsumerRead s = (if cpc s = CRead
     then map_option (\<lambda>p. s\<lparr>cpc := CPop, cell := ring_buffer_tail (ring s), received := received s @ [message p]\<rparr>)
       (ring_read (ring s)) else None)"
| "act ConsumerPop s = (if cpc s = CPop then Some (s\<lparr>ring := ring_buffer_pop (ring s), cpc := CUnlock\<rparr>) else None)"
| "act ConsumerUnlock s = (if cpc s = CUnlock
     then Some (s\<lparr>owner := None, cpc := CSignal, misuse := (misuse s \<or> owner s \<noteq> Some Consumer)\<rparr>) else None)"
| "act ConsumerSignal s = (if cpc s = CSignal
     then Some (s\<lparr>cpc := CDone, ppc := (if ppc s = PSleep then PWoken else ppc s)\<rparr>) else None)"
| "act (ConsumerDone now) s = (if cpc s = CDone
     then map_option (\<lambda>r. s\<lparr>ring := r, cpc := CTest\<rparr>) (set_done (cell s) now (ring s)) else None)"

lemma step_act: "step a s t \<longleftrightarrow> act a s = Some t"
proof
  show "step a s t \<Longrightarrow> act a s = Some t" by (induction rule: step.induct) simp_all
  show "act a s = Some t \<Longrightarrow> step a s t" using p_signal[of s] c_signal[of s] by (cases a) (auto intro: step.intros split: if_splits)
qed

lemma run_act: "foldM act as s = Some t \<Longrightarrow> (\<And>a s. a \<in> set as \<Longrightarrow> allowed a s) \<Longrightarrow> run allowed as s t"
  by (induction as arbitrary: s) (auto simp: step_act intro!: run.intros split: Option.bind_splits)

definition deliver :: "msg \<Rightarrow> action list" where
  "deliver m = [Receive m, ProducerLock, ProducerGo, ProducerFill, ProducerPush, ProducerUnlock]"

text \<open>The receiving thread puts one message in the ring, up to the signal it still has to send.\<close>

lemma deliver_runs:
  assumes "ring_ok (ring s)" and "msg_ok m" and "used (ring s) < 4095" and "ppc s = PIdle" and "owner s = None"
  shows "\<exists>r p. foldM act (deliver m) s = Some (s\<lparr>ring := r, owner := None, ppc := PSignal, pending := m,
      sent := sent s @ [sent_message m]\<rparr>) \<and> ring_ok r \<and> items r = items (ring s) @ [sent_message m] \<and>
      tail r = tail (ring s) \<and> cells r = (cells (ring s))[unat (head (ring s)) := p]"
proof -
  obtain p where p: "ring_write m (ring s) = Some ((ring s)\<lparr>cells := (cells (ring s))[unat (head (ring s)) := p]\<rparr>)"
    "length (pk_buf p) = BUFSIZE_ring" "message p = sent_message m"
    using ring_write_ok[OF assms(1,2)] by blast
  let ?w = "(ring s)\<lparr>cells := (cells (ring s))[unat (head (ring s)) := p]\<rparr>"
  have ok: "ring_ok ?w" by (rule ring_ok_write[OF assms(1) p(2)])
  have "items (ring_buffer_push ?w) = items (ring s) @ [sent_message m]"
    using items_push[OF ok] items_write[OF assms(1)] assms(1,3) p(3) by (simp add: ring_ok_def)
  moreover have "foldM act (deliver m) s = Some (s\<lparr>ring := ring_buffer_push ?w, owner := None, ppc := PSignal,
      pending := m, sent := sent s @ [sent_message m]\<rparr>)"
    using assms p(1) by (simp add: deliver_def guards_eq)
  ultimately show ?thesis
    using ring_ok_push[OF ok] by (intro exI[of _ "ring_buffer_push ?w"] exI[of _ p]) simp
qed

definition take_one :: "action list" where
  "take_one = [ConsumerGo, ConsumerRead, ConsumerPop, ConsumerUnlock, ConsumerSignal, ConsumerDone (0, 0)]"

text \<open>The processing thread takes one message out while the other is not waiting.\<close>

lemma take_one_runs:
  assumes "ring_ok (ring s)" and "0 < used (ring s)" and "cpc s = CTest" and "ppc s \<noteq> PSleep" and "owner s = None"
  shows "\<exists>r p. foldM act take_one s = Some (s\<lparr>ring := r, owner := None, cpc := CTest, cell := unat (tail (ring s)),
      received := received s @ [hd (items (ring s))], misuse := True\<rparr>) \<and> ring_ok r \<and> items r = tl (items (ring s)) \<and>
      head r = head (ring s) \<and> cells r = (cells (ring s))[unat (tail (ring s)) := p] \<and>
      tail r = tail (ring_buffer_pop (ring s))"
proof -
  have t: "unat (tail (ring s)) < 4096" using assms(1) by (simp add: ring_ok_def)
  have ok: "ring_ok (ring_buffer_pop (ring s))" by (rule ring_ok_pop[OF assms(1)])
  obtain p where p: "set_done (unat (tail (ring s))) (0, 0) (ring_buffer_pop (ring s)) =
      Some ((ring_buffer_pop (ring s))\<lparr>cells := (cells (ring s))[unat (tail (ring s)) := p]\<rparr>)"
    "length (pk_buf p) = BUFSIZE_ring" "message p = message (cells (ring s) ! unat (tail (ring s)))"
    using set_done_ok[OF ok t, of "(0, 0)"] by auto
  let ?r = "(ring_buffer_pop (ring s))\<lparr>cells := (cells (ring s))[unat (tail (ring s)) := p]\<rparr>"
  have "ring_ok ?r" using ring_ok_write[OF ok p(2), of "unat (tail (ring s))"] by simp
  moreover have "items ?r = items (ring_buffer_pop (ring s))"
    using items_same_message[of p "ring_buffer_pop (ring s)" "unat (tail (ring s))"] p(3) by simp
  moreover have "items (ring s) = message (cells (ring s) ! unat (tail (ring s))) # items (ring_buffer_pop (ring s))"
    by (rule items_pop[OF assms(1,2)])
  moreover have "foldM act take_one s = Some (s\<lparr>ring := ?r, owner := None, cpc := CTest, cell := unat (tail (ring s)),
      received := received s @ [message (cells (ring s) ! unat (tail (ring s)))], misuse := True\<rparr>)"
    using assms p(1) ring_read_ok[OF assms(1)] by (simp add: take_one_def guards_eq ring_buffer_tail_def)
  ultimately show ?thesis by (intro exI[of _ ?r] exI[of _ p]) simp
qed

lemma take_many_runs:
  assumes "ring_ok (ring s)" and "cpc s = CTest" and "ppc s = PIdle" and "owner s = None"
  shows "\<exists>as t. foldM act as s = Some t \<and> set as \<subseteq> set take_one \<and> ring_ok (ring t) \<and> cpc t = CTest \<and>
    ppc t = PIdle \<and> used (ring t) = 0 \<and> received t = received s @ items (ring s)"
  using assms
proof (induction "used (ring s)" arbitrary: s)
  case 0
  then show ?case by (intro exI[of _ "[]"] exI[of _ s]) (simp flip: length_0_conv)
next
  case (Suc n)
  obtain r p where r: "foldM act take_one s = Some (s\<lparr>ring := r, owner := None, cpc := CTest, cell := unat (tail (ring s)),
      received := received s @ [hd (items (ring s))], misuse := True\<rparr>)" "ring_ok r" "items r = tl (items (ring s))"
    using take_one_runs[of s] Suc.hyps(2) Suc.prems by auto
  have "used r = n" using arg_cong[OF r(3), of length] Suc.hyps(2) by simp
  moreover have "items (ring s) = hd (items (ring s)) # items r"
    using Suc.hyps(2) r(3) by (cases "items (ring s)") (simp_all flip: length_items)
  ultimately obtain as t where "foldM act as (s\<lparr>ring := r, owner := None, cpc := CTest, cell := unat (tail (ring s)),
      received := received s @ [hd (items (ring s))], misuse := True\<rparr>) = Some t" "set as \<subseteq> set take_one"
    "ring_ok (ring t)" "cpc t = CTest" "ppc t = PIdle" "used (ring t) = 0" "received t = received s @ items (ring s)"
    using Suc.hyps(1)[of "s\<lparr>ring := r, owner := None, cpc := CTest, cell := unat (tail (ring s)),
      received := received s @ [hd (items (ring s))], misuse := True\<rparr>"] r(2) Suc.prems
    by auto
  then show ?case using r(1) by (intro exI[of _ "take_one @ as"] exI[of _ t]) (simp add: foldM_append)
qed

text \<open>The receiving thread alone fills the ring.\<close>

lemma deliver_many_runs:
  assumes "ring_ok (ring s)" and "msg_ok m" and "ppc s = PIdle" and "owner s = None" and "cpc s = CTest"
    and "used (ring s) + n \<le> 4095"
  shows "\<exists>r x. foldM act (concat (replicate n (deliver m @ [ProducerSignal]))) s = Some (s\<lparr>ring := r, pending := x,
      sent := sent s @ replicate n (sent_message m)\<rparr>) \<and> ring_ok r \<and>
      items r = items (ring s) @ replicate n (sent_message m) \<and> used r = used (ring s) + n"
  using assms
proof (induction n arbitrary: s)
  case 0
  then show ?case by (intro exI[of _ "ring s"] exI[of _ "pending s"]) simp
next
  case (Suc n)
  obtain r where r: "foldM act (deliver m) s = Some (s\<lparr>ring := r, owner := None, ppc := PSignal, pending := m,
      sent := sent s @ [sent_message m]\<rparr>)" "ring_ok r" "items r = items (ring s) @ [sent_message m]"
    using deliver_runs[of s m] Suc.prems by auto
  let ?s = "s\<lparr>ring := r, pending := m, sent := sent s @ [sent_message m]\<rparr>"
  have "s\<lparr>ring := r, owner := None, pending := m, sent := x, ppc := PIdle, cpc := CTest\<rparr> = s\<lparr>ring := r, pending := m, sent := x\<rparr>" for x
    using Suc.prems(3-5) by (cases s) simp
  then have d: "foldM act (deliver m @ [ProducerSignal]) s = Some ?s"
    using r(1) Suc.prems(3-5) by (simp add: foldM_append)
  have "used r = used (ring s) + 1" using arg_cong[OF r(3), of length] by simp
  then obtain r' x where "foldM act (concat (replicate n (deliver m @ [ProducerSignal]))) ?s = Some (?s\<lparr>ring := r', pending := x,
      sent := sent ?s @ replicate n (sent_message m)\<rparr>)" "ring_ok r'"
      "items r' = items r @ replicate n (sent_message m)" "used r' = used r + n"
    using Suc.IH[of ?s] Suc.prems r(2) by auto
  with d \<open>used r = used (ring s) + 1\<close> r(3) show ?case
    by (intro exI[of _ r'] exI[of _ x]) (simp only: replicate_Suc concat.simps foldM_append Option.bind.simps, simp)
qed

end
