(* ===== verification/RingTheorems.thy ===== *)
theory RingTheorems
  imports RingThreads
begin

text \<open>
  The properties of the two threads on a ring: what every run keeps when no thread resumes in vain,
  that the processing thread drains the ring, and the runs in which the code loses, invents or
  forgets packets.
\<close>

definition start :: "msg \<Rightarrow> ring_sys" where
  "start m = \<lparr>ring = ring_buffer_init, owner = None, ppc = PIdle, cpc = CTest, pending = m, cell = 0,
     sent = [], received = [], misuse = False\<rparr>"

definition demo_msg :: msg where
  "demo_msg = (replicate 200 7, 5, 3, (1, 2))"

lemma initial_start: "initial (start m)"
  by (simp add: initial_def start_def)

lemma demo_msg_ok: "msg_ok demo_msg"
  by (simp add: msg_ok_def demo_msg_def PAYLOAD_SIZE_def)

text \<open>C3: in every interleaving in which a thread that wakes from a wait finds what it waited for, the
  messages taken out of the ring followed by those in it are exactly the messages put in, in order, and
  at most 4095 are in it, although the processing thread reads the ring without the lock.\<close>

theorem guarded_runs_conserve:
  assumes "initial s" and "run guarded as s t"
  shows "sent t = taken t @ items (ring t) \<and> length (items (ring t)) \<le> 4095 \<and> ring_ok (ring t)"
proof -
  have "inv t" by (rule inv_run[OF assms(2) inv_initial[OF assms(1)]])
  then show ?thesis using used_less[of "ring t"] by (simp add: inv_def)
qed

text \<open>A run with a wait: the processing thread finds the ring empty and sleeps, two messages arrive, the
  signal of the first wakes it, and it takes that one out.\<close>

definition other_msg :: msg where
  "other_msg = (replicate 200 9, 6, 3, (1, 3))"

lemma guarded_demo:
  obtains as t where "run guarded as (start demo_msg) t" and "ConsumerResume \<in> set as"
    and "taken t = [sent_message demo_msg]" and "items (ring t) = [sent_message other_msg]"
proof -
  have m2: "msg_ok other_msg" by (simp add: msg_ok_def other_msg_def PAYLOAD_SIZE_def)
  let ?s0 = "(start demo_msg)\<lparr>cpc := CSleep, misuse := True\<rparr>"
  have s0: "foldM act [ConsumerWait, ConsumerSleep] (start demo_msg) = Some ?s0"
    using guards_eq[OF ring_ok_init] by (simp add: start_def foldM_Nil)
  obtain r p where r: "foldM act (deliver demo_msg) ?s0 = Some (?s0\<lparr>ring := r, owner := None, ppc := PSignal, pending := demo_msg,
      sent := sent ?s0 @ [sent_message demo_msg]\<rparr>)" "ring_ok r" "items r = items (ring ?s0) @ [sent_message demo_msg]"
    using deliver_runs[of ?s0, OF _ demo_msg_ok] by (auto simp: start_def ring_ok_init)
  let ?s1 = "?s0\<lparr>ring := r, owner := None, ppc := PIdle, cpc := CWoken, pending := demo_msg, sent := [sent_message demo_msg]\<rparr>"
  have s1: "foldM act (deliver demo_msg @ [ProducerSignal]) ?s0 = Some ?s1"
    using r(1) by (simp add: foldM_append foldM_Nil start_def)
  have i1: "items r = [sent_message demo_msg]" using r(3) by (simp add: start_def)
  then have u1: "used r = 1" using length_items[of r] by simp
  obtain q p' where q: "foldM act (deliver other_msg) ?s1 = Some (?s1\<lparr>ring := q, owner := None, ppc := PSignal, pending := other_msg,
      sent := sent ?s1 @ [sent_message other_msg]\<rparr>)" "ring_ok q" "items q = items (ring ?s1) @ [sent_message other_msg]"
    using deliver_runs[of ?s1, OF _ m2] r(2) u1 by auto
  let ?s2 = "?s1\<lparr>ring := q, owner := None, ppc := PSignal, pending := other_msg, sent := sent ?s1 @ [sent_message other_msg]\<rparr>"
  let ?before = "[ConsumerWait, ConsumerSleep] @ (deliver demo_msg @ [ProducerSignal]) @ deliver other_msg"
  have "foldM act ?before (start demo_msg) = Some ?s2" by (simp only: foldM_append s0 s1[unfolded foldM_append] q(1) Option.bind.simps)
  moreover have "guarded a s" if "a \<in> set ?before" for a s using that by (auto simp: guarded_def deliver_def)
  ultimately have run1: "run guarded ?before (start demo_msg) ?s2" by (rule run_act)
  have i2: "items q = [sent_message demo_msg, sent_message other_msg]" using q(3) i1 by simp
  then have u2: "used q = 2" using length_items[of q] by simp
  let ?s3 = "?s2\<lparr>owner := Some Consumer, cpc := CRead\<rparr>"
  have step: "step ConsumerResume ?s2 ?s3" by (simp add: step_act)
  have g: "guarded ConsumerResume ?s2" using guards_eq[OF q(2)] u2 by (simp add: guarded_def)
  have pop: "message (cells q ! unat (tail q)) = sent_message demo_msg" "items (ring_buffer_pop q) = [sent_message other_msg]"
    using items_pop[OF q(2)] u2 i2 by auto
  let ?t = "?s3\<lparr>ring := ring_buffer_pop q, cpc := CUnlock, cell := ring_buffer_tail q, received := [sent_message demo_msg]\<rparr>"
  have "foldM act [ConsumerRead, ConsumerPop] ?s3 = Some ?t"
    using ring_read_ok[OF q(2)] pop(1) by (simp add: foldM_Nil start_def)
  moreover have "guarded a s" if "a \<in> set [ConsumerRead, ConsumerPop]" for a s using that by (auto simp: guarded_def)
  ultimately have "run guarded [ConsumerRead, ConsumerPop] ?s3 ?t" by (rule run_act)
  from run_append[OF run1 run_Cons[OF step g this]] show thesis
    by (rule that) (simp_all add: taken_def pop(2))
qed

theorem guarded_runs_conserve_witness:
  "\<exists>as t. run guarded as (start demo_msg) t \<and> ConsumerResume \<in> set as \<and> taken t = [sent_message demo_msg] \<and>
    items (ring t) = [sent_message other_msg] \<and> sent t = taken t @ items (ring t) \<and> length (items (ring t)) \<le> 4095 \<and> ring_ok (ring t)"
proof -
  obtain as t where t: "run guarded as (start demo_msg) t" "ConsumerResume \<in> set as" "taken t = [sent_message demo_msg]"
    "items (ring t) = [sent_message other_msg]"
    by (rule guarded_demo)
  have "sent t = taken t @ items (ring t) \<and> length (items (ring t)) \<le> 4095 \<and> ring_ok (ring t)"
    by (rule guarded_runs_conserve[OF initial_start t(1)])
  with t show ?thesis by blast
qed

text \<open>C27: from any state in which the processing thread is about to test the ring and the receiving
  thread is idle, the processing thread alone takes out every message, in order, and goes to sleep.\<close>

theorem consumer_drains:
  assumes "ring_ok (ring s)" and "cpc s = CTest" and "ppc s = PIdle" and "owner s = None"
  shows "\<exists>as t. run not_spurious as s t \<and> set as \<subseteq> set take_one \<union> {ConsumerWait, ConsumerSleep} \<and>
    cpc t = CSleep \<and> items (ring t) = [] \<and> received t = received s @ items (ring s)"
proof -
  obtain as t where t: "foldM act as s = Some t" "set as \<subseteq> set take_one" "ring_ok (ring t)" "cpc t = CTest"
    "used (ring t) = 0" "received t = received s @ items (ring s)"
    using take_many_runs[OF assms] by auto
  let ?as = "as @ [ConsumerWait, ConsumerSleep]"
  let ?t = "t\<lparr>owner := None, cpc := CSleep, misuse := (misuse t \<or> owner t \<noteq> Some Consumer)\<rparr>"
  have "foldM act ?as s = Some ?t" using t guards_eq[OF t(3)] by (simp add: foldM_append)
  moreover have "not_spurious a u" if "a \<in> set ?as" for a u
    using that t(2) by (auto simp: take_one_def not_spurious_def)
  ultimately have "run not_spurious ?as s ?t" by (rule run_act)
  then show ?thesis using t(2,5,6) by (intro exI[of _ ?as] exI[of _ ?t]) (auto simp: items_def)
qed

theorem consumer_drains_witness:
  "\<exists>r. items r = [sent_message demo_msg] \<and>
    (\<exists>as t. run not_spurious as ((start demo_msg)\<lparr>ring := r\<rparr>) t \<and> set as \<subseteq> set take_one \<union> {ConsumerWait, ConsumerSleep} \<and>
      cpc t = CSleep \<and> items (ring t) = [] \<and> received t = received ((start demo_msg)\<lparr>ring := r\<rparr>) @ items (ring ((start demo_msg)\<lparr>ring := r\<rparr>)))"
proof -
  obtain r where r: "ring_ok r" "items r = [sent_message demo_msg]" using ring_put_ok[OF ring_ok_init demo_msg_ok] by auto
  have "\<exists>as t. run not_spurious as ((start demo_msg)\<lparr>ring := r\<rparr>) t \<and> set as \<subseteq> set take_one \<union> {ConsumerWait, ConsumerSleep} \<and>
      cpc t = CSleep \<and> items (ring t) = [] \<and> received t = received ((start demo_msg)\<lparr>ring := r\<rparr>) @ items (ring ((start demo_msg)\<lparr>ring := r\<rparr>))"
    by (rule consumer_drains) (simp_all add: start_def r(1))
  with r(2) show ?thesis by blast
qed

lemma received_start: "message zero_packet = (replicate 146 0, 0, 0, (0, 0))"
  by (simp add: message_def zero_packet_def slice_def PAYLOAD_SIZE_def BUFSIZE_ring_def)

lemma not_spurious_deliver: "a \<in> set (deliver m) \<Longrightarrow> not_spurious a s"
  by (auto simp: deliver_def not_spurious_def)

lemma not_spurious_take_one: "a \<in> set take_one \<Longrightarrow> not_spurious a s"
  by (auto simp: take_one_def not_spurious_def)

text \<open>C33: after a single packet a second one can be processed that never arrived: the receiving thread signals after it has
  unlocked, the processing thread may by then have taken the packet and gone to sleep, and it does not
  test the ring again when it wakes.  It then processes whatever the next cell holds, and the ring
  counts 4095 packets.\<close>

theorem phantom_packet:
  assumes "initial s" and "msg_ok m"
  shows "\<exists>as t. run not_spurious as s t \<and> sent t = [sent_message m] \<and>
    received t = [sent_message m, (replicate 146 0, 0, 0, (0, 0))] \<and> ring_buffer_used (ring t) = 4095"
proof -
  have s: "ring s = ring_buffer_init" "owner s = None" "ppc s = PIdle" "cpc s = CTest" "sent s = []" "received s = []"
    using assms(1) by (simp_all add: initial_def)
  obtain r p where r: "foldM act (deliver m) s = Some (s\<lparr>ring := r, owner := None, ppc := PSignal, pending := m,
      sent := [sent_message m]\<rparr>)" "ring_ok r" "items r = [sent_message m]" "tail r = tail ring_buffer_init"
      "cells r = (cells ring_buffer_init)[unat (head ring_buffer_init) := p]"
    using deliver_runs[of s m] s assms(2) ring_ok_init by auto
  let ?s = "s\<lparr>ring := r, owner := None, ppc := PSignal, pending := m, sent := [sent_message m]\<rparr>"
  have u: "used r = 1" using arg_cong[OF r(3), of length] by simp
  obtain r' q where r': "foldM act take_one ?s = Some (?s\<lparr>ring := r', owner := None, cpc := CTest, cell := unat (tail r),
      received := [sent_message m], misuse := True\<rparr>)" "ring_ok r'" "items r' = []"
      "cells r' = (cells r)[unat (tail r) := q]" "tail r' = tail (ring_buffer_pop r)"
    using take_one_runs[of ?s] r u s by auto
  have u': "used r' = 0" using arg_cong[OF r'(3), of length] by simp
  have "unat (tail r') = 1" using pop_tail[OF r(2)] r(4) by (simp add: r'(5) ring_buffer_init_def)
  then have z: "cells r' ! unat (tail r') = zero_packet"
    using r(4,5) r'(4) by (simp add: ring_buffer_init_def RING_SIZE_def)
  let ?as = "[ConsumerWait, ConsumerSleep, ProducerSignal, ConsumerResume, ConsumerRead, ConsumerPop]"
  have "\<exists>t. foldM act (deliver m @ take_one @ ?as) s = Some t \<and> sent t = [sent_message m] \<and>
      received t = [sent_message m, message zero_packet] \<and> ring t = ring_buffer_pop r'"
    using r(1) r'(1) ring_read_ok[OF r'(2)] guards_eq[OF r'(2)] u' z by (simp add: foldM_append)
  then obtain t where t: "foldM act (deliver m @ take_one @ ?as) s = Some t" "sent t = [sent_message m]"
      "received t = [sent_message m, message zero_packet]" "ring t = ring_buffer_pop r'" by blast
  have "run not_spurious (deliver m @ take_one @ ?as) s t"
    by (rule run_act[OF t(1)]) (auto simp: not_spurious_deliver not_spurious_take_one, auto simp: not_spurious_def)
  moreover have "ring_buffer_used (ring t) = 4095"
    using used_pop[OF r'(2)] u' ring_ok_pop[OF r'(2)] by (simp add: t(4) ring_buffer_used_eq)
  ultimately show ?thesis using t(2,3) received_start by auto
qed

theorem phantom_packet_witness:
  "\<exists>as t. run not_spurious as (start demo_msg) t \<and> sent t = [sent_message demo_msg] \<and>
    received t = [sent_message demo_msg, (replicate 146 0, 0, 0, (0, 0))] \<and> ring_buffer_used (ring t) = 4095"
  by (rule phantom_packet[OF initial_start demo_msg_ok])

text \<open>C35: a wake-up can be lost: between the test of the processing thread and its wait, neither of
  which holds the lock, the receiving thread can put a packet in and signal to nobody.  The packet then
  stays in the ring with both threads at rest: only another packet (or a spurious wake-up) helps.\<close>

theorem lost_wakeup:
  assumes "initial s" and "msg_ok m"
  shows "\<exists>as t. run not_spurious as s t \<and> items (ring t) = [sent_message m] \<and> received t = [] \<and>
    {a. \<exists>u. step a t u} = insert ConsumerSpurious (Receive ` {m'. msg_ok m'})"
proof -
  have s: "ring s = ring_buffer_init" "owner s = None" "ppc s = PIdle" "cpc s = CTest" "sent s = []" "received s = []"
    using assms(1) by (simp_all add: initial_def)
  let ?s = "s\<lparr>cpc := CWait\<rparr>"
  obtain r where r: "foldM act (deliver m) ?s = Some (?s\<lparr>ring := r, owner := None, ppc := PSignal, pending := m,
      sent := [sent_message m]\<rparr>)" "items r = [sent_message m]"
    using deliver_runs[of ?s m] s assms(2) ring_ok_init by auto
  let ?t = "s\<lparr>ring := r, owner := None, ppc := PIdle, cpc := CSleep, pending := m, sent := [sent_message m], misuse := True\<rparr>"
  have "foldM act ([ConsumerWait] @ deliver m @ [ProducerSignal, ConsumerSleep]) s = Some ?t"
    using r(1) s guards_eq[OF ring_ok_init] by (simp add: foldM_append)
  then have "run not_spurious ([ConsumerWait] @ deliver m @ [ProducerSignal, ConsumerSleep]) s ?t"
    by (rule run_act) (auto simp: not_spurious_deliver, auto simp: not_spurious_def)
  moreover have "{a. \<exists>u. step a ?t u} = insert ConsumerSpurious (Receive ` {m'. msg_ok m'})" (is "?A = ?B")
  proof (rule set_eqI)
    show "a \<in> ?A \<longleftrightarrow> a \<in> ?B" for a by (cases a) (auto simp: step_act)
  qed
  ultimately show ?thesis
    using r(2) s by (intro exI[of _ "[ConsumerWait] @ deliver m @ [ProducerSignal, ConsumerSleep]"] exI[of _ ?t] conjI) simp_all
qed

theorem lost_wakeup_witness:
  "\<exists>as t. run not_spurious as (start demo_msg) t \<and> items (ring t) = [sent_message demo_msg] \<and> received t = [] \<and>
    {a. \<exists>u. step a t u} = insert ConsumerSpurious (Receive ` {m'. msg_ok m'})"
  by (rule lost_wakeup[OF initial_start demo_msg_ok])

text \<open>C34: the ring can lose its whole contents: a receiving thread that waits for room is woken by a
  signal for a cell that it has itself filled since, does not test again, and its push on the full ring
  makes the ring look empty: 4097 packets received, one processed, none left.\<close>

theorem full_ring_is_lost:
  assumes "initial s" and "msg_ok m"
  shows "\<exists>as t. run not_spurious as s t \<and> length (sent t) = 4097 \<and> length (received t) = 1 \<and>
    ring_buffer_used (ring t) = 0 \<and> items (ring t) = []"
proof -
  have s: "ring s = ring_buffer_init" "owner s = None" "ppc s = PIdle" "cpc s = CTest" "sent s = []" "received s = []"
    using assms(1) by (simp_all add: initial_def)
  let ?fill = "concat (replicate 4095 (deliver m @ [ProducerSignal]))"
  obtain r x where r: "foldM act ?fill s = Some (s\<lparr>ring := r, pending := x, sent := replicate 4095 (sent_message m)\<rparr>)"
      "ring_ok r" "used r = 4095"
    using deliver_many_runs[of s m 4095] s assms(2) ring_ok_init by auto
  let ?s = "s\<lparr>ring := r, pending := x, sent := replicate 4095 (sent_message m)\<rparr>"
  let ?get = "[ConsumerGo, ConsumerRead, ConsumerPop, ConsumerUnlock]"
  let ?y = "message (cells r ! unat (tail r))"
  let ?s1 = "?s\<lparr>ring := ring_buffer_pop r, owner := None, cpc := CSignal, cell := unat (tail r), received := [?y], misuse := True\<rparr>"
  have g: "foldM act ?get ?s = Some ?s1"
    using r(2,3) s guards_eq[OF r(2)] ring_read_ok[OF r(2)] by (simp add: ring_buffer_tail_def)
  have ok1: "ring_ok (ring_buffer_pop r)" "used (ring_buffer_pop r) = 4094"
    using ring_ok_pop[OF r(2)] used_pop[OF r(2)] r(3) by simp_all
  obtain r2 where r2: "foldM act (deliver m) ?s1 = Some (?s1\<lparr>ring := r2, owner := None, ppc := PSignal, pending := m,
      sent := sent ?s1 @ [sent_message m]\<rparr>)" "ring_ok r2" "items r2 = items (ring_buffer_pop r) @ [sent_message m]"
    using deliver_runs[of ?s1 m] ok1 s assms(2) by auto
  have u2: "used r2 = 4095" using arg_cong[OF r2(3), of length] ok1(2) by simp
  obtain p where p: "ring_write m r2 = Some (r2\<lparr>cells := (cells r2)[unat (head r2) := p]\<rparr>)" "length (pk_buf p) = BUFSIZE_ring"
    using ring_write_ok[OF r2(2) assms(2)] by blast
  let ?r3 = "r2\<lparr>cells := (cells r2)[unat (head r2) := p]\<rparr>"
  have ok3: "ring_ok ?r3" by (rule ring_ok_write[OF r2(2) p(2)])
  let ?last = "[ProducerSignal, Receive m, ProducerLock, ProducerWait, ConsumerSignal, ProducerResume, ProducerFill, ProducerPush]"
  let ?all = "?fill @ ?get @ deliver m @ ?last"
  have "\<exists>t. foldM act ?all s = Some t \<and> sent t = replicate 4095 (sent_message m) @ [sent_message m, sent_message m] \<and>
      received t = [?y] \<and> ring t = ring_buffer_push ?r3"
    unfolding foldM_append r(1) Option.bind.simps g r2(1)
    using assms(2) guards_eq[OF r2(2)] u2 p(1) by simp
  then obtain t where t: "foldM act ?all s = Some t" "sent t = replicate 4095 (sent_message m) @ [sent_message m, sent_message m]"
      "received t = [?y]" "ring t = ring_buffer_push ?r3" by blast
  have "run not_spurious ?all s t"
    by (rule run_act[OF t(1)]) (auto simp: not_spurious_deliver split: if_splits, auto simp: not_spurious_def)
  moreover have "used (ring t) = 0" "ring_ok (ring t)"
    using used_push[OF ok3] ring_ok_push[OF ok3] u2 by (simp_all add: t(4))
  ultimately show ?thesis
    using t(2,3) by (intro exI[of _ ?all] exI[of _ t]) (simp add: ring_buffer_used_eq items_def)
qed

theorem full_ring_is_lost_witness:
  "\<exists>as t. run not_spurious as (start demo_msg) t \<and> length (sent t) = 4097 \<and> length (received t) = 1 \<and>
    ring_buffer_used (ring t) = 0 \<and> items (ring t) = []"
  by (rule full_ring_is_lost[OF initial_start demo_msg_ok])

end
