(* ===== verification/Statistics.thy ===== *)
theory Statistics
  imports Prelude
begin

text \<open>
  \<^verbatim>\<open>statistics.c\<close> of the two programs: the counters of the last second and the last minute.
  A report (the line that \<^verbatim>\<open>throughput_sec\<close> and \<^verbatim>\<open>throughput_min\<close> print) is the
  tuple of the printed numbers; the round of the loop after the sleep prints it and clears the
  counters.
\<close>

definition MTU :: nat where "MTU = 200"
definition RTT_MAX :: int where "RTT_MAX = 1000000"

section \<open>Server\<close>

record server_statistics =
  send_counter_sec :: u32
  send_counter_min :: u32
  request_counter_sec :: u32
  request_counter_min :: u32
  receive_counter_sec :: u32
  receive_counter_min :: u32
  throughput :: u64
  cipher_delay :: u64
  DB_delay :: u64

definition server_resetSecStats :: "server_statistics \<Rightarrow> server_statistics" where
  "server_resetSecStats s = s\<lparr>send_counter_sec := 0, request_counter_sec := 0, receive_counter_sec := 0,
     throughput := 0, DB_delay := 0, cipher_delay := 0\<rparr>"

definition server_resetMinStats :: "server_statistics \<Rightarrow> server_statistics" where
  "server_resetMinStats s = s\<lparr>send_counter_min := 0, request_counter_min := 0, receive_counter_min := 0\<rparr>"

definition server_throughput_sec ::
    "server_statistics \<Rightarrow> (u32 \<times> u32 \<times> u32 \<times> u64 \<times> (u64 \<times> u64) option) \<times> server_statistics" where
  "server_throughput_sec s =
    ((receive_counter_sec s, request_counter_sec s, send_counter_sec s, drop_bit 17 (throughput s),
      if receive_counter_sec s = 0 then None
      else Some (DB_delay s div ucast (receive_counter_sec s), cipher_delay s div ucast (receive_counter_sec s))),
     server_resetSecStats s)"

definition server_throughput_min :: "server_statistics \<Rightarrow> (u32 \<times> u32 \<times> u32) \<times> server_statistics" where
  "server_throughput_min s =
    ((send_counter_min s, request_counter_min s, receive_counter_min s), server_resetMinStats s)"

definition server_increSendPkts :: "server_statistics \<Rightarrow> server_statistics" where
  "server_increSendPkts s = s\<lparr>send_counter_sec := send_counter_sec s + 1,
     send_counter_min := send_counter_min s + 1, throughput := throughput s + of_nat MTU\<rparr>"

definition server_increRequestPkts :: "server_statistics \<Rightarrow> server_statistics" where
  "server_increRequestPkts s = s\<lparr>request_counter_sec := request_counter_sec s + 1,
     request_counter_min := request_counter_min s + 1\<rparr>"

definition server_increReceivePkts :: "server_statistics \<Rightarrow> server_statistics" where
  "server_increReceivePkts s = s\<lparr>receive_counter_sec := receive_counter_sec s + 1,
     receive_counter_min := receive_counter_min s + 1\<rparr>"

definition updateDBDelay :: "int \<Rightarrow> server_statistics \<Rightarrow> server_statistics" where
  "updateDBDelay delay s = s\<lparr>DB_delay := DB_delay s + word_of_int delay\<rparr>"

definition updateCipherDelay :: "int \<Rightarrow> server_statistics \<Rightarrow> server_statistics" where
  "updateCipherDelay delay s = s\<lparr>cipher_delay := cipher_delay s + word_of_int delay\<rparr>"

section \<open>Client\<close>

record client_statistics =
  c_send_counter_sec :: u32
  c_send_counter_min :: u32
  c_request_counter_sec :: u32
  c_request_counter_min :: u32
  c_receive_counter_sec :: u32
  c_receive_counter_min :: u32
  c_throughput :: u64
  RTT_sum :: u64
  RTT_max :: u32

definition client_resetSecStats :: "client_statistics \<Rightarrow> client_statistics" where
  "client_resetSecStats s = s\<lparr>c_send_counter_sec := 0, c_request_counter_sec := 0, c_receive_counter_sec := 0,
     RTT_sum := 0, c_throughput := 0, RTT_max := 0\<rparr>"

definition client_resetMinStats :: "client_statistics \<Rightarrow> client_statistics" where
  "client_resetMinStats s = s\<lparr>c_send_counter_min := 0, c_request_counter_min := 0, c_receive_counter_min := 0\<rparr>"

definition client_throughput_sec ::
    "client_statistics \<Rightarrow> (u32 \<times> u32 \<times> u32 \<times> u64 \<times> (u64 \<times> u32) option) \<times> client_statistics" where
  "client_throughput_sec s =
    ((c_send_counter_sec s, c_request_counter_sec s, c_receive_counter_sec s, drop_bit 17 (c_throughput s),
      if c_receive_counter_sec s = 0 then None
      else Some (RTT_sum s div ucast (c_receive_counter_sec s), RTT_max s)),
     client_resetSecStats s)"

definition client_throughput_min :: "client_statistics \<Rightarrow> (u32 \<times> u32 \<times> u32) \<times> client_statistics" where
  "client_throughput_min s =
    ((c_send_counter_min s, c_request_counter_min s, c_receive_counter_min s), client_resetMinStats s)"

definition client_increSendPkts :: "client_statistics \<Rightarrow> client_statistics" where
  "client_increSendPkts s = s\<lparr>c_send_counter_sec := c_send_counter_sec s + 1,
     c_send_counter_min := c_send_counter_min s + 1, c_throughput := c_throughput s + of_nat MTU\<rparr>"

definition client_increRequestPkts :: "client_statistics \<Rightarrow> client_statistics" where
  "client_increRequestPkts s = s\<lparr>c_request_counter_sec := c_request_counter_sec s + 1,
     c_request_counter_min := c_request_counter_min s + 1\<rparr>"

text \<open>\<open>RTT < RTT_MAX\<close> compares two ints; \<open>RTT > stats.RTT_max\<close> converts the int to
  unsigned.\<close>

definition client_increReceivePkts :: "int \<Rightarrow> client_statistics \<Rightarrow> client_statistics" where
  "client_increReceivePkts rtt s =
    (if rtt < RTT_MAX then
       let s = s\<lparr>c_receive_counter_sec := c_receive_counter_sec s + 1,
             c_receive_counter_min := c_receive_counter_min s + 1, RTT_sum := RTT_sum s + word_of_int rtt\<rparr> in
       if word_of_int rtt > RTT_max s then s\<lparr>RTT_max := word_of_int rtt\<rparr> else s
     else s)"

section \<open>Histories\<close>

datatype server_event = Sent | Requested | Received | DbDelay int | CipherDelay int | SecEnds | MinEnds

fun server_count :: "server_event \<Rightarrow> server_statistics \<Rightarrow> server_statistics" where
  "server_count Sent = server_increSendPkts"
| "server_count Requested = server_increRequestPkts"
| "server_count Received = server_increReceivePkts"
| "server_count (DbDelay d) = updateDBDelay d"
| "server_count (CipherDelay d) = updateCipherDelay d"
| "server_count SecEnds = snd \<circ> server_throughput_sec"
| "server_count MinEnds = snd \<circ> server_throughput_min"

datatype client_event = CSent | CRequested | CReceived int | CSecEnds | CMinEnds

fun client_count :: "client_event \<Rightarrow> client_statistics \<Rightarrow> client_statistics" where
  "client_count CSent = client_increSendPkts"
| "client_count CRequested = client_increRequestPkts"
| "client_count (CReceived rtt) = client_increReceivePkts rtt"
| "client_count CSecEnds = snd \<circ> client_throughput_sec"
| "client_count CMinEnds = snd \<circ> client_throughput_min"

text \<open>The events since the last \<open>e\<close>.\<close>

definition since :: "'e \<Rightarrow> 'e list \<Rightarrow> 'e list" where
  "since e es = rev (takeWhile (\<lambda>x. x \<noteq> e) (rev es))"

lemma since_Nil [simp]: "since e [] = []"
  by (simp add: since_def)

lemma since_snoc [simp]: "since e (es @ [x]) = (if x = e then [] else since e es @ [x])"
  by (simp add: since_def)

definition db_time :: "server_event list \<Rightarrow> int" where
  "db_time es = sum_list (map (\<lambda>e. case e of DbDelay d \<Rightarrow> d | _ \<Rightarrow> 0) es)"

definition cipher_time :: "server_event list \<Rightarrow> int" where
  "cipher_time es = sum_list (map (\<lambda>e. case e of CipherDelay d \<Rightarrow> d | _ \<Rightarrow> 0) es)"

definition zero_server_statistics :: server_statistics where
  "zero_server_statistics = \<lparr>send_counter_sec = 0, send_counter_min = 0, request_counter_sec = 0,
     request_counter_min = 0, receive_counter_sec = 0, receive_counter_min = 0, throughput = 0,
     cipher_delay = 0, DB_delay = 0\<rparr>"

lemmas server_ops = server_increSendPkts_def server_increRequestPkts_def server_increReceivePkts_def
  updateDBDelay_def updateCipherDelay_def server_throughput_sec_def server_throughput_min_def
  server_resetSecStats_def server_resetMinStats_def

text \<open>After any history of the server each counter is the number of its events since its last
  report modulo two to the 32, the throughput 200 bytes per packet sent, and the delays the sums of the
  recorded delays modulo two to the 64.\<close>

theorem server_counters:
  "fold server_count es zero_server_statistics = \<lparr>
     send_counter_sec = of_nat (count_list (since SecEnds es) Sent),
     send_counter_min = of_nat (count_list (since MinEnds es) Sent),
     request_counter_sec = of_nat (count_list (since SecEnds es) Requested),
     request_counter_min = of_nat (count_list (since MinEnds es) Requested),
     receive_counter_sec = of_nat (count_list (since SecEnds es) Received),
     receive_counter_min = of_nat (count_list (since MinEnds es) Received),
     throughput = of_nat (MTU * count_list (since SecEnds es) Sent),
     cipher_delay = word_of_int (cipher_time (since SecEnds es)),
     DB_delay = word_of_int (db_time (since SecEnds es))\<rparr>"
proof (induction es rule: rev_induct)
  case Nil
  then show ?case by (simp add: zero_server_statistics_def cipher_time_def db_time_def)
next
  case (snoc e es)
  then show ?case
    by (cases e) (simp_all add: server_ops cipher_time_def db_time_def algebra_simps)
qed

definition accepted :: "client_event list \<Rightarrow> int list" where
  "accepted es = concat (map (\<lambda>e. case e of CReceived r \<Rightarrow> if r < RTT_MAX then [r] else [] | _ \<Rightarrow> []) es)"

definition zero_client_statistics :: client_statistics where
  "zero_client_statistics = \<lparr>c_send_counter_sec = 0, c_send_counter_min = 0, c_request_counter_sec = 0,
     c_request_counter_min = 0, c_receive_counter_sec = 0, c_receive_counter_min = 0, c_throughput = 0,
     RTT_sum = 0, RTT_max = 0\<rparr>"

lemmas client_ops = client_increSendPkts_def client_increRequestPkts_def client_increReceivePkts_def
  client_throughput_sec_def client_throughput_min_def client_resetSecStats_def client_resetMinStats_def

lemma accepted_simps [simp]:
  "accepted [] = []"
  "accepted (es @ [CReceived r]) = (if r < RTT_MAX then accepted es @ [r] else accepted es)"
  "accepted (es @ [CSent]) = accepted es" "accepted (es @ [CRequested]) = accepted es"
  "accepted (es @ [CSecEnds]) = accepted es" "accepted (es @ [CMinEnds]) = accepted es"
  by (simp_all add: accepted_def)

text \<open>The same for the client, where a received packet counts only below the limit of one second,
  and the maximum is that of the round-trip times read as unsigned numbers.\<close>

theorem client_counters:
  "fold client_count es zero_client_statistics = \<lparr>
     c_send_counter_sec = of_nat (count_list (since CSecEnds es) CSent),
     c_send_counter_min = of_nat (count_list (since CMinEnds es) CSent),
     c_request_counter_sec = of_nat (count_list (since CSecEnds es) CRequested),
     c_request_counter_min = of_nat (count_list (since CMinEnds es) CRequested),
     c_receive_counter_sec = of_nat (length (accepted (since CSecEnds es))),
     c_receive_counter_min = of_nat (length (accepted (since CMinEnds es))),
     c_throughput = of_nat (MTU * count_list (since CSecEnds es) CSent),
     RTT_sum = word_of_int (sum_list (accepted (since CSecEnds es))),
     RTT_max = fold (\<lambda>r m. max (word_of_int r) m) (accepted (since CSecEnds es)) 0\<rparr>"
proof (induction es rule: rev_induct)
  case Nil
  then show ?case by (simp add: zero_client_statistics_def)
next
  case (snoc e es)
  then show ?case
    by (cases e) (simp_all add: client_ops algebra_simps Let_def max_def, auto)
qed

lemma client_maximum:
  "RTT_max (fold client_count es zero_client_statistics) =
     fold (\<lambda>r m. max (word_of_int r) m) (accepted (since CSecEnds es)) 0"
proof (induction es rule: rev_induct)
  case Nil
  then show ?case by (simp add: zero_client_statistics_def)
next
  case (snoc e es)
  then show ?case by (cases e) (simp_all add: client_ops Let_def max_def, auto)
qed

text \<open>One negative round-trip time, which the code accepts as below the limit, makes the reported
  maximum of that second at least 2 to the 31: the comparison converts it to unsigned.\<close>

theorem negative_rtt_wins:
  assumes "r \<in> set (accepted (since CSecEnds es))" and "INT_MIN \<le> r" and "r < 0"
  shows "2 ^ 31 \<le> uint (RTT_max (fold client_count es zero_client_statistics))"
proof -
  have "word_of_int r \<le> fold (\<lambda>r m. max (word_of_int r) m) rs m \<or> r \<notin> set rs" for rs and m :: u32
  proof (induction rs arbitrary: m)
    case (Cons x rs)
    have "m \<le> fold (\<lambda>r m. max (word_of_int r) m) rs m" for rs and m :: u32
      by (induction rs arbitrary: m) (auto intro: order_trans[OF max.cobounded2])
    from order_trans[OF max.cobounded1 this] Cons.IH show ?case by auto
  qed simp
  then have "(word_of_int r :: u32) \<le> RTT_max (fold client_count es zero_client_statistics)"
    using assms(1) by (simp add: client_maximum) blast
  moreover have "uint (word_of_int r :: u32) = (r + 2 ^ 32) mod 2 ^ 32"
    by (simp only: uint_word_of_int mod_add_self2) simp
  moreover have "(r + 2 ^ 32) mod 2 ^ 32 = r + 2 ^ 32"
    using assms(2,3) by (intro mod_pos_pos_trivial) (simp_all add: INT_MIN_def)
  ultimately show ?thesis using assms(2) by (simp add: word_le_def INT_MIN_def)
qed

theorem negative_rtt_wins_witness:
  "2 ^ 31 \<le> uint (RTT_max (fold client_count [CReceived 5, CReceived (-1)] zero_client_statistics))"
  by (rule negative_rtt_wins[of "-1"]) (simp_all add: since_def accepted_def RTT_MAX_def INT_MIN_def)

end
