(* ===== verification/ServerConfig.thy ===== *)
theory ServerConfig
  imports Redis Statistics
begin

text \<open>
  \<^verbatim>\<open>server_config.c\<close> and the two places of \<^verbatim>\<open>server.c\<close> that depend on its
  validation.  The configuration library is a parameter: a parsed file is the record of what its
  lookups return, \<open>None\<close> for a file that cannot be read.  Floating-point values are only stored,
  so their type is a variable.  A local variable that a failed lookup leaves uninitialised is an
  argument (\<^verbatim>\<open>server_junk\<close>).
\<close>

definition MAXPORTS :: nat where "MAXPORTS = 1"
definition MIN_THREADS :: int where "MIN_THREADS = 1"
definition MAX_THREADS :: int where "MAX_THREADS = 20"
definition IP_LEN :: nat where "IP_LEN = 20"

definition EXIT_SUCCESS :: int where "EXIT_SUCCESS = 0"
definition EXIT_FAILURE :: int where "EXIT_FAILURE = 1"

record 'd config_file =
  lookup_int :: "string \<Rightarrow> int option"
  lookup_float :: "string \<Rightarrow> 'd option"
  lookup_string :: "string \<Rightarrow> cstr option"
  lookup_ints :: "string \<Rightarrow> int list option"

record 'd configs =
  ports :: "int list"
  ports_count :: int
  delay_in_ms :: 'd
  threads_num :: int
  redis_concurrency :: int
  packets_group :: int
  dev :: cstr
  database_ip :: cstr
  database_port :: int

record 'd server_junk =
  junk_delay :: 'd
  junk_threads :: int
  junk_group :: int

text \<open>A lookup into a variable leaves it alone when it finds nothing.\<close>

definition looked_up :: "'a \<Rightarrow> 'a option \<Rightarrow> 'a" where
  "looked_up old found = (case found of None \<Rightarrow> old | Some x \<Rightarrow> x)"

definition isValidThreadNum :: "int \<Rightarrow> bool" where
  "isValidThreadNum n = (if n < MIN_THREADS then False else if n > MAX_THREADS then False else True)"

definition server_initConfigs :: "'d \<Rightarrow> 'd configs \<Rightarrow> 'd configs" where
  "server_initConfigs zero_delay conf = conf\<lparr>ports := replicate MAXPORTS 0, ports_count := 0,
     delay_in_ms := zero_delay, threads_num := 1, packets_group := 1\<rparr>"

definition read_ports :: "int list \<Rightarrow> int list \<Rightarrow> int \<Rightarrow> (int list \<times> int) option" where
  "read_ports file_ports ps count =
    (let n = if length file_ports \<ge> MAXPORTS then MAXPORTS else length file_ports in
     foldM (\<lambda>i (ps, count). do {
       p \<leftarrow> load file_ports i;
       ps \<leftarrow> store ps i p;
       Some (ps, count + 1)
     }) [0..<n] (ps, count))"

definition server_getConfigs :: "'d config_file option \<Rightarrow> 'd server_junk \<Rightarrow> 'd configs \<Rightarrow> (int \<times> 'd configs) option" where
  "server_getConfigs cf junk conf = (case cf of
     None \<Rightarrow> Some (EXIT_FAILURE, conf)
   | Some cfg \<Rightarrow> do {
       file_ports \<leftarrow> lookup_ints cfg ''ports'';
       (ps, count) \<leftarrow> read_ports file_ports (ports conf) (ports_count conf);
       let delay = looked_up (junk_delay junk) (lookup_float cfg ''delay_in_ms'');
       let threads = looked_up (junk_threads junk) (lookup_int cfg ''threads_num'');
       let grp = looked_up (junk_group junk) (lookup_int cfg ''packets_group'');
       device \<leftarrow> lookup_string cfg ''device'';
       d \<leftarrow> strcpy 20 device;
       db_ip \<leftarrow> lookup_string cfg ''database_ip'';
       ip \<leftarrow> strcpy IP_LEN db_ip;
       Some (EXIT_SUCCESS, conf\<lparr>ports := ps, ports_count := count, delay_in_ms := delay,
         threads_num := (if \<not> isValidThreadNum threads then MIN_THREADS else threads),
         packets_group := (if grp \<le> 0 then 1 else grp),
         dev := d, database_ip := ip,
         database_port := looked_up (database_port conf) (lookup_int cfg ''database_port'')\<rparr>)
     })"

definition server_updateEpoch :: "'d config_file option \<Rightarrow> 'd configs \<Rightarrow> int \<times> 'd configs" where
  "server_updateEpoch cf conf = (case cf of
     None \<Rightarrow> (EXIT_FAILURE, conf)
   | Some cfg \<Rightarrow> (case lookup_float cfg ''delay_in_ms'' of
       None \<Rightarrow> (EXIT_FAILURE, conf)
     | Some delay \<Rightarrow>
         let conf = if delay \<noteq> delay_in_ms conf then conf\<lparr>delay_in_ms := delay\<rparr> else conf in
         (case lookup_int cfg ''packets_group'' of
            None \<Rightarrow> (EXIT_FAILURE, conf)
          | Some grp \<Rightarrow>
              let conf = if grp \<noteq> packets_group conf then conf\<lparr>packets_group := grp\<rparr> else conf in
              (EXIT_SUCCESS, conf))))"

text \<open>
  \<^verbatim>\<open>getThreadIndex\<close> of \<^verbatim>\<open>server.c\<close>: the counter is unsigned, so the ints are
  converted; a division by zero is \<open>None\<close>.
\<close>

definition getThreadIndex :: "server_statistics \<Rightarrow> 'd configs \<Rightarrow> int option" where
  "getThreadIndex st conf =
    (let g = word_of_int (packets_group conf) :: u32; t = word_of_int (threads_num conf) :: u32 in
     if g = 0 then None
     else if t = 0 then None
     else Some (sint ((receive_counter_min st div g) mod t)))"

section \<open>Validity\<close>

definition configs_ok :: "'d configs \<Rightarrow> bool" where
  "configs_ok conf \<longleftrightarrow> length (ports conf) = MAXPORTS \<and> 0 \<le> ports_count conf \<and> ports_count conf \<le> int MAXPORTS \<and>
     MIN_THREADS \<le> threads_num conf \<and> threads_num conf \<le> MAX_THREADS \<and>
     0 < packets_group conf \<and> packets_group conf \<le> INT_MAX"

definition file_ints_ok :: "'d config_file \<Rightarrow> bool" where
  "file_ints_ok cfg \<longleftrightarrow> (\<forall>s n. lookup_int cfg s = Some n \<longrightarrow> INT_MIN \<le> n \<and> n \<le> INT_MAX)"

lemma read_ports_ok:
  assumes "length ps = MAXPORTS"
  shows "\<exists>ps' count'. read_ports file_ports ps count = Some (ps', count') \<and> length ps' = MAXPORTS \<and>
    count' = count + int (min (length file_ports) MAXPORTS)"
  using assms by (cases file_ports) (auto simp: read_ports_def MAXPORTS_def)

lemma getThreadIndex_eq:
  assumes "0 < packets_group conf" "packets_group conf \<le> INT_MAX" "0 < threads_num conf" "threads_num conf \<le> INT_MAX"
  shows "getThreadIndex st conf =
    Some ((uint (receive_counter_min st) div packets_group conf) mod threads_num conf)"
proof -
  have u: "uint (word_of_int x :: u32) = x" if "0 < x" "x \<le> INT_MAX" for x
    using that by (simp add: uint_word_of_int INT_MAX_def)
  let ?g = "word_of_int (packets_group conf) :: u32" and ?t = "word_of_int (threads_num conf) :: u32"
  have g: "uint ?g = packets_group conf" "uint ?t = threads_num conf" using u assms by simp_all
  then have nz: "?g \<noteq> 0" "?t \<noteq> 0" using assms by (metis less_irrefl unsigned_0)+
  let ?i = "(receive_counter_min st div ?g) mod ?t"
  have i: "uint ?i = (uint (receive_counter_min st) div packets_group conf) mod threads_num conf"
    by (simp only: uint_mod uint_div g)
  also have "\<dots> < threads_num conf" using assms(3) by (rule pos_mod_bound)
  also have "\<dots> < 2 ^ 31" using assms(4) by (simp add: INT_MAX_def)
  finally have "sint ?i = uint ?i" by (intro sint_small) simp
  then show ?thesis using nz i by (simp add: getThreadIndex_def Let_def)
qed

lemma init_getConfigs_ok:
  assumes "length (ports conf) = MAXPORTS" and "\<And>cfg. cf = Some cfg \<Longrightarrow> file_ints_ok cfg" and "junk_group junk \<le> INT_MAX"
    and "server_getConfigs cf junk (server_initConfigs d conf) = Some (status, conf')"
  shows "configs_ok conf'"
proof (cases cf)
  case None
  then show ?thesis
    using assms(1,4) by (auto simp: server_getConfigs_def server_initConfigs_def configs_ok_def MIN_THREADS_def MAX_THREADS_def INT_MAX_def MAXPORTS_def)
next
  case (Some cfg)
  obtain file_ports where fp: "lookup_ints cfg ''ports'' = Some file_ports"
    using assms(4) Some by (auto simp: server_getConfigs_def split: Option.bind_splits)
  obtain ps count where rp: "read_ports file_ports (replicate MAXPORTS 0) 0 = Some (ps, count)" "length ps = MAXPORTS"
    "count = int (min (length file_ports) MAXPORTS)"
    using read_ports_ok[of "replicate MAXPORTS 0" file_ports 0] by auto
  have "looked_up (junk_group junk) (lookup_int cfg ''packets_group'') \<le> INT_MAX"
    using assms(2)[OF Some] assms(3) by (auto simp: looked_up_def file_ints_ok_def split: option.splits)
  then show ?thesis
    using assms(4) Some fp rp
    by (auto simp: server_getConfigs_def server_initConfigs_def configs_ok_def isValidThreadNum_def Let_def
        MIN_THREADS_def MAX_THREADS_def INT_MAX_def split: Option.bind_splits if_splits)
qed

section \<open>Properties\<close>

text \<open>Whatever the settings file holds or fails to hold, and whatever the stack held, the
  configuration after start-up is valid, every packet is assigned to an existing worker, and the
  workers take turns, one group of consecutive packets each.\<close>

theorem configured_workers:
  assumes "length (ports conf) = MAXPORTS" and "\<And>cfg. cf = Some cfg \<Longrightarrow> file_ints_ok cfg" and "junk_group junk \<le> INT_MAX"
    and "server_getConfigs cf junk (server_initConfigs d conf) = Some (status, conf')"
  shows "configs_ok conf' \<and> getThreadIndex st conf' =
      Some ((uint (receive_counter_min st) div packets_group conf') mod threads_num conf') \<and>
    (uint (receive_counter_min st) div packets_group conf') mod threads_num conf' \<in> {0..<threads_num conf'}"
proof -
  have ok: "configs_ok conf'" by (rule init_getConfigs_ok[OF assms])
  then show ?thesis
    using getThreadIndex_eq[of conf' st] by (simp add: configs_ok_def MIN_THREADS_def MAX_THREADS_def INT_MAX_def)
qed

definition demo_file :: "int \<Rightarrow> int config_file" where
  "demo_file grp = \<lparr>lookup_int = (\<lambda>s. if s = ''packets_group'' then Some grp else if s = ''threads_num'' then Some 4 else None),
     lookup_float = (\<lambda>s. Some 2), lookup_string = (\<lambda>s. Some (ascii ''eth0'')), lookup_ints = (\<lambda>s. Some [8000, 8001])\<rparr>"

definition blank_configs :: "int configs" where
  "blank_configs = \<lparr>ports = [7], ports_count = 7, delay_in_ms = 0, threads_num = 0, redis_concurrency = 0, packets_group = 0,
     dev = [], database_ip = [], database_port = 6379\<rparr>"

definition demo_server_configs :: "int configs" where
  "demo_server_configs = \<lparr>ports = [8000], ports_count = 1, delay_in_ms = 2, threads_num = 4, redis_concurrency = 0,
     packets_group = 100, dev = ascii ''eth0'', database_ip = ascii ''eth0'', database_port = 6379\<rparr>"

theorem configured_workers_witness:
  "configs_ok demo_server_configs \<and> getThreadIndex zero_server_statistics demo_server_configs =
      Some ((uint (receive_counter_min zero_server_statistics) div packets_group demo_server_configs) mod threads_num demo_server_configs) \<and>
    (uint (receive_counter_min zero_server_statistics) div packets_group demo_server_configs) mod threads_num demo_server_configs
      \<in> {0..<threads_num demo_server_configs}"
  by (rule configured_workers[where conf = blank_configs and cf = "Some (demo_file 100)" and d = 0
        and junk = "\<lparr>junk_delay = 0, junk_threads = 0, junk_group = 0\<rparr>" and status = EXIT_SUCCESS])
    (simp_all add: blank_configs_def demo_server_configs_def demo_file_def MAXPORTS_def file_ints_ok_def INT_MIN_def INT_MAX_def
      server_getConfigs_def server_initConfigs_def read_ports_def looked_up_def ascii_def strcpy_def IP_LEN_def
      isValidThreadNum_def MIN_THREADS_def MAX_THREADS_def)

text \<open>The periodic update changes nothing but the delay and the group size, both also when it then
  reports failure, and does not repeat the validation of start-up: a file with group size zero is
  accepted, after which the next packet received divides by zero.\<close>

theorem update_accepts_zero_group:
  assumes "lookup_float cfg ''delay_in_ms'' = Some delay" and "lookup_int cfg ''packets_group'' = Some 0"
  shows "\<exists>conf'. server_updateEpoch (Some cfg) conf = (EXIT_SUCCESS, conf') \<and>
    conf' = conf\<lparr>delay_in_ms := delay, packets_group := 0\<rparr> \<and> getThreadIndex st conf' = None"
  using assms by (simp add: server_updateEpoch_def getThreadIndex_def Let_def)

theorem update_accepts_zero_group_witness:
  "\<exists>conf'. server_updateEpoch (Some (demo_file 0)) demo_server_configs = (EXIT_SUCCESS, conf') \<and>
    conf' = demo_server_configs\<lparr>delay_in_ms := 2, packets_group := 0\<rparr> \<and> getThreadIndex zero_server_statistics conf' = None"
  by (rule update_accepts_zero_group) (simp_all add: demo_file_def)

end
