(* ===== verification/Server.thy ===== *)
theory Server
  imports ServerConfig PayloadCipher Ring
begin

text \<open>
  \<^verbatim>\<open>server.c\<close>: the handlers of the receiving thread and of the workers, each as a
  function of the state the threads share.  What the kernel returns (accepted sockets, the results of
  \<^verbatim>\<open>read\<close> and \<^verbatim>\<open>write\<close>, the clock) is an argument.  \<open>None\<close> is
  undefined behaviour or a loop that does not end.
\<close>

definition STATE_PKT :: u8 where "STATE_PKT = 0"
definition REQUEST_PKT :: u8 where "REQUEST_PKT = 1"
definition HEARTBEAT_PKT :: u8 where "HEARTBEAT_PKT = 2"
definition SERVER_TO_APP :: u8 where "SERVER_TO_APP = 3"
definition SUCCESS :: int where "SUCCESS = 0"
definition FAILURE :: int where "FAILURE = 1"
definition BUFF_SIZE :: nat where "BUFF_SIZE = 200"
definition KEY_LEN :: nat where "KEY_LEN = 80"
definition VALUE_LEN :: nat where "VALUE_LEN = 80"
definition USER_DEVICE_DB :: int where "USER_DEVICE_DB = 1"
definition USER_KEY_DB :: int where "USER_KEY_DB = 2"
definition DEVICE_STATE_DB :: int where "DEVICE_STATE_DB = 3"

datatype db_op = GET | SET

definition setDirection :: "packet_format \<Rightarrow> u8 \<Rightarrow> packet_format" where
  "setDirection payload d = payload\<lparr>direction := d\<rparr>"

definition getPktType :: "packet_format \<Rightarrow> u8" where
  "getPktType payload = type payload"

text \<open>The difference is computed in \<^verbatim>\<open>long\<close> and returned as \<^verbatim>\<open>int\<close>.\<close>

definition server_getTimeDiff :: "timeval \<Rightarrow> timeval \<Rightarrow> int" where
  "server_getTimeDiff start stop = int32 ((fst stop - fst start) * 1000000 + (snd stop - snd start))"

section \<open>The busy wait\<close>

text \<open>
  \<^verbatim>\<open>nop\<close>: the clock is the sequence of its readings, the result the number of the
  reading that ended the loop and the wasted sum.  The comparison is between unsigned numbers.
\<close>

definition waste :: "int \<Rightarrow> int" where
  "waste s = fold (\<lambda>i s. int32 (s + i)) [0..99] s"

partial_function (option) nop_loop :: "(nat \<Rightarrow> timeval) \<Rightarrow> timeval \<Rightarrow> u32 \<Rightarrow> nat \<Rightarrow> int \<Rightarrow> (nat \<times> int) option" where
  "nop_loop clock start delay n s =
    (if delay \<le> word_of_int (server_getTimeDiff start (clock n)) then Some (n, waste s)
     else nop_loop clock start delay (Suc n) (waste s))"

definition nop :: "(nat \<Rightarrow> timeval) \<Rightarrow> u32 \<Rightarrow> (nat \<times> int) option" where
  "nop clock delay = (if delay = 0 then Some (0, 0) else nop_loop clock (clock 0) delay 1 0)"

definition elapsed :: "(nat \<Rightarrow> timeval) \<Rightarrow> u32 \<Rightarrow> nat \<Rightarrow> bool" where
  "elapsed clock delay n \<longleftrightarrow> delay \<le> word_of_int (server_getTimeDiff (clock 0) (clock n))"

lemma nop_loop_returns:
  assumes "elapsed clock delay n" and "m \<le> n" and "\<And>k. m \<le> k \<Longrightarrow> k < n \<Longrightarrow> \<not> elapsed clock delay k"
  shows "\<exists>s'. nop_loop clock (clock 0) delay m s = Some (n, s')"
  using assms(2,3)
proof (induction "n - m" arbitrary: m s)
  case 0
  then have "m = n" by simp
  then show ?case using assms(1) by (subst nop_loop.simps) (simp add: elapsed_def)
next
  case (Suc d)
  then have "\<not> elapsed clock delay m" by simp
  with Suc.hyps(1)[of "Suc m" "waste s"] Suc.hyps(2) Suc.prems show ?case
    by (subst nop_loop.simps) (simp add: elapsed_def)
qed

lemma nop_loop_elapsed: "nop_loop clock start delay m s = Some r \<Longrightarrow>
    m \<le> fst r \<and> delay \<le> word_of_int (server_getTimeDiff start (clock (fst r)))"
proof (rule nop_loop.raw_induct[where P = "\<lambda>clock start delay m s r.
      m \<le> fst r \<and> delay \<le> word_of_int (server_getTimeDiff start (clock (fst r)))"], goal_cases)
  case (1 f clock start delay m s r)
  from 1(3) show ?case
  proof (cases "delay \<le> word_of_int (server_getTimeDiff start (clock m))")
    case False
    then show ?thesis using 1(2)[of clock start delay "Suc m" "waste s" r] 1(3) by simp
  qed auto
qed

section \<open>The database\<close>

definition queryDatabase ::
    "('c, 'w) redis_command \<Rightarrow> 'c clusterInfo \<Rightarrow> cstr \<Rightarrow> cstr \<Rightarrow> cstr \<Rightarrow> int \<Rightarrow> db_op \<Rightarrow> 'w \<Rightarrow> (int \<times> 'w) option" where
  "queryDatabase redis cl junk key cmpValue database op w = (case op of
     GET \<Rightarrow> do {
       (error, value, w) \<leftarrow> get_withdb redis cl VALUE_LEN key junk database w;
       if error = 0 then
         if value = ascii ''nil'' then do {
           (_, w) \<leftarrow> set_withdb redis cl key cmpValue database w;
           Some (SUCCESS, w)
         } else Some (SUCCESS, w)
       else Some (FAILURE, w)
     }
   | SET \<Rightarrow> do {
       (_, w) \<leftarrow> set_withdb redis cl key cmpValue database w;
       Some (SUCCESS, w)
     })"

text \<open>\<^verbatim>\<open>sprintf\<close> with \<^verbatim>\<open>%d\<close> reads the unsigned numbers as signed.\<close>

definition processDatabase ::
    "('c, 'w) redis_command \<Rightarrow> 'c clusterInfo \<Rightarrow> cstr \<Rightarrow> packet_format \<Rightarrow> 'w \<Rightarrow> 'w option" where
  "processDatabase redis cl junk payload w = do {
     u \<leftarrow> load (userID payload) 0;
     user \<leftarrow> strcpy KEY_LEN (decimal (sint u));
     d \<leftarrow> load (dstDeviceID payload) 0;
     device \<leftarrow> strcpy KEY_LEN (decimal (sint d));
     s \<leftarrow> load (state payload) 0;
     st \<leftarrow> strcpy KEY_LEN (decimal (uint s));
     i \<leftarrow> load (userID payload) 1;
     sid \<leftarrow> strcpy KEY_LEN (decimal (sint i));
     (_, w) \<leftarrow> queryDatabase redis cl junk user device USER_DEVICE_DB GET w;
     (_, w) \<leftarrow> queryDatabase redis cl junk user st DEVICE_STATE_DB SET w;
     (_, w) \<leftarrow> queryDatabase redis cl junk sid device USER_KEY_DB GET w;
     Some w
   }"

section \<open>Shared state\<close>

text \<open>
  What the threads share, and what the kernel holds for them: the sockets that are open (the listening
  one included) and the bytes written to each.
\<close>

record server_state =
  usr_num :: int
  stats :: server_statistics
  rings :: "ring_buffer list"
  open_fds :: "u32 list"
  written :: "(u32 \<times> u8 list) list"

text \<open>A handler goes on, waits for room in a ring (or for more input), or ends the program.\<close>

datatype 'a outcome = Goes 'a | Waits | Exits

definition decr_usr_num :: "server_state \<Rightarrow> server_state" where
  "decr_usr_num s = s\<lparr>usr_num := usr_num s - 1\<rparr>"

definition incr_usr_num :: "server_state \<Rightarrow> server_state" where
  "incr_usr_num s = s\<lparr>usr_num := usr_num s + 1\<rparr>"

text \<open>\<open>registered\<close>: whether \<^verbatim>\<open>epoll_ctl\<close> succeeds.\<close>

definition server_addEpollEvent :: "bool \<Rightarrow> server_state \<Rightarrow> server_state outcome" where
  "server_addEpollEvent registered s = (if \<not> registered then Exits else Goes (incr_usr_num s))"

definition server_deleteEpollEvent :: "u32 \<Rightarrow> server_state \<Rightarrow> server_state" where
  "server_deleteEpollEvent fd s = decr_usr_num (s\<lparr>open_fds := remove1 fd (open_fds s)\<rparr>)"

text \<open>
  \<^verbatim>\<open>acceptEpollEvents\<close>: each accepted socket comes with whether its options can be
  set and whether it can be registered; a failing \<^verbatim>\<open>accept\<close> ends the loop, whatever
  the error.
\<close>

datatype accept_result = Accepted u32 bool bool | Accept_fails

fun acceptEpollEvents :: "accept_result list \<Rightarrow> server_state \<Rightarrow> server_state outcome" where
  "acceptEpollEvents [] s = Waits"
| "acceptEpollEvents (Accept_fails # rs) s = Goes s"
| "acceptEpollEvents (Accepted infd options registered # rs) s =
    (let s = s\<lparr>open_fds := infd # open_fds s\<rparr> in
     if \<not> options then Exits
     else case server_addEpollEvent registered s of
       Goes s \<Rightarrow> acceptEpollEvents rs s
     | Waits \<Rightarrow> Waits
     | Exits \<Rightarrow> Exits)"

section \<open>Receiving\<close>

datatype read_result = Data "u8 list" | End_of_file | Would_block | Read_fails

datatype drained = Closed | Drained "u8 list" | Reading

fun read_loop :: "read_result list \<Rightarrow> u8 list \<Rightarrow> drained option" where
  "read_loop [] buf = Some Reading"
| "read_loop (Data d # rs) buf = Option.bind (memcpy_to buf 0 d) (read_loop rs)"
| "read_loop (End_of_file # rs) buf = Some Closed"
| "read_loop (Read_fails # rs) buf = Some Closed"
| "read_loop (Would_block # rs) buf = Some (Drained buf)"

text \<open>
  What is done under the lock of the ring once there is room: the packet is copied into the cell at the
  head.  The code comes here after the wait as well, and does not test again.
\<close>

definition put_packet :: "nat \<Rightarrow> u8 list \<Rightarrow> timeval \<Rightarrow> u32 \<Rightarrow> u32 \<Rightarrow> server_state \<Rightarrow> server_state option" where
  "put_packet thread buf now efd fd s = do {
     ring \<leftarrow> load (rings s) thread;
     ring \<leftarrow> ring_write (buf, fd, efd, now) ring;
     Some (s\<lparr>rings := (rings s)[thread := ring_buffer_push ring]\<rparr>)
   }"

definition processEPOLLIN ::
    "'d configs \<Rightarrow> read_result list \<Rightarrow> timeval \<Rightarrow> u8 list \<Rightarrow> u32 \<Rightarrow> u32 \<Rightarrow> server_state \<Rightarrow> server_state outcome option" where
  "processEPOLLIN conf results now junk efd fd s = do {
     r \<leftarrow> read_loop results junk;
     (case r of
        Reading \<Rightarrow> Some Waits
      | Closed \<Rightarrow> Some (Goes (server_deleteEpollEvent fd s))
      | Drained buf \<Rightarrow> do {
          let s = s\<lparr>stats := server_increReceivePkts (stats s)\<rparr>;
          thread \<leftarrow> getThreadIndex (stats s) conf;
          ring \<leftarrow> load (rings s) (nat thread);
          if ring_buffer_avail ring \<le> 1 then Some Waits
          else map_option Goes (put_packet (nat thread) buf now efd fd s)
        })
   }"

section \<open>Processing\<close>

text \<open>\<open>result\<close> is what \<^verbatim>\<open>write\<close> returns, \<open>None\<close> for -1.\<close>

definition processRequestPkt ::
    "nat option \<Rightarrow> u8 list \<Rightarrow> u32 \<Rightarrow> packet_format \<Rightarrow> server_state \<Rightarrow> server_state option" where
  "processRequestPkt result payload_buf fd payload s = do {
     (b, n) \<leftarrow> serialize_payload payload_buf 0 payload;
     Some (case result of
        None \<Rightarrow> server_deleteEpollEvent fd s
      | Some k \<Rightarrow> s\<lparr>stats := server_increSendPkts (stats s), written := written s @ [(fd, take k (take n b))]\<rparr>)
   }"

text \<open>What one round of a worker reads from the clock, the kernel and its uninitialised locals, and whether
  the server is built with the \<^verbatim>\<open>CIPHER\<close> switch.\<close>

record round =
  deciphers :: bool
  clock :: "nat \<Rightarrow> timeval"
  cipher_start :: timeval
  cipher_end :: timeval
  db_start :: timeval
  db_end :: timeval
  done_time :: timeval
  write_result :: "nat option"
  buf_plain :: "u8 list"
  payload_junk :: packet_format
  value_junk :: cstr
  reply_junk :: "u8 list"

definition answer_request :: "round \<Rightarrow> u32 \<Rightarrow> packet_format \<Rightarrow> server_state \<Rightarrow> server_state option" where
  "answer_request e fd payload s =
    (if getPktType payload = REQUEST_PKT then
       processRequestPkt (write_result e) (reply_junk e) fd (setDirection payload SERVER_TO_APP)
         (s\<lparr>stats := server_increRequestPkts (stats s)\<rparr>)
     else Some s)"

text \<open>
  Built with the cipher, a packet is decrypted into an array and decoded from there, the processing
  delay is wasted, and the time of all that is counted; without it the packet is decoded in place.
  \<open>to_us\<close> is the conversion of the delay to microseconds.
\<close>

definition decode_packet ::
    "'d configs \<Rightarrow> ('d \<Rightarrow> u32) \<Rightarrow> u64 list \<Rightarrow> round \<Rightarrow> u8 list \<Rightarrow> server_statistics \<Rightarrow> (packet_format \<times> server_statistics) option" where
  "decode_packet conf to_us table e buf st =
    (if deciphers e then do {
       plain \<leftarrow> open_packet table buf (buf_plain e);
       payload \<leftarrow> server_deserialize_payload plain 0 (payload_junk e);
       _ \<leftarrow> nop (clock e) (to_us (delay_in_ms conf));
       Some (payload, updateCipherDelay (server_getTimeDiff (cipher_start e) (cipher_end e)) st)
     } else do {
       payload \<leftarrow> server_deserialize_payload buf 0 (payload_junk e);
       Some (payload, st)
     })"

text \<open>
  One round of the loop of \<^verbatim>\<open>processPackets\<close>.  \<open>take_packet\<close> is what follows the wait; the
  code comes there after the wait as well, and does not test again.
\<close>

definition take_packet ::
    "'d configs \<Rightarrow> ('d \<Rightarrow> u32) \<Rightarrow> ('c, 'w) redis_command \<Rightarrow> 'c clusterInfo \<Rightarrow> u64 list \<Rightarrow> round \<Rightarrow> nat
      \<Rightarrow> server_state \<times> 'w \<Rightarrow> (server_state \<times> 'w) option" where
  "take_packet conf to_us redis cl table e thread = (\<lambda>(s, w). do {
     ring \<leftarrow> load (rings s) thread;
     let packet = ring_buffer_tail ring;
     p \<leftarrow> ring_read ring;
     (payload, st) \<leftarrow> decode_packet conf to_us table e (pk_buf p) (stats s);
     let s = s\<lparr>stats := st\<rparr>;
     let fd = pk_fd p;
     let s = s\<lparr>rings := (rings s)[thread := ring_buffer_pop ring]\<rparr>;
     w \<leftarrow> processDatabase redis cl (value_junk e) payload w;
     let s = s\<lparr>stats := updateDBDelay (server_getTimeDiff (db_start e) (db_end e)) (stats s)\<rparr>;
     s \<leftarrow> answer_request e fd payload s;
     ring \<leftarrow> load (rings s) thread;
     ring \<leftarrow> set_done packet (done_time e) ring;
     Some (s\<lparr>rings := (rings s)[thread := ring]\<rparr>, w)
   })"

definition process_packet ::
    "'d configs \<Rightarrow> ('d \<Rightarrow> u32) \<Rightarrow> ('c, 'w) redis_command \<Rightarrow> 'c clusterInfo \<Rightarrow> u64 list \<Rightarrow> round \<Rightarrow> nat
      \<Rightarrow> server_state \<times> 'w \<Rightarrow> (server_state \<times> 'w) outcome option" where
  "process_packet conf to_us redis cl table e thread = (\<lambda>(s, w). do {
     ring \<leftarrow> load (rings s) thread;
     if ring_buffer_used ring \<le> 0 then Some Waits
     else map_option Goes (take_packet conf to_us redis cl table e thread (s, w))
   })"

section \<open>The event loop\<close>

text \<open>A reported event with what the kernel then returns to its handler.\<close>

record event =
  err :: bool
  hup :: bool
  readable :: bool
  ev_fd :: u32
  accepts :: "accept_result list"
  ev_input :: "read_result list"
  ev_time :: timeval
  ev_junk :: "u8 list"

definition server_dispatch :: "'d configs \<Rightarrow> u32 \<Rightarrow> u32 \<Rightarrow> event \<Rightarrow> server_state \<Rightarrow> server_state outcome option" where
  "server_dispatch conf efd sfd e s =
    (if err e \<or> hup e \<or> \<not> readable e then Some (Goes (server_deleteEpollEvent (ev_fd e) s))
     else if sfd = ev_fd e then Some (acceptEpollEvents (accepts e) s)
     else processEPOLLIN conf (ev_input e) (ev_time e) (ev_junk e) efd (ev_fd e) s)"

fun server_events :: "'d configs \<Rightarrow> u32 \<Rightarrow> u32 \<Rightarrow> event list \<Rightarrow> server_state \<Rightarrow> server_state outcome option" where
  "server_events conf efd sfd [] s = Some (Goes s)"
| "server_events conf efd sfd (e # es) s = do {
     r \<leftarrow> server_dispatch conf efd sfd e s;
     (case r of
        Goes s \<Rightarrow> server_events conf efd sfd es s
      | Waits \<Rightarrow> Some Waits
      | Exits \<Rightarrow> Some Exits)
   }"

end
