(* ===== verification/ServerTheorems.thy ===== *)
theory ServerTheorems
  imports Server RedisTheorems WireTheorems
begin

text \<open>
  The properties of \<^verbatim>\<open>server.c\<close>: the busy wait, the effect of a packet on the database,
  what a burst of packets on one socket leaves in the ring, a request from socket to answer, and the
  number of open connections.
\<close>

section \<open>The busy wait\<close>

text \<open>C26: the busy wait returns exactly when the clock at some time shows the delay, compared as
  unsigned numbers of microseconds, and then at the first such reading; otherwise it never returns.\<close>

theorem nop_waits_for_delay:
  "map_option fst (nop clk delay) =
    (if delay = 0 then Some 0
     else if \<exists>n. elapsed clk delay (Suc n) then Some (Suc (LEAST n. elapsed clk delay (Suc n)))
     else None)"
proof (cases "\<exists>n. elapsed clk delay (Suc n)")
  case True
  let ?n = "LEAST n. elapsed clk delay (Suc n)"
  have e: "elapsed clk delay (Suc ?n)" by (rule LeastI_ex[OF True])
  have before: "\<not> elapsed clk delay k" if k: "1 \<le> k" "k < Suc ?n" for k
  proof -
    obtain j where "k = Suc j" using k(1) not0_implies_Suc[of k] by auto
    with not_less_Least[of j] k(2) show ?thesis by blast
  qed
  have "1 \<le> Suc ?n" by simp
  from nop_loop_returns[OF e this before] obtain s' where "nop_loop clk (clk 0) delay 1 0 = Some (Suc ?n, s')"
    by blast
  with True show ?thesis by (simp add: nop_def)
next
  case False
  have "nop_loop clk (clk 0) delay 1 0 = None"
  proof (cases "nop_loop clk (clk 0) delay 1 0")
    case (Some r)
    from nop_loop_elapsed[OF this] have "elapsed clk delay (Suc (fst r - 1))" by (simp add: elapsed_def)
    with False show ?thesis by blast
  qed simp
  with False show ?thesis by (simp add: nop_def)
qed

section \<open>The database\<close>

lemma length_decimal_nat: "n < 10 ^ k \<Longrightarrow> 0 < k \<Longrightarrow> length (decimal_nat n) \<le> k"
proof (induction n arbitrary: k rule: decimal_nat.induct)
  case (1 n)
  show ?case
  proof (cases "n < 10")
    case True
    with "1.prems" show ?thesis by (subst decimal_nat.simps) simp
  next
    case False
    then obtain j where k: "k = Suc j" "0 < j" using "1.prems" by (cases k; cases "k - 1") auto
    then have "n div 10 < 10 ^ j" using "1.prems" by (simp add: less_mult_imp_div_less)
    with "1.IH"[OF False, of j] k False show ?thesis by (subst decimal_nat.simps) simp
  qed
qed

lemma length_decimal:
  assumes "INT_MIN \<le> i" and "i \<le> 4294967295"
  shows "length (decimal i) \<le> 11"
proof -
  have "nat i < 10 ^ 10" "nat (- i) < 10 ^ 10" using assms by (simp_all add: INT_MIN_def)
  then have "length (decimal_nat (nat i)) \<le> 10" "length (decimal_nat (nat (- i))) \<le> 10"
    using length_decimal_nat[of _ 10] by simp_all
  then show ?thesis by (simp add: decimal_def)
qed

lemma length_decimal_sint: "length (decimal (sint (x :: u32))) \<le> 11"
  using sint_ge[of x] sint_lt[of x] by (intro length_decimal) (simp_all add: INT_MIN_def)

lemma length_decimal_u8: "length (decimal (uint (x :: u8))) \<le> 11"
proof (rule length_decimal)
  show "INT_MIN \<le> uint x" by (rule order_trans[of _ 0]) (simp_all add: INT_MIN_def)
  have "uint x < 2 ^ 8" using unsigned_less[of x] by simp
  then show "uint x \<le> 4294967295" by simp
qed

lemma strcpy_decimal [simp]:
  "strcpy KEY_LEN (decimal (sint (x :: u32))) = Some (decimal (sint x))"
  "strcpy KEY_LEN (decimal (uint (y :: u8))) = Some (decimal (uint y))"
  using length_decimal_sint[of x] length_decimal_u8[of y] by (simp_all add: strcpy_def KEY_LEN_def)

text \<open>Values the code itself writes into the database are short decimal numbers.\<close>

definition db_fits :: "('w \<Rightarrow> 'c \<Rightarrow> cstr \<Rightarrow> cstr option) \<Rightarrow> 'c clusterInfo \<Rightarrow> 'w \<Rightarrow> bool" where
  "db_fits rd cl w \<longleftrightarrow> (\<forall>db key v. db_ok db key \<longrightarrow> db_value rd cl w db key = Some v \<longrightarrow> length v < VALUE_LEN \<and> v \<noteq> ascii ''nil'')"

definition db_update :: "(int \<Rightarrow> cstr \<Rightarrow> cstr option) \<Rightarrow> int \<Rightarrow> cstr \<Rightarrow> cstr \<Rightarrow> int \<Rightarrow> cstr \<Rightarrow> cstr option" where
  "db_update f db key v = (\<lambda>db' key'. if db' = db \<and> key' = key then Some v else f db' key')"

definition db_default :: "(int \<Rightarrow> cstr \<Rightarrow> cstr option) \<Rightarrow> int \<Rightarrow> cstr \<Rightarrow> cstr \<Rightarrow> int \<Rightarrow> cstr \<Rightarrow> cstr option" where
  "db_default f db key v = (case f db key of None \<Rightarrow> db_update f db key v | Some _ \<Rightarrow> f)"

definition same_db :: "('w \<Rightarrow> 'c \<Rightarrow> cstr \<Rightarrow> cstr option) \<Rightarrow> 'c clusterInfo \<Rightarrow> 'w \<Rightarrow> (int \<Rightarrow> cstr \<Rightarrow> cstr option) \<Rightarrow> bool" where
  "same_db rd cl w f \<longleftrightarrow> (\<forall>db key. db_ok db key \<longrightarrow> db_value rd cl w db key = f db key)"

lemma query_set:
  assumes "redis_laws redis rd" and "cluster_ready cl" and "db_ok db key" and "same_db rd cl w f"
  obtains w' where "queryDatabase redis cl junk key v db SET w = Some (SUCCESS, w')"
    and "same_db rd cl w' (db_update f db key v)"
proof -
  obtain w' where w: "set_withdb redis cl key v db w = Some (0, w')"
    "\<And>db' key'. db_ok db' key' \<Longrightarrow> db_value rd cl w' db' key' =
      (if db' = db \<and> key' = key then Some v else db_value rd cl w db' key')"
    using set_withdb_eq[OF assms(1-3)] by blast
  show ?thesis using w assms(4) by (intro that[of w']) (simp_all add: queryDatabase_def same_db_def db_update_def)
qed

lemma query_get:
  assumes "redis_laws redis rd" and "cluster_ready cl" and "db_ok db key" and "same_db rd cl w f" and "db_fits rd cl w"
  obtains w' where "queryDatabase redis cl junk key v db GET w = Some (SUCCESS, w')"
    and "same_db rd cl w' (db_default f db key v)"
proof (cases "db_value rd cl w db key")
  case None
  have g: "get_withdb redis cl VALUE_LEN key junk db w = Some (0, ascii ''nil'', w)"
    using get_withdb_eq[OF assms(1-3), of VALUE_LEN w junk] None by (simp add: VALUE_LEN_def)
  obtain w' where "set_withdb redis cl key v db w = Some (0, w')"
    "\<And>db' key'. db_ok db' key' \<Longrightarrow> db_value rd cl w' db' key' =
      (if db' = db \<and> key' = key then Some v else db_value rd cl w db' key')"
    using set_withdb_eq[OF assms(1-3)] by blast
  with g None assms(3,4) show ?thesis
    by (intro that[of w']) (auto simp: queryDatabase_def same_db_def db_default_def db_update_def)
next
  case (Some x)
  have "length x < VALUE_LEN" "x \<noteq> ascii ''nil''" using assms(3,5) Some by (auto simp: db_fits_def)
  moreover from this have "get_withdb redis cl VALUE_LEN key junk db w = Some (0, x, w)"
    using get_withdb_eq[OF assms(1-3), of VALUE_LEN w junk] Some by (simp add: VALUE_LEN_def)
  ultimately show ?thesis
    using Some assms(3,4) by (intro that[of w]) (auto simp: queryDatabase_def same_db_def db_default_def)
qed

definition short_value :: "cstr \<Rightarrow> bool" where
  "short_value v \<longleftrightarrow> length v < VALUE_LEN \<and> v \<noteq> ascii ''nil''"

lemma short_decimal: "length (decimal i) \<le> 11 \<Longrightarrow> short_value (decimal i)"
proof -
  assume a: "length (decimal i) \<le> 11"
  have "decimal i \<noteq> ascii ''nil''"
  proof
    assume "decimal i = ascii ''nil''"
    then have "110 \<in> set (decimal i)" by (simp add: ascii_def)
    from decimal_chars[OF this] show False by (simp add: is_digit_def)
  qed
  with a show ?thesis by (simp add: short_value_def VALUE_LEN_def)
qed

lemmas short_sint = short_decimal[OF length_decimal_sint]
lemmas short_u8 = short_decimal[OF length_decimal_u8]

lemma fits_update:
  "db_fits rd cl w \<Longrightarrow> same_db rd cl w f \<Longrightarrow> same_db rd cl w' (db_update f db key v) \<Longrightarrow> short_value v \<Longrightarrow> db_fits rd cl w'"
  by (simp add: db_fits_def same_db_def db_update_def short_value_def)

lemma fits_default:
  "db_fits rd cl w \<Longrightarrow> same_db rd cl w f \<Longrightarrow> same_db rd cl w' (db_default f db key v) \<Longrightarrow> short_value v \<Longrightarrow> db_fits rd cl w'"
  using fits_update[of rd cl w f w' db key v]
  by (cases "f db key") (simp_all add: db_default_def, simp add: db_fits_def same_db_def)

lemma processDatabase_runs:
  assumes "redis_laws redis rd" and "cluster_ready cl" and "wf_packet pk" and "db_fits rd cl w"
  obtains w' where "processDatabase redis cl junk pk w = Some w'"
    and "same_db rd cl w'
      (db_default
        (db_update
          (db_default (db_value rd cl w) USER_DEVICE_DB (decimal (sint (userID pk ! 0))) (decimal (sint (dstDeviceID pk ! 0))))
          DEVICE_STATE_DB (decimal (sint (userID pk ! 0))) (decimal (uint (state pk ! 0))))
        USER_KEY_DB (decimal (sint (userID pk ! 1))) (decimal (sint (dstDeviceID pk ! 0))))"
proof -
  let ?u = "decimal (sint (userID pk ! 0))" and ?d = "decimal (sint (dstDeviceID pk ! 0))"
  let ?s = "decimal (uint (state pk ! 0))" and ?i = "decimal (sint (userID pk ! 1))"
  let ?f = "db_value rd cl w"
  let ?g = "db_default ?f USER_DEVICE_DB ?u ?d"
  let ?h = "db_update ?g DEVICE_STATE_DB ?u ?s"
  have ok: "db_ok USER_DEVICE_DB ?u" "db_ok DEVICE_STATE_DB ?u" "db_ok USER_KEY_DB ?i"
    using length_decimal_sint[of "userID pk ! 0"] length_decimal_sint[of "userID pk ! 1"]
    by (intro db_ok_small; simp add: USER_DEVICE_DB_def DEVICE_STATE_DB_def USER_KEY_DB_def)+
  have f: "same_db rd cl w ?f" by (simp add: same_db_def)
  obtain w1 where w1: "queryDatabase redis cl junk ?u ?d USER_DEVICE_DB GET w = Some (SUCCESS, w1)" "same_db rd cl w1 ?g"
    by (rule query_get[OF assms(1,2) ok(1) f assms(4)])
  obtain w2 where w2: "queryDatabase redis cl junk ?u ?s DEVICE_STATE_DB SET w1 = Some (SUCCESS, w2)" "same_db rd cl w2 ?h"
    by (rule query_set[OF assms(1,2) ok(2) w1(2)])
  have "db_fits rd cl w1" by (rule fits_default[OF assms(4) f w1(2)]) (rule short_sint)
  then have "db_fits rd cl w2" by (rule fits_update[OF _ w1(2) w2(2)]) (rule short_u8)
  then obtain w3 where "queryDatabase redis cl junk ?i ?d USER_KEY_DB GET w2 = Some (SUCCESS, w3)"
      "same_db rd cl w3 (db_default ?h USER_KEY_DB ?i ?d)"
    by (rule query_get[OF assms(1,2) ok(3) w2(2)])
  then show ?thesis
    using w1(1) w2(1) assms(3) by (intro that[of w3]) (simp_all add: processDatabase_def wf_packet_def)
qed

lemma processDatabase_state:
  assumes "redis_laws redis rd" and "cluster_ready cl" and "wf_packet pk" and "db_fits rd cl w"
  obtains w' where "processDatabase redis cl junk pk w = Some w'"
    and "db_value rd cl w' DEVICE_STATE_DB (decimal (sint (userID pk ! 0))) = Some (decimal (uint (state pk ! 0)))"
proof (rule processDatabase_runs[OF assms, of junk])
  fix w' assume w': "processDatabase redis cl junk pk w = Some w'"
    "same_db rd cl w' (db_default
        (db_update
          (db_default (db_value rd cl w) USER_DEVICE_DB (decimal (sint (userID pk ! 0))) (decimal (sint (dstDeviceID pk ! 0))))
          DEVICE_STATE_DB (decimal (sint (userID pk ! 0))) (decimal (uint (state pk ! 0))))
        USER_KEY_DB (decimal (sint (userID pk ! 1))) (decimal (sint (dstDeviceID pk ! 0))))"
  have "db_ok DEVICE_STATE_DB (decimal (sint (userID pk ! 0)))"
    using length_decimal_sint[of "userID pk ! 0"] by (intro db_ok_small) (simp_all add: DEVICE_STATE_DB_def)
  with w' show thesis
    by (intro that[of w'])
      (simp_all add: same_db_def db_default_def db_update_def DEVICE_STATE_DB_def USER_KEY_DB_def split: option.splits)
qed

text \<open>C11: processing a packet sets the device state of its user to the packet's state byte, remembers
  the destination device for the user and for the session if there was none yet, and touches nothing
  else, the numbers being written in decimal as signed.\<close>

theorem processDatabase_effect:
  assumes "redis_laws redis rd" and "cluster_ready cl" and "wf_packet pk"
    and "db_fits rd cl w"
  shows "\<exists>w'. processDatabase redis cl junk pk w = Some w' \<and>
    same_db rd cl w'
      (db_default
        (db_update
          (db_default (db_value rd cl w) USER_DEVICE_DB (decimal (sint (userID pk ! 0))) (decimal (sint (dstDeviceID pk ! 0))))
          DEVICE_STATE_DB (decimal (sint (userID pk ! 0))) (decimal (uint (state pk ! 0))))
        USER_KEY_DB (decimal (sint (userID pk ! 1))) (decimal (sint (dstDeviceID pk ! 0))))"
  using processDatabase_runs[OF assms] by metis

lemma demo_empty_fits: "db_fits (\<lambda>w c. w) demo_cluster (\<lambda>k. None)"
  by (simp add: db_fits_def db_value_def)

theorem processDatabase_effect_witness:
  "\<exists>w'. processDatabase demo_redis demo_cluster [] initPayload (\<lambda>k. None) = Some w' \<and>
    same_db (\<lambda>w c. w) demo_cluster w'
      (db_default
        (db_update
          (db_default (db_value (\<lambda>w c. w) demo_cluster (\<lambda>k. None)) USER_DEVICE_DB (decimal (sint (userID initPayload ! 0)))
            (decimal (sint (dstDeviceID initPayload ! 0))))
          DEVICE_STATE_DB (decimal (sint (userID initPayload ! 0))) (decimal (uint (state initPayload ! 0))))
        USER_KEY_DB (decimal (sint (userID initPayload ! 1))) (decimal (sint (dstDeviceID initPayload ! 0))))"
  by (rule processDatabase_effect[OF demo_laws demo_ready _ demo_empty_fits]) simp

section \<open>Receiving\<close>

lemma read_loop_data:
  "list_all (\<lambda>d. length d = PAYLOAD_SIZE) ds \<Longrightarrow> PAYLOAD_SIZE \<le> length buf \<Longrightarrow>
   read_loop (map Data ds @ [Would_block]) buf =
     Some (Drained (if ds = [] then buf else last ds @ drop PAYLOAD_SIZE buf))"
proof (induction ds arbitrary: buf)
  case (Cons d ds)
  have "memcpy_to buf 0 d = Some (d @ drop PAYLOAD_SIZE buf)"
    using Cons.prems by (simp add: memcpy_to_def splice_def)
  then show ?case using Cons.IH[of "d @ drop PAYLOAD_SIZE buf"] Cons.prems by simp
qed simp

definition server_ok :: "'d configs \<Rightarrow> server_state \<Rightarrow> bool" where
  "server_ok conf s \<longleftrightarrow> configs_ok conf \<and> length (rings s) = nat (threads_num conf) \<and> list_all ring_ok (rings s)"

text \<open>The worker that the next received packet goes to.\<close>

definition next_thread :: "'d configs \<Rightarrow> server_state \<Rightarrow> nat" where
  "next_thread conf s =
     nat ((uint (receive_counter_min (stats s) + 1) div packets_group conf) mod threads_num conf)"

lemma next_thread_ok:
  assumes "server_ok conf s"
  shows "getThreadIndex (server_increReceivePkts (stats s)) conf = Some (int (next_thread conf s))"
    and "next_thread conf s < length (rings s)"
proof -
  have c: "0 < packets_group conf" "packets_group conf \<le> INT_MAX" "0 < threads_num conf" "threads_num conf \<le> INT_MAX"
    using assms by (simp_all add: server_ok_def configs_ok_def MIN_THREADS_def MAX_THREADS_def INT_MAX_def)
  let ?i = "(uint (receive_counter_min (stats s) + 1) div packets_group conf) mod threads_num conf"
  have i: "0 \<le> ?i" "?i < threads_num conf"
    by (rule pos_mod_sign[OF c(3)], rule pos_mod_bound[OF c(3)])
  show "getThreadIndex (server_increReceivePkts (stats s)) conf = Some (int (next_thread conf s))"
    using getThreadIndex_eq[OF c, of "server_increReceivePkts (stats s)"] i(1)
    by (simp add: server_increReceivePkts_def next_thread_def)
  show "next_thread conf s < length (rings s)"
    using assms i by (simp add: server_ok_def next_thread_def nat_less_iff)
qed

lemma processEPOLLIN_drained:
  assumes "server_ok conf s" and "read_loop results junk = Some (Drained buf)" and "PAYLOAD_SIZE \<le> length buf"
    and "used (rings s ! next_thread conf s) \<noteq> 4095"
  shows "\<exists>r. processEPOLLIN conf results now junk efd fd s = Some (Goes (s\<lparr>stats := server_increReceivePkts (stats s),
      rings := (rings s)[next_thread conf s := r]\<rparr>)) \<and> ring_ok r \<and>
    items r = items (rings s ! next_thread conf s) @ [sent_message (buf, fd, efd, now)]"
proof -
  let ?t = "next_thread conf s" and ?m = "(buf, fd, efd, now)"
  let ?ring = "rings s ! ?t"
  have ok: "ring_ok ?ring" using assms(1) next_thread_ok(2)[OF assms(1)] by (simp add: server_ok_def list_all_length)
  have "msg_ok ?m" using assms(3) by (simp add: msg_ok_def)
  then obtain r where "ring_put ?m ?ring = Some r" "ring_ok r" "items r = items ?ring @ [sent_message ?m]"
    using ring_put_ok[OF ok _ assms(4)] by blast
  then show ?thesis
    using assms(2) next_thread_ok[OF assms(1)] guards_eq[OF ok]
    by (auto simp: processEPOLLIN_def put_packet_def ring_put_def split: if_splits intro!: exI[of _ r])
qed

text \<open>C40: when several packets are waiting on a socket, the loop that empties the socket reads each
  over the previous one: however many arrived, one packet is counted and only the last one is put in
  the ring.\<close>

theorem burst_keeps_last:
  assumes "server_ok conf s" and "list_all (\<lambda>d. length d = PAYLOAD_SIZE) ds" and "ds \<noteq> []"
    and "length junk = BUFF_SIZE" and "used (rings s ! next_thread conf s) \<noteq> 4095"
  shows "\<exists>r. processEPOLLIN conf (map Data ds @ [Would_block]) now junk efd fd s =
      Some (Goes (s\<lparr>stats := server_increReceivePkts (stats s), rings := (rings s)[next_thread conf s := r]\<rparr>)) \<and>
    ring_ok r \<and> items r = items (rings s ! next_thread conf s) @ [(last ds, fd, efd, now)]"
proof -
  let ?buf = "last ds @ drop PAYLOAD_SIZE junk"
  have "length (last ds) = PAYLOAD_SIZE" using assms(2,3) by (simp add: list_all_iff)
  then have m: "sent_message (?buf, fd, efd, now) = (last ds, fd, efd, now)" and l: "PAYLOAD_SIZE \<le> length ?buf"
    by (simp_all add: sent_message_def slice_def)
  have "read_loop (map Data ds @ [Would_block]) junk = Some (Drained ?buf)"
    using read_loop_data[OF assms(2), of junk] assms(3,4) by (simp add: BUFF_SIZE_def)
  from processEPOLLIN_drained[OF assms(1) this l assms(5), where now = now and efd = efd and fd = fd]
  show ?thesis by (simp only: m)
qed

definition demo_state :: server_state where
  "demo_state = \<lparr>usr_num = 2, stats = zero_server_statistics, rings = replicate 4 ring_buffer_init,
     open_fds = [5, 3], written = []\<rparr>"

lemma demo_server_ok: "server_ok demo_server_configs demo_state"
  by (simp add: server_ok_def demo_state_def demo_server_configs_def configs_ok_def MAXPORTS_def MIN_THREADS_def
      MAX_THREADS_def INT_MAX_def list_all_iff ring_ok_init)

lemma demo_next_thread: "next_thread demo_server_configs demo_state = 0"
  by (simp add: next_thread_def demo_state_def demo_server_configs_def zero_server_statistics_def)

theorem burst_keeps_last_witness:
  "\<exists>r. processEPOLLIN demo_server_configs (map Data [replicate 146 1, replicate 146 2] @ [Would_block]) (7, 8)
        (replicate 200 0) 3 5 demo_state =
      Some (Goes (demo_state\<lparr>stats := server_increReceivePkts (stats demo_state),
        rings := (rings demo_state)[next_thread demo_server_configs demo_state := r]\<rparr>)) \<and>
    ring_ok r \<and> items r = items (rings demo_state ! next_thread demo_server_configs demo_state)
      @ [(last [replicate 146 1, replicate 146 2], 5, 3, (7, 8))]"
  by (rule burst_keeps_last[OF demo_server_ok])
    (simp_all only: demo_next_thread, simp_all add: demo_state_def BUFF_SIZE_def)

section \<open>A packet\<close>

text \<open>
  A round of a worker whose busy wait ends.  Built with the cipher, the worker's array must have room for
  the four bytes that decryption writes beyond the 146 of its declaration; without the cipher there is no
  such array.
\<close>

definition round_ok :: "'d configs \<Rightarrow> ('d \<Rightarrow> u32) \<Rightarrow> round \<Rightarrow> bool" where
  "round_ok conf to_us e \<longleftrightarrow> wf_packet (payload_junk e) \<and> PAYLOAD_SIZE \<le> length (reply_junk e) \<and>
     (deciphers e \<longrightarrow> 150 \<le> length (buf_plain e) \<and> nop (clock e) (to_us (delay_in_ms conf)) \<noteq> None)"

text \<open>The bytes of a packet on the wire: as it is encoded, or encrypted by a client whose arrays have four
  spare bytes.\<close>

definition on_wire :: "bool \<Rightarrow> u64 list \<Rightarrow> packet_format \<Rightarrow> u8 list \<Rightarrow> bool" where
  "on_wire cipher table pk data \<longleftrightarrow> wf_packet pk \<and>
     (if cipher then length table = TABLE_SIZE \<and>
        (\<exists>sent cjunk c. 150 \<le> length sent \<and> take 146 sent = packet_bytes pk \<and> 150 \<le> length cjunk \<and>
          seal_packet table sent cjunk = Some c \<and> data = take 146 c)
      else data = packet_bytes pk)"

lemma on_wire_length:
  assumes "on_wire b table pk data"
  shows "length data = 146"
proof (cases b)
  case True
  then obtain sent cjunk c where c: "length table = TABLE_SIZE" "150 \<le> length sent" "150 \<le> length cjunk"
      "seal_packet table sent cjunk = Some c" "data = take 146 c"
    using assms by (auto simp: on_wire_def)
  then have "150 \<le> length c" using seal_total[OF c(1-3)] by simp
  with c(5) show ?thesis by simp
qed (use assms in \<open>simp add: on_wire_def length_packet_bytes\<close>)

lemma decode_on_wire:
  assumes "on_wire (deciphers e) table pk data" and "round_ok conf to_us e" and "take 146 buf = data" and "150 \<le> length buf"
  obtains st' where "decode_packet conf to_us table e buf st = Some (pk, st')"
proof (cases "deciphers e")
  case False
  then have "take 146 buf = packet_bytes pk" "wf_packet pk" using assms(1,3) by (simp_all add: on_wire_def)
  then have "server_deserialize_payload buf 0 (payload_junk e) = Some pk"
    using server_deserialize_payload_eq[of "payload_junk e" 0 buf] packet_of_prefix[of buf pk] assms(2,4)
    by (simp add: round_ok_def)
  with False show thesis by (intro that[of st]) (simp add: decode_packet_def)
next
  case True
  then obtain sent cjunk c where c: "150 \<le> length sent" "take 146 sent = packet_bytes pk" "150 \<le> length cjunk"
      "seal_packet table sent cjunk = Some c" "take 146 buf = take 146 c" and wf: "wf_packet pk" and t: "length table = TABLE_SIZE"
    using assms(1,3) by (auto simp: on_wire_def)
  have room: "150 \<le> length (buf_plain e)" using True assms(2) by (simp add: round_ok_def)
  obtain plain where plain: "open_packet table buf (buf_plain e) = Some plain" "take 146 plain = take 146 sent"
    using open_sealed[OF t c(1) c(3) room c(4) assms(4) c(5)] by auto
  have "length (take 146 plain) = 146" unfolding plain(2) using c(1) by simp
  then have "146 \<le> length plain" by simp
  then have "server_deserialize_payload plain 0 (payload_junk e) = Some pk"
    using server_deserialize_payload_eq[of "payload_junk e" 0 plain] packet_of_prefix[of plain pk] plain(2) c(2) wf assms(2)
    by (simp add: round_ok_def)
  moreover obtain n where "nop (clock e) (to_us (delay_in_ms conf)) = Some n" using True assms(2) by (auto simp: round_ok_def)
  ultimately show thesis
    using True plain(1) by (intro that[of "updateCipherDelay (server_getTimeDiff (cipher_start e) (cipher_end e)) st"])
      (simp add: decode_packet_def)
qed

text \<open>What a worker writes back, as far as the socket takes it.\<close>

definition reply :: "round \<Rightarrow> u32 \<Rightarrow> packet_format \<Rightarrow> (u32 \<times> u8 list) list" where
  "reply e fd pk = (if getPktType pk = REQUEST_PKT then (case write_result e of None \<Rightarrow> []
     | Some k \<Rightarrow> [(fd, take k (packet_bytes (pk\<lparr>direction := SERVER_TO_APP\<rparr>)))]) else [])"

lemma answer_request_eq:
  assumes "wf_packet pk" and "PAYLOAD_SIZE \<le> length (reply_junk e)"
  obtains st where "answer_request e fd pk s = Some (if getPktType pk = REQUEST_PKT \<and> write_result e = None
      then server_deleteEpollEvent fd (s\<lparr>stats := st\<rparr>) else s\<lparr>stats := st, written := written s @ reply e fd pk\<rparr>)"
proof -
  let ?reply = "pk\<lparr>direction := SERVER_TO_APP\<rparr>"
  have wf: "wf_packet ?reply" using assms(1) by (simp add: wf_packet_def)
  have ser: "serialize_payload (reply_junk e) 0 ?reply = Some (splice (reply_junk e) 0 (packet_bytes ?reply), 146)"
    using serialize_payload_eq[OF wf, of "reply_junk e" 0] assms(2) by simp
  have "take 146 (splice (reply_junk e) 0 (packet_bytes ?reply)) = packet_bytes ?reply"
    using length_packet_bytes[OF wf] by (simp add: splice_def)
  then have bytes: "take (min a 146) (splice (reply_junk e) 0 (packet_bytes ?reply)) = take a (packet_bytes ?reply)" for a
    by (simp flip: take_take)
  have "\<exists>st. answer_request e fd pk s = Some (if getPktType pk = REQUEST_PKT \<and> write_result e = None
      then server_deleteEpollEvent fd (s\<lparr>stats := st\<rparr>) else s\<lparr>stats := st, written := written s @ reply e fd pk\<rparr>)"
  proof (cases "getPktType pk = REQUEST_PKT")
    case True
    then show ?thesis
      using ser bytes by (cases "write_result e")
        (auto simp: answer_request_def processRequestPkt_def setDirection_def getPktType_def reply_def)
  qed (auto simp: answer_request_def reply_def intro!: exI[of _ "stats s"])
  with that show thesis by blast
qed

lemma take_packet_answers:
  assumes "thread < length (rings s)" and "ring_ok (rings s ! thread)" and "items (rings s ! thread) = (data, fd, efd, t) # rest"
    and "on_wire (deciphers e) table pk data" and "round_ok conf to_us e"
    and "processDatabase redis cl (value_junk e) pk w = Some w'"
  shows "\<exists>s'. process_packet conf to_us redis cl table e thread (s, w) = Some (Goes (s', w')) \<and>
    written s' = written s @ reply e fd pk \<and> items (rings s' ! thread) = rest \<and>
    usr_num s' = (if getPktType pk = REQUEST_PKT \<and> write_result e = None then usr_num s - 1 else usr_num s) \<and>
    open_fds s' = (if getPktType pk = REQUEST_PKT \<and> write_result e = None then remove1 fd (open_fds s) else open_fds s)"
proof -
  let ?r = "rings s ! thread"
  let ?p = "cells ?r ! unat (tail ?r)"
  have nz: "used ?r \<noteq> 0" using arg_cong[OF assms(3), of length] by simp
  have it: "message ?p = (data, fd, efd, t)" "items (ring_buffer_pop ?r) = rest"
    using items_pop[OF assms(2)] nz assms(3) by auto
  have t: "unat (tail ?r) < 4096" using assms(2) by (simp add: ring_ok_def)
  have p: "length (pk_buf ?p) = 200" using assms(2) t by (simp add: ring_ok_def BUFSIZE_ring_def)
  have d: "take 146 (pk_buf ?p) = data" "pk_fd ?p = fd" "150 \<le> length (pk_buf ?p)"
    using it(1) p by (simp_all add: message_def slice_def)
  obtain st where st: "decode_packet conf to_us table e (pk_buf ?p) (stats s) = Some (pk, st)"
    by (rule decode_on_wire[OF assms(4,5) d(1,3)])
  have ok: "ring_ok (ring_buffer_pop ?r)" by (rule ring_ok_pop[OF assms(2)])
  obtain q where q: "set_done (unat (tail ?r)) (done_time e) (ring_buffer_pop ?r) =
      Some ((ring_buffer_pop ?r)\<lparr>cells := (cells (ring_buffer_pop ?r))[unat (tail ?r) := q]\<rparr>)"
      "message q = message (cells (ring_buffer_pop ?r) ! unat (tail ?r))"
    using set_done_ok[OF ok t, of "done_time e"] by auto
  have wf: "wf_packet pk" "PAYLOAD_SIZE \<le> length (reply_junk e)" using assms(4,5) by (simp_all add: on_wire_def round_ok_def)
  let ?s = "s\<lparr>rings := (rings s)[thread := ring_buffer_pop ?r], stats := updateDBDelay (server_getTimeDiff (db_start e) (db_end e)) st\<rparr>"
  obtain st' where "answer_request e fd pk ?s = Some (if getPktType pk = REQUEST_PKT \<and> write_result e = None
      then server_deleteEpollEvent fd (?s\<lparr>stats := st'\<rparr>) else ?s\<lparr>stats := st', written := written ?s @ reply e fd pk\<rparr>)"
    by (rule answer_request_eq[OF wf])
  then show ?thesis
    using assms(1,6) guards_eq[OF assms(2)] nz ring_read_ok[OF assms(2)] st d(2) it(2) q(1) items_same_message[OF q(2)]
    by (cases "getPktType pk = REQUEST_PKT \<and> write_result e = None")
      (auto simp: process_packet_def take_packet_def ring_buffer_tail_def server_deleteEpollEvent_def decr_usr_num_def reply_def)
qed

text \<open>The first half: the packet is in the ring of the worker whose turn it is.\<close>

lemma packet_in_ring:
  assumes "server_ok conf s" and "items (rings s ! next_thread conf s) = []" and "length junk = BUFF_SIZE"
    and "length data = 146"
  obtains r where "processEPOLLIN conf [Data data, Would_block] now junk efd fd s =
      Some (Goes (s\<lparr>stats := server_increReceivePkts (stats s), rings := (rings s)[next_thread conf s := r]\<rparr>))"
    and "ring_ok r" and "items r = [(data, fd, efd, now)]"
proof -
  let ?buf = "data @ drop PAYLOAD_SIZE junk"
  have rl: "read_loop [Data data, Would_block] junk = Some (Drained ?buf)"
    using read_loop_data[of "[data]" junk] assms(3,4) by (simp add: BUFF_SIZE_def)
  have l: "PAYLOAD_SIZE \<le> length ?buf" and m: "sent_message (?buf, fd, efd, now) = (data, fd, efd, now)"
    using assms(4) by (simp_all add: sent_message_def slice_def)
  have ne: "used (rings s ! next_thread conf s) \<noteq> 4095" using arg_cong[OF assms(2), of length] by simp
  show ?thesis
    using that processEPOLLIN_drained[OF assms(1) rl l ne, where now = now and efd = efd and fd = fd] m assms(2) by auto
qed

text \<open>A packet that a client sends is received, handed to the worker in turn, decoded, recorded in the
  database, and, if it is a request, answered on the same socket with the same packet in the server's
  direction, in the clear; the ring is empty again.\<close>

lemma packet_answered:
  assumes "server_ok conf s" and "items (rings s ! next_thread conf s) = []" and "length junk = BUFF_SIZE"
    and "on_wire (deciphers e) table pk data" and "round_ok conf to_us e"
    and "redis_laws redis rd" and "cluster_ready cl" and "db_fits rd cl w"
  shows "\<exists>s1 s2 w'. processEPOLLIN conf [Data data, Would_block] now junk efd fd s = Some (Goes s1) \<and>
    process_packet conf to_us redis cl table e (next_thread conf s) (s1, w) = Some (Goes (s2, w')) \<and>
    written s2 = written s @ reply e fd pk \<and> items (rings s2 ! next_thread conf s) = [] \<and>
    db_value rd cl w' DEVICE_STATE_DB (decimal (sint (userID pk ! 0))) = Some (decimal (uint (state pk ! 0)))"
proof -
  let ?t = "next_thread conf s"
  obtain r where r: "processEPOLLIN conf [Data data, Would_block] now junk efd fd s =
      Some (Goes (s\<lparr>stats := server_increReceivePkts (stats s), rings := (rings s)[?t := r]\<rparr>))"
      "ring_ok r" "items r = [(data, fd, efd, now)]"
    by (rule packet_in_ring[OF assms(1-3) on_wire_length[OF assms(4)]])
  let ?s1 = "s\<lparr>stats := server_increReceivePkts (stats s), rings := (rings s)[?t := r]\<rparr>"
  have t: "?t < length (rings s)" by (rule next_thread_ok(2)[OF assms(1)])
  have wf: "wf_packet pk" using assms(4) by (simp add: on_wire_def)
  obtain w' where w': "processDatabase redis cl (value_junk e) pk w = Some w'"
    "db_value rd cl w' DEVICE_STATE_DB (decimal (sint (userID pk ! 0))) = Some (decimal (uint (state pk ! 0)))"
    by (rule processDatabase_state[OF assms(6,7) wf assms(8)])
  have "\<exists>s2. process_packet conf to_us redis cl table e ?t (?s1, w) = Some (Goes (s2, w')) \<and>
      written s2 = written s @ reply e fd pk \<and> items (rings s2 ! ?t) = []"
    using take_packet_answers[of ?t ?s1 data fd efd now "[]", OF _ _ _ assms(4,5) w'(1)] t r(2,3) by auto
  with r(1) w'(2) show ?thesis by blast
qed

definition demo_request :: packet_format where
  "demo_request = initPayload\<lparr>type := REQUEST_PKT\<rparr>"

lemma wf_demo_request: "wf_packet demo_request"
  using wf_initPayload by (simp add: demo_request_def wf_packet_def)

definition demo_bytes :: "u8 list" where
  "demo_bytes = packet_bytes demo_request"

text \<open>A round of a worker that is built without the cipher.\<close>

definition demo_round :: round where
  "demo_round = \<lparr>deciphers = False, clock = (\<lambda>n. (0, int n)), cipher_start = (0, 0), cipher_end = (0, 5), db_start = (0, 5),
     db_end = (0, 9), done_time = (0, 9), write_result = Some 146, buf_plain = [], payload_junk = initPayload, value_junk = [],
     reply_junk = replicate 146 4\<rparr>"

lemma demo_items: "items (rings demo_state ! next_thread demo_server_configs demo_state) = []"
  by (simp only: demo_next_thread) (simp add: demo_state_def)

lemma demo_on_wire: "on_wire False table demo_request demo_bytes"
  by (simp add: on_wire_def wf_demo_request demo_bytes_def)

lemma demo_round_ok: "round_ok conf to_us demo_round" "round_ok conf to_us (demo_round\<lparr>write_result := None\<rparr>)"
  by (simp_all add: round_ok_def demo_round_def)

section \<open>Connections\<close>

text \<open>
  The event loop and the workers as one step relation.  The kernel hands out descriptors that are not
  open; its events may be stale and name descriptors that are closed by now.  A handler that finds its
  ring full, or empty, waits: what it has done so far stays (the packet is counted), and it goes on at
  any later time, whatever the ring then is, because the code does not test again.
\<close>

fun fresh_accepts :: "accept_result list \<Rightarrow> u32 list \<Rightarrow> bool" where
  "fresh_accepts [] fds = True"
| "fresh_accepts (Accept_fails # rs) fds = True"
| "fresh_accepts (Accepted fd options registered # rs) fds \<longleftrightarrow> fd \<notin> set fds \<and> fresh_accepts rs (fd # fds)"

inductive server_step :: "'d configs \<Rightarrow> ('d \<Rightarrow> u32) \<Rightarrow> ('c, 'w) redis_command \<Rightarrow> 'c clusterInfo \<Rightarrow> u64 list
    \<Rightarrow> u32 \<Rightarrow> u32 \<Rightarrow> server_state \<times> 'w \<Rightarrow> server_state \<times> 'w \<Rightarrow> bool"
  for conf :: "'d configs" and to_us redis cl table efd sfd where
  event: "fresh_accepts (accepts e) (open_fds s) \<Longrightarrow>
    server_dispatch conf efd sfd e s = Some (Goes t) \<Longrightarrow> server_step conf to_us redis cl table efd sfd (s, w) (t, w)"
| room_wait: "read_loop results junk = Some (Drained buf) \<Longrightarrow>
    processEPOLLIN conf results now junk efd fd s = Some Waits \<Longrightarrow>
    server_step conf to_us redis cl table efd sfd (s, w) (s\<lparr>stats := server_increReceivePkts (stats s)\<rparr>, w)"
| room_resume: "put_packet thread buf now efd fd s = Some t \<Longrightarrow> server_step conf to_us redis cl table efd sfd (s, w) (t, w)"
| work: "process_packet conf to_us redis cl table e thread (s, w) = Some (Goes (t, w')) \<Longrightarrow>
    server_step conf to_us redis cl table efd sfd (s, w) (t, w')"
| work_resume: "take_packet conf to_us redis cl table e thread (s, w) = Some (t, w') \<Longrightarrow>
    server_step conf to_us redis cl table efd sfd (s, w) (t, w')"

definition counted :: "server_state \<Rightarrow> bool" where
  "counted s \<longleftrightarrow> distinct (open_fds s) \<and> usr_num s \<le> int (length (open_fds s)) \<and> list_all ring_ok (rings s)"

lemma accept_keeps:
  "acceptEpollEvents rs s = Goes t \<Longrightarrow> fresh_accepts rs (open_fds s) \<Longrightarrow> distinct (open_fds s) \<Longrightarrow>
   distinct (open_fds t) \<and> set (open_fds s) \<subseteq> set (open_fds t) \<and> rings t = rings s \<and>
   usr_num t - int (length (open_fds t)) = usr_num s - int (length (open_fds s))"
proof (induction rs arbitrary: s)
  case (Cons r rs)
  then show ?case
    by (cases r) (fastforce simp: server_addEpollEvent_def incr_usr_num_def Let_def split: if_splits outcome.splits)+
qed simp

lemma delete_keeps:
  "fd \<in> set (open_fds s) \<Longrightarrow> usr_num (server_deleteEpollEvent fd s) - int (length (open_fds (server_deleteEpollEvent fd s)))
     = usr_num s - int (length (open_fds s))"
  using length_pos_if_in_set[of fd "open_fds s"]
  by (simp add: server_deleteEpollEvent_def decr_usr_num_def length_remove1 of_nat_diff Suc_leI)

lemma delete_le:
  "usr_num (server_deleteEpollEvent fd s) - int (length (open_fds (server_deleteEpollEvent fd s)))
     \<le> usr_num s - int (length (open_fds s))"
proof (cases "fd \<in> set (open_fds s)")
  case True
  then show ?thesis by (simp only: delete_keeps)
next
  case False
  then show ?thesis by (simp add: server_deleteEpollEvent_def decr_usr_num_def remove1_idem)
qed

lemma fill_cell_length: "fill_cell m p = Some p' \<Longrightarrow> length (pk_buf p') = length (pk_buf p)"
  by (cases m) (auto simp: fill_cell_def memcpy_to_def split: Option.bind_splits if_splits)

lemma ring_ok_written: "ring_ok r \<Longrightarrow> ring_write m r = Some r' \<Longrightarrow> ring_ok r'"
proof -
  assume r: "ring_ok r" "ring_write m r = Some r'"
  then obtain p where p: "fill_cell m (cells r ! unat (head r)) = Some p" "r' = r\<lparr>cells := (cells r)[unat (head r) := p]\<rparr>"
    by (auto simp: ring_write_def ring_buffer_head_def ring_ok_def split: Option.bind_splits)
  have "length (pk_buf p) = BUFSIZE_ring" using fill_cell_length[OF p(1)] r(1) by (simp add: ring_ok_def)
  from ring_ok_write[OF r(1) this] show ?thesis by (simp add: p(2))
qed

lemma list_all_update: "list_all P xs \<Longrightarrow> P y \<Longrightarrow> list_all P (xs[i := y])"
  using set_update_subset_insert[of xs i y] by (auto simp: list_all_iff)

lemma put_keeps:
  assumes "put_packet thread buf now efd fd s = Some t" and "list_all ring_ok (rings s)"
  shows "list_all ring_ok (rings t) \<and> open_fds t = open_fds s \<and> usr_num t = usr_num s \<and> length (rings t) = length (rings s)"
proof -
  obtain r r' where "load (rings s) thread = Some r" "ring_write (buf, fd, efd, now) r = Some r'"
    "t = s\<lparr>rings := (rings s)[thread := ring_buffer_push r']\<rparr>"
    using assms(1) by (auto simp: put_packet_def split: Option.bind_splits)
  moreover from this have "ring_ok r" using assms(2) by (auto simp: load_def list_all_length split: if_splits)
  ultimately show ?thesis using assms(2) by (simp add: list_all_update ring_ok_push ring_ok_written)
qed

lemma receive_keeps:
  assumes "processEPOLLIN conf rs now junk efd fd s = Some (Goes t)" and "list_all ring_ok (rings s)"
  shows "list_all ring_ok (rings t) \<and> (distinct (open_fds s) \<longrightarrow> distinct (open_fds t)) \<and>
    usr_num t - int (length (open_fds t)) \<le> usr_num s - int (length (open_fds s))"
proof -
  obtain d where d: "read_loop rs junk = Some d" using assms(1) by (auto simp: processEPOLLIN_def split: Option.bind_splits)
  show ?thesis
  proof (cases d)
    case Closed
    then have "t = server_deleteEpollEvent fd s" using assms(1) d by (simp add: processEPOLLIN_def)
    then show ?thesis
      using assms(2) delete_le[of fd s] by (simp add: server_deleteEpollEvent_def decr_usr_num_def)
  next
    case (Drained buf)
    then obtain i where "put_packet i buf now efd fd (s\<lparr>stats := server_increReceivePkts (stats s)\<rparr>) = Some t"
      using assms(1) d by (auto simp: processEPOLLIN_def Let_def split: Option.bind_splits if_splits)
    from put_keeps[OF this] assms(2) show ?thesis by simp
  next
    case Reading
    then show ?thesis using assms(1) d by (simp add: processEPOLLIN_def)
  qed
qed

lemma dispatch_keeps:
  assumes "server_dispatch conf efd sfd e s = Some (Goes t)"
    and "fresh_accepts (accepts e) (open_fds s)" and "distinct (open_fds s)" and "list_all ring_ok (rings s)"
  shows "list_all ring_ok (rings t) \<and> distinct (open_fds t) \<and>
    usr_num t - int (length (open_fds t)) \<le> usr_num s - int (length (open_fds s))"
proof -
  note d = assms(1)[unfolded server_dispatch_def]
  show ?thesis
  proof (cases "err e \<or> hup e \<or> \<not> readable e")
    case True
    then have "t = server_deleteEpollEvent (ev_fd e) s" using d by simp
    then show ?thesis
      using assms(3,4) delete_le[of "ev_fd e" s] by (simp add: server_deleteEpollEvent_def decr_usr_num_def)
  next
    case nerr: False
    show ?thesis
    proof (cases "sfd = ev_fd e")
      case True
      then have "acceptEpollEvents (accepts e) s = Goes t" using d nerr by simp
      from accept_keeps[OF this assms(2,3)] assms(4) show ?thesis by simp
    next
      case False
      then have "processEPOLLIN conf (ev_input e) (ev_time e) (ev_junk e) efd (ev_fd e) s = Some (Goes t)"
        using d nerr by simp
      from receive_keeps[OF this assms(4)] assms(3) show ?thesis by blast
    qed
  qed
qed

lemma request_keeps:
  assumes "processRequestPkt res buf fd pk s = Some t"
  shows "rings t = rings s \<and> (distinct (open_fds s) \<longrightarrow> distinct (open_fds t)) \<and>
    usr_num t - int (length (open_fds t)) \<le> usr_num s - int (length (open_fds s))"
proof (cases res)
  case None
  then have "t = server_deleteEpollEvent fd s"
    using assms by (auto simp: processRequestPkt_def split: Option.bind_splits)
  then show ?thesis using delete_le[of fd s] by (simp add: server_deleteEpollEvent_def decr_usr_num_def)
next
  case (Some k)
  then show ?thesis using assms by (auto simp: processRequestPkt_def split: Option.bind_splits)
qed

lemma answer_keeps:
  "answer_request e fd pk s = Some t \<Longrightarrow> rings t = rings s \<and> (distinct (open_fds s) \<longrightarrow> distinct (open_fds t)) \<and>
    usr_num t - int (length (open_fds t)) \<le> usr_num s - int (length (open_fds s))"
  using request_keeps by (fastforce simp: answer_request_def split: if_splits)

lemma set_done_keeps: "ring_ok r \<Longrightarrow> set_done i now r = Some r' \<Longrightarrow> ring_ok r'"
  using set_done_ok[of r i now] ring_ok_write[of r _ i]
  by (cases "i < 4096") (auto simp: set_done_def ring_ok_def split: Option.bind_splits)

lemma process_packet_takes:
  "process_packet conf to_us redis cl table e thread sw = Some (Goes tw) \<Longrightarrow>
   take_packet conf to_us redis cl table e thread sw = Some tw"
  by (cases sw) (auto simp: process_packet_def split: Option.bind_splits if_splits)

lemma take_packet_steps:
  assumes "take_packet conf to_us redis cl table e thread (s, w) = Some (t, w')"
  shows "\<exists>r st fd pk s2 r2 r3. load (rings s) thread = Some r \<and>
    answer_request e fd pk (s\<lparr>rings := (rings s)[thread := ring_buffer_pop r], stats := st\<rparr>) = Some s2 \<and>
    load (rings s2) thread = Some r2 \<and> set_done (ring_buffer_tail r) (done_time e) r2 = Some r3 \<and>
    t = s2\<lparr>rings := (rings s2)[thread := r3]\<rparr>"
proof -
  obtain r st fd pk s2 r2 r3 where "load (rings s) thread = Some r"
    "answer_request e fd pk (s\<lparr>rings := (rings s)[thread := ring_buffer_pop r],
      stats := updateDBDelay (server_getTimeDiff (db_start e) (db_end e)) st\<rparr>) = Some s2"
    "load (rings s2) thread = Some r2" "set_done (ring_buffer_tail r) (done_time e) r2 = Some r3"
    "t = s2\<lparr>rings := (rings s2)[thread := r3]\<rparr>"
    using assms by (auto simp: take_packet_def Let_def split: Option.bind_splits prod.splits)
  then show ?thesis by blast
qed

lemma work_keeps:
  assumes "take_packet conf to_us redis cl table e thread (s, w) = Some (t, w')"
    and "list_all ring_ok (rings s)"
  shows "list_all ring_ok (rings t) \<and> (distinct (open_fds s) \<longrightarrow> distinct (open_fds t)) \<and>
    usr_num t - int (length (open_fds t)) \<le> usr_num s - int (length (open_fds s)) \<and> length (rings t) = length (rings s)"
proof -
  obtain r st fd pk s2 r2 r3 where r: "load (rings s) thread = Some r"
    and s2: "answer_request e fd pk (s\<lparr>rings := (rings s)[thread := ring_buffer_pop r], stats := st\<rparr>) = Some s2"
    and r2: "load (rings s2) thread = Some r2" "set_done (ring_buffer_tail r) (done_time e) r2 = Some r3"
    and t: "t = s2\<lparr>rings := (rings s2)[thread := r3]\<rparr>"
    using take_packet_steps[OF assms(1)] by blast
  have "ring_ok r" using r assms(2) by (auto simp: load_def list_all_length split: if_splits)
  then have "list_all ring_ok (rings s2)" using answer_keeps[OF s2] by (simp add: list_all_update ring_ok_pop assms(2))
  moreover from this have "ring_ok r2" using r2(1) by (auto simp: load_def list_all_length split: if_splits)
  then have "ring_ok r3" by (rule set_done_keeps[OF _ r2(2)])
  ultimately show ?thesis using answer_keeps[OF s2] by (simp add: t list_all_update assms(2))
qed

lemma counted_step:
  assumes "server_step conf to_us redis cl table efd sfd (s, w) (t, w')" and "counted s"
  shows "counted t"
  using assms(1)
proof cases
  case (event e)
  with dispatch_keeps[of conf efd sfd e s t] assms(2) show ?thesis by (simp add: counted_def)
next
  case (room_wait results junk buf now fd)
  then show ?thesis using assms(2) by (simp add: counted_def)
next
  case (room_resume thread buf now fd)
  with put_keeps[of thread buf now efd fd s t] assms(2) show ?thesis by (simp add: counted_def)
next
  case (work e thread)
  with work_keeps[OF process_packet_takes] assms(2) show ?thesis by (fastforce simp: counted_def)
next
  case (work_resume e thread)
  with work_keeps assms(2) show ?thesis by (fastforce simp: counted_def)
qed

text \<open>C38: the number of users is not the number of open sockets: a client that sends a request and closes
  its connection is counted out twice, once by the event loop that sees the end of the stream and once by
  the worker whose answer can no longer be written, so the number of users drifts below that of the open
  sockets.  This holds of the server built without \<^verbatim>\<open>CIPHER\<close>, with its arrays as declared; for a server
  built with it (as \<^verbatim>\<open>server.h\<close> has it) the theorem assumes that the array the packet is decrypted into has
  the four bytes more than declared that decryption writes, and that the busy wait ends.  The database is
  assumed to answer as in the theorem on reading what was written.\<close>

theorem user_count_drifts:
  assumes "server_ok conf s" and "items (rings s ! next_thread conf s) = []" and "length junk = BUFF_SIZE"
    and "on_wire (deciphers e) table pk data" and "type pk = REQUEST_PKT"
    and "round_ok conf to_us e" and "write_result e = None"
    and "redis_laws redis rd" and "cluster_ready cl" and "db_fits rd cl w"
    and "fd \<in> set (open_fds s)" and "distinct (open_fds s)"
  shows "\<exists>s1 s2 s3 w'. processEPOLLIN conf [Data data, Would_block] now junk efd fd s = Some (Goes s1) \<and>
    processEPOLLIN conf [End_of_file] later junk efd fd s1 = Some (Goes s2) \<and>
    process_packet conf to_us redis cl table e (next_thread conf s) (s2, w) = Some (Goes (s3, w')) \<and>
    usr_num s3 = usr_num s - 2 \<and> int (length (open_fds s3)) = int (length (open_fds s)) - 1"
proof -
  let ?t = "next_thread conf s"
  obtain r where r: "processEPOLLIN conf [Data data, Would_block] now junk efd fd s =
      Some (Goes (s\<lparr>stats := server_increReceivePkts (stats s), rings := (rings s)[?t := r]\<rparr>))"
      "ring_ok r" "items r = [(data, fd, efd, now)]"
    by (rule packet_in_ring[OF assms(1-3) on_wire_length[OF assms(4)]])
  let ?s1 = "s\<lparr>stats := server_increReceivePkts (stats s), rings := (rings s)[?t := r]\<rparr>"
  let ?s2 = "server_deleteEpollEvent fd ?s1"
  have s2: "rings ?s2 = (rings s)[?t := r]" "usr_num ?s2 = usr_num s - 1" "open_fds ?s2 = remove1 fd (open_fds s)"
    by (simp_all add: server_deleteEpollEvent_def decr_usr_num_def)
  have eof: "processEPOLLIN conf [End_of_file] later junk efd fd ?s1 = Some (Goes ?s2)"
    by (simp add: processEPOLLIN_def)
  have t: "?t < length (rings s)" by (rule next_thread_ok(2)[OF assms(1)])
  have wf: "wf_packet pk" using assms(4) by (simp add: on_wire_def)
  obtain w' where w': "processDatabase redis cl (value_junk e) pk w = Some w'"
    by (rule processDatabase_state[OF assms(8,9) wf assms(10)])
  have "\<exists>s'. process_packet conf to_us redis cl table e ?t (?s2, w) = Some (Goes (s', w')) \<and>
      usr_num s' = usr_num s - 2 \<and> open_fds s' = remove1 fd (remove1 fd (open_fds s))"
    using take_packet_answers[of ?t ?s2 data fd efd now "[]", OF _ _ _ assms(4,6) w'] t r(2,3) s2 assms(5,7)
    by (auto simp: getPktType_def)
  moreover have "remove1 fd (remove1 fd (open_fds s)) = remove1 fd (open_fds s)"
    using assms(12) by (intro remove1_idem) simp
  moreover have "length (remove1 fd (open_fds s)) = length (open_fds s) - 1" "0 < length (open_fds s)"
    using assms(11) length_pos_if_in_set[of fd] by (simp_all add: length_remove1)
  ultimately show ?thesis using r(1) eof by (auto simp: of_nat_diff Suc_leI)
qed

theorem user_count_drifts_witness:
  "\<exists>s1 s2 s3 w'. processEPOLLIN demo_server_configs [Data demo_bytes, Would_block] (1, 2) (replicate 200 0) 3 5 demo_state
      = Some (Goes s1) \<and>
    processEPOLLIN demo_server_configs [End_of_file] (1, 3) (replicate 200 0) 3 5 s1 = Some (Goes s2) \<and>
    process_packet demo_server_configs (\<lambda>d. 0) demo_redis demo_cluster [] (demo_round\<lparr>write_result := None\<rparr>)
      (next_thread demo_server_configs demo_state) (s2, \<lambda>k. None) = Some (Goes (s3, w')) \<and>
    usr_num s3 = usr_num demo_state - 2 \<and> int (length (open_fds s3)) = int (length (open_fds demo_state)) - 1"
  by (rule user_count_drifts[OF demo_server_ok demo_items _ _ _ demo_round_ok(2) _ demo_laws demo_ready demo_empty_fits,
        where pk = demo_request])
    (use demo_on_wire in \<open>simp_all add: demo_request_def BUFF_SIZE_def demo_round_def\<close>, simp_all add: demo_state_def)

end
