(* ===== verification/Epoll.thy ===== *)
theory Epoll
  imports Utils Statistics
begin

text \<open>
  \<^verbatim>\<open>client/epoll.c\<close>: the table of connections, indexed by descriptor, with the times that pace
  their packets, the counts of open and closed connections, and the interest lists of the epoll
  instances, which are the kernel's: adding a registered descriptor and modifying an unregistered one
  fail, closing a descriptor removes it from every list.  Times are pairs of seconds and microseconds; \<open>now\<close> is what
  \<^verbatim>\<open>gettimeofday\<close> returns.  \<open>None\<close> is undefined behaviour, a failed assertion or a call
  of \<^verbatim>\<open>exit\<close>.
\<close>

definition MAX_EVENTS :: nat where "MAX_EVENTS = 4000000"
definition S_TO_US :: int where "S_TO_US = 1000000"
definition GROUP_SIZE_conns :: int where "GROUP_SIZE_conns = 10000"

type_synonym time = "int \<times> int"

record packet_time =
  pt_efd :: int
  last_send :: time
  last_recv :: time
  virtual_time :: time
  sendingFlag :: int
  connectionClosed :: int

datatype ep_event = EPOLLIN | EPOLLOUT

record conn_table =
  packets_time :: "packet_time list"
  total_conns :: int
  active_conns :: int
  dead_conns :: int
  connsMap :: "nat list"
  interest :: "int \<times> nat \<Rightarrow> ep_event option"

section \<open>Entries\<close>

definition entry :: "conn_table \<Rightarrow> nat \<Rightarrow> packet_time option" where
  "entry s fd = load (packets_time s) fd"

definition update_entry :: "(packet_time \<Rightarrow> packet_time) \<Rightarrow> nat \<Rightarrow> conn_table \<Rightarrow> conn_table option" where
  "update_entry f fd s = do {
     p \<leftarrow> load (packets_time s) fd;
     ps \<leftarrow> store (packets_time s) fd (f p);
     Some (s\<lparr>packets_time := ps\<rparr>)
   }"

definition setEventTimeEfd :: "int \<Rightarrow> nat \<Rightarrow> conn_table \<Rightarrow> conn_table option" where
  "setEventTimeEfd efd = update_entry (\<lambda>p. p\<lparr>pt_efd := efd, connectionClosed := 0, sendingFlag := 0\<rparr>)"

definition resetSendPkt :: "nat \<Rightarrow> conn_table \<Rightarrow> conn_table option" where
  "resetSendPkt = update_entry (\<lambda>p. p\<lparr>sendingFlag := 0\<rparr>)"

section \<open>The interest list\<close>

definition client_addEpollEvent :: "int \<Rightarrow> nat \<Rightarrow> ep_event \<Rightarrow> conn_table \<Rightarrow> conn_table option" where
  "client_addEpollEvent efd fd events s = do {
     s \<leftarrow> setEventTimeEfd efd fd s;
     let s = s\<lparr>total_conns := total_conns s + 1, active_conns := active_conns s + 1\<rparr>;
     if interest s (efd, fd) \<noteq> None then None
     else Some (s\<lparr>interest := (interest s)((efd, fd) \<mapsto> events)\<rparr>)
   }"

definition client_modifyEpollEvent :: "int \<Rightarrow> nat \<Rightarrow> ep_event \<Rightarrow> conn_table \<Rightarrow> conn_table option" where
  "client_modifyEpollEvent efd fd events s =
    (case interest s (efd, fd) of
       Some _ \<Rightarrow> Some (s\<lparr>interest := (interest s)((efd, fd) \<mapsto> events)\<rparr>)
     | None \<Rightarrow> client_addEpollEvent efd fd events s)"

definition client_deleteEpollEvent :: "nat \<Rightarrow> conn_table \<Rightarrow> conn_table option" where
  "client_deleteEpollEvent fd s = do {
     s \<leftarrow> update_entry (\<lambda>p. p\<lparr>pt_efd := 0, connectionClosed := 1\<rparr>) fd s;
     Some (s\<lparr>total_conns := total_conns s - 1, active_conns := active_conns s - 1,
       interest := (\<lambda>(e, f). if f = fd then None else interest s (e, f))\<rparr>)
   }"

section \<open>Start\<close>

definition initEpollConnectionStats :: "(nat \<Rightarrow> int) \<Rightarrow> conn_table \<Rightarrow> conn_table option" where
  "initEpollConnectionStats rnd s = do {
     let s = s\<lparr>total_conns := 0, active_conns := 0, dead_conns := 0\<rparr>;
     m \<leftarrow> foldM (\<lambda>i m. store m i i) [0..<MAX_EVENTS] (connsMap s);
     m \<leftarrow> shuffer rnd m MAX_EVENTS;
     Some (s\<lparr>connsMap := m\<rparr>)
   }"

definition initEventTime :: "(nat \<Rightarrow> int) \<Rightarrow> time \<Rightarrow> conn_table \<Rightarrow> conn_table option" where
  "initEventTime rnd now s = do {
     s \<leftarrow> initEpollConnectionStats rnd s;
     foldM (\<lambda>i. update_entry (\<lambda>p. p\<lparr>pt_efd := 0, virtual_time := (fst now, fst now), sendingFlag := 0,
       connectionClosed := 1\<rparr>) i) [0..<MAX_EVENTS] s
   }"

section \<open>Times\<close>

definition client_getTimeDiff :: "time \<Rightarrow> time \<Rightarrow> int" where
  "client_getTimeDiff start stop = int32 ((fst stop - fst start) * S_TO_US + (snd stop - snd start))"

text \<open>\<open>given\<close> is the argument \<^verbatim>\<open>time\<close>, \<open>None\<close> for the null pointer; then
  \<open>now\<close> and \<open>sent\<close> are the two readings of the clock.\<close>

definition setEventSendTime :: "nat \<Rightarrow> time option \<Rightarrow> int \<Rightarrow> time \<Rightarrow> time \<Rightarrow> conn_table \<Rightarrow> conn_table option" where
  "setEventSendTime fd given interval now sent s =
    (if \<not> fd < MAX_EVENTS then None
     else case given of
       Some t \<Rightarrow> update_entry (\<lambda>p. p\<lparr>virtual_time := t, last_send := t\<rparr>) fd s
     | None \<Rightarrow>
         if interval = 0 then None
         else update_entry (\<lambda>p. p\<lparr>virtual_time := (fst now, snd now sdiv interval * interval), last_send := sent\<rparr>) fd s)"

definition setEventRecvTime :: "nat \<Rightarrow> time option \<Rightarrow> time \<Rightarrow> conn_table \<Rightarrow> conn_table option" where
  "setEventRecvTime fd given now s =
    (if \<not> fd < MAX_EVENTS then None
     else update_entry (\<lambda>p. p\<lparr>last_recv := (case given of Some t \<Rightarrow> t | None \<Rightarrow> now)\<rparr>) fd s)"

text \<open>
  \<open>vdelay e g\<close> is the floating-point expression \<^verbatim>\<open>e - g * unit_delay\<close> converted to
  int.  The products of ints wrap around.
\<close>

definition usec_offset :: "nat \<Rightarrow> int \<Rightarrow> int \<Rightarrow> int \<Rightarrow> int option" where
  "usec_offset fd conns epoch interval =
    (if conns = 0 then None
     else let average = int32 (epoch * S_TO_US) sdiv conns in
       if interval = 0 then None
       else Some (int32 (int32 (int fd * average) sdiv interval * interval)))"

definition setVirtualEventTime ::
    "(int \<Rightarrow> int \<Rightarrow> int) \<Rightarrow> nat \<Rightarrow> int \<Rightarrow> time \<Rightarrow> int \<Rightarrow> int \<Rightarrow> conn_table \<Rightarrow> conn_table option" where
  "setVirtualEventTime vdelay fd conns time epoch interval s = do {
     offset \<leftarrow> usec_offset fd conns epoch interval;
     let virtual_delay = vdelay epoch (conns sdiv GROUP_SIZE_conns);
     let virtual = (fst time + offset sdiv S_TO_US - virtual_delay, offset smod S_TO_US);
     s \<leftarrow> setEventSendTime fd (Some virtual) interval (0, 0) (0, 0) s;
     setEventRecvTime fd (Some virtual) (0, 0) s
   }"

definition getRTT :: "nat \<Rightarrow> conn_table \<Rightarrow> int option" where
  "getRTT fd s =
    (if \<not> fd < MAX_EVENTS then None
     else map_option (\<lambda>p. client_getTimeDiff (last_send p) (last_recv p)) (entry s fd))"

definition canSendPkt :: "nat \<Rightarrow> int \<Rightarrow> time \<Rightarrow> conn_table \<Rightarrow> (bool \<times> conn_table) option" where
  "canSendPkt fd epoch now s = do {
     p \<leftarrow> entry s fd;
     if sendingFlag p = 1 \<or> connectionClosed p = 1 then Some (False, s)
     else if client_getTimeDiff (virtual_time p) now sdiv S_TO_US \<ge> epoch then do {
       s \<leftarrow> update_entry (\<lambda>p. p\<lparr>sendingFlag := 1\<rparr>) fd s;
       Some (True, s)
     } else Some (False, s)
   }"

section \<open>Closing and restoring connections\<close>

definition closeConnection :: "int \<Rightarrow> nat \<Rightarrow> conn_table \<Rightarrow> (int \<times> conn_table) option" where
  "closeConnection efd fd s = do {
     p \<leftarrow> entry s fd;
     if pt_efd p \<noteq> efd then Some (0, s)
     else if connectionClosed p = 1 then Some (0, s)
     else do {
       s \<leftarrow> update_entry (\<lambda>p. p\<lparr>connectionClosed := 1\<rparr>) fd s;
       Some (1, s\<lparr>active_conns := active_conns s - 1, dead_conns := dead_conns s + 1\<rparr>)
     }
   }"

text \<open>For an open connection the function ends without a return statement.\<close>

definition restoreConnection :: "int \<Rightarrow> nat \<Rightarrow> conn_table \<Rightarrow> (int \<times> conn_table) option" where
  "restoreConnection efd fd s = do {
     p \<leftarrow> entry s fd;
     if pt_efd p \<noteq> efd then Some (0, s)
     else if connectionClosed p = 1 then do {
       s \<leftarrow> update_entry (\<lambda>p. p\<lparr>connectionClosed := 0\<rparr>) fd s;
       Some (1, s\<lparr>active_conns := active_conns s + 1, dead_conns := dead_conns s - 1\<rparr>)
     } else None
   }"

text \<open>The loops over \<^verbatim>\<open>connsMap\<close>; the list is that of the indices still to come.\<close>

fun close_loop :: "int \<Rightarrow> int \<Rightarrow> nat list \<Rightarrow> conn_table \<Rightarrow> conn_table option" where
  "close_loop efd closed_total [] s = Some s"
| "close_loop efd closed_total (i # is) s =
    (if closed_total > 0 then do {
       fd \<leftarrow> load (connsMap s) i;
       (r, s) \<leftarrow> closeConnection efd fd s;
       close_loop efd (if r = 1 then closed_total - 1 else closed_total) is s
     } else Some s)"

definition closeConnections :: "int \<Rightarrow> int \<Rightarrow> conn_table \<Rightarrow> conn_table option" where
  "closeConnections efd num s = close_loop efd num [1..<MAX_EVENTS] s"

fun restore_loop ::
    "(int \<Rightarrow> int \<Rightarrow> int) \<Rightarrow> int \<Rightarrow> int \<Rightarrow> int \<Rightarrow> time \<Rightarrow> int \<Rightarrow> nat list \<Rightarrow> conn_table \<Rightarrow> (int \<times> conn_table) option" where
  "restore_loop vdelay efd epoch interval now restore_total [] s =
    (if restore_total > 0 then Some (restore_total, s\<lparr>dead_conns := 0\<rparr>) else Some (restore_total, s))"
| "restore_loop vdelay efd epoch interval now restore_total (i # is) s =
    (if restore_total > 0 then
       if dead_conns s = 0 then Some (restore_total, s\<lparr>dead_conns := 0\<rparr>)
       else do {
         fd \<leftarrow> load (connsMap s) i;
         (r, s) \<leftarrow> restoreConnection efd fd s;
         (if r = 1 then do {
            s \<leftarrow> setVirtualEventTime vdelay fd (total_conns s) now epoch interval s;
            restore_loop vdelay efd epoch interval now (restore_total - 1) is s
          } else restore_loop vdelay efd epoch interval now restore_total is s)
       }
     else Some (restore_total, s))"

definition restoreConnections ::
    "(int \<Rightarrow> int \<Rightarrow> int) \<Rightarrow> int \<Rightarrow> int \<Rightarrow> int \<Rightarrow> int \<Rightarrow> time \<Rightarrow> conn_table \<Rightarrow> (int \<times> conn_table) option" where
  "restoreConnections vdelay efd num epoch interval now s =
     restore_loop vdelay efd epoch interval now num [0..<MAX_EVENTS] s"

definition closeAllConnections :: "conn_table \<Rightarrow> conn_table option" where
  "closeAllConnections s = foldM (\<lambda>fd s. do {
     p \<leftarrow> entry s fd;
     if pt_efd p \<noteq> 0 then client_deleteEpollEvent fd s else Some s
   }) [0..<MAX_EVENTS] s"

section \<open>Entries under updates\<close>

lemma update_entry_Some:
  "update_entry f fd s = Some t \<longleftrightarrow> fd < length (packets_time s) \<and>
     t = s\<lparr>packets_time := (packets_time s)[fd := f (packets_time s ! fd)]\<rparr>"
  by (cases "fd < length (packets_time s)") (auto simp: update_entry_def)

lemma update_entry_in [simp]:
  "fd < length (packets_time s) \<Longrightarrow> update_entry f fd s = Some (s\<lparr>packets_time := (packets_time s)[fd := f (packets_time s ! fd)]\<rparr>)"
  by (simp add: update_entry_def)

lemma entry_in [simp]: "fd < length (packets_time s) \<Longrightarrow> entry s fd = Some (packets_time s ! fd)"
  by (simp add: entry_def)

definition closable :: "int \<Rightarrow> conn_table \<Rightarrow> nat \<Rightarrow> bool" where
  "closable efd s fd \<longleftrightarrow> pt_efd (packets_time s ! fd) = efd \<and> connectionClosed (packets_time s ! fd) \<noteq> 1"

lemma closeConnection_eq:
  "fd < length (packets_time s) \<Longrightarrow> closeConnection efd fd s =
    (if closable efd s fd
     then Some (1, s\<lparr>packets_time := (packets_time s)[fd := (packets_time s ! fd)\<lparr>connectionClosed := 1\<rparr>],
       active_conns := active_conns s - 1, dead_conns := dead_conns s + 1\<rparr>)
     else Some (0, s))"
  by (simp add: closeConnection_def closable_def)

lemma closable_update:
  "fd \<noteq> fd' \<Longrightarrow> closable efd (s\<lparr>packets_time := (packets_time s)[fd := p], active_conns := a, dead_conns := d\<rparr>) fd'
     = closable efd s fd'"
  by (simp add: closable_def)

text \<open>The connections a call closes: the first \<open>n\<close> that are open, in the order of the map.\<close>

definition to_close :: "int \<Rightarrow> int \<Rightarrow> nat list \<Rightarrow> conn_table \<Rightarrow> nat list" where
  "to_close efd n is s = take (nat n) (filter (closable efd s) (map ((!) (connsMap s)) is))"

definition close_all :: "nat list \<Rightarrow> conn_table \<Rightarrow> conn_table" where
  "close_all fds s = s\<lparr>packets_time := fold (\<lambda>fd ps. ps[fd := (ps ! fd)\<lparr>connectionClosed := 1\<rparr>]) fds (packets_time s),
     active_conns := active_conns s - int (length fds), dead_conns := dead_conns s + int (length fds)\<rparr>"

lemma close_loop_eq:
  assumes "distinct (map ((!) (connsMap s)) is)" and "\<forall>i \<in> set is. i < length (connsMap s) \<and> connsMap s ! i < length (packets_time s)"
  shows "close_loop efd n is s = Some (close_all (to_close efd n is s) s)"
  using assms
proof (induction "is" arbitrary: n s)
  case Nil
  then show ?case by (simp add: to_close_def close_all_def)
next
  case (Cons i "is")
  let ?fd = "connsMap s ! i"
  have fd: "i < length (connsMap s)" "?fd < length (packets_time s)" using Cons.prems(2) by simp_all
  show ?case
  proof (cases "0 < n")
    case False
    then show ?thesis by (simp add: to_close_def close_all_def)
  next
    case n: True
    show ?thesis
    proof (cases "closable efd s ?fd")
      case False
      then show ?thesis
        using n fd Cons.IH[of s n] Cons.prems closeConnection_eq[OF fd(2), of efd] by (simp add: to_close_def)
    next
      case True
      let ?t = "s\<lparr>packets_time := (packets_time s)[?fd := (packets_time s ! ?fd)\<lparr>connectionClosed := 1\<rparr>],
        active_conns := active_conns s - 1, dead_conns := dead_conns s + 1\<rparr>"
      have "filter (closable efd ?t) (map ((!) (connsMap s)) is) = filter (closable efd s) (map ((!) (connsMap s)) is)"
        using Cons.prems(1) by (intro filter_cong[OF refl] closable_update) auto
      then have "to_close efd (n - 1) is ?t = take (nat (n - 1)) (filter (closable efd s) (map ((!) (connsMap s)) is))"
        by (simp add: to_close_def)
      moreover have "nat n = Suc (nat (n - 1))" using n by simp
      ultimately have tc: "to_close efd n (i # is) s = ?fd # to_close efd (n - 1) is ?t"
        using True by (simp add: to_close_def)
      have "close_loop efd n (i # is) s = close_loop efd (n - 1) is ?t"
        using n fd True closeConnection_eq[OF fd(2), of efd] by simp
      also have "\<dots> = Some (close_all (to_close efd (n - 1) is ?t) ?t)"
        using Cons.prems by (intro Cons.IH) simp_all
      also have "\<dots> = Some (close_all (?fd # to_close efd (n - 1) is ?t) s)"
        by (simp add: close_all_def)
      finally show ?thesis by (simp only: tc)
    qed
  qed
qed

definition conns_ok :: "conn_table \<Rightarrow> bool" where
  "conns_ok s \<longleftrightarrow> length (packets_time s) = MAX_EVENTS \<and> length (connsMap s) = MAX_EVENTS \<and>
     set (connsMap s) \<subseteq> {0..<MAX_EVENTS} \<and> distinct (connsMap s)"

end
