(* ===== verification/ClientConfig.thy ===== *)
theory ClientConfig
  imports ServerConfig Epoll
begin

text \<open>
  \<^verbatim>\<open>client/client_config.c\<close>.  As for the server, a parsed settings file is the record of what
  its lookups return.  The request rate is of an ordered type with zero and one; the floating-point
  product that scales the burst is the parameter \<open>scale\<close>:
  \<open>scale connections burst\<close> is \<^verbatim>\<open>(connections * 1.0) / (BASE_CONNS * 1.0) * burst\<close>
  converted to int.  Lookups into variables of the struct leave them alone when they fail; failed
  lookups into locals leave these uninitialised, an argument here.
\<close>

definition INCRE :: int where "INCRE = 1"
definition DECRE :: int where "DECRE = 2"
definition BASE_CONNS :: int where "BASE_CONNS = 100000"
definition CLIENT_MAXPORTS :: nat where "CLIENT_MAXPORTS = 1"

record 'd epoll_configs =
  dest_ip :: cstr
  c_ports :: "int list"
  c_ports_count :: int
  c_dev :: cstr
  c_requestRate :: 'd
  c_epoch :: int
  c_connections :: int
  c_burst :: int
  SID_start :: int
  SID_end :: int
  kill :: int
  unit_delay :: 'd
  interval :: int

definition validRequestRate :: "'d::{linorder,zero,one} \<Rightarrow> 'd" where
  "validRequestRate rate = (if rate > 1 then 1 else if rate < 0 then 0 else rate)"

text \<open>\<^verbatim>\<open>initConfigs\<close> assigns a new block to its own parameter: the result is the
  caller's struct and the block that is filled in.\<close>

definition client_initConfigs :: "'d::{linorder,zero,one} epoll_configs \<Rightarrow> 'd epoll_configs \<times> 'd epoll_configs" where
  "client_initConfigs conf =
    (conf, \<lparr>dest_ip = [], c_ports = replicate CLIENT_MAXPORTS 0, c_ports_count = 0, c_dev = [], c_requestRate = 0,
       c_epoch = 60, c_connections = 320, c_burst = 0, SID_start = 0, SID_end = 0, kill = 0, unit_delay = 0,
       interval = 10000\<rparr>)"

text \<open>The interval between two bursts: a quotient of ints times the scaled burst.\<close>

definition burst_interval :: "int \<Rightarrow> int \<Rightarrow> int \<Rightarrow> int" where
  "burst_interval epoch connections burst =
    (if connections \<noteq> 0 then int32 (int32 (S_TO_US * epoch) sdiv connections * burst) else 10000)"

definition client_read_ports :: "int list \<Rightarrow> int list \<Rightarrow> int \<Rightarrow> (int list \<times> int) option" where
  "client_read_ports file_ports ps cnt =
    (let n = if length file_ports \<ge> CLIENT_MAXPORTS then CLIENT_MAXPORTS else length file_ports in
     foldM (\<lambda>i (ps, cnt). do {
       p \<leftarrow> load file_ports i;
       ps \<leftarrow> store ps i p;
       Some (ps, cnt + 1)
     }) [0..<n] (ps, cnt))"

definition client_getConfigs ::
    "(int \<Rightarrow> int \<Rightarrow> int) \<Rightarrow> 'd::{linorder,zero,one} config_file option \<Rightarrow> 'd \<Rightarrow> 'd epoll_configs \<Rightarrow> (int \<times> 'd epoll_configs) option" where
  "client_getConfigs scale cf junk conf = (case cf of
     None \<Rightarrow> Some (EXIT_FAILURE, conf)
   | Some cfg \<Rightarrow> do {
       let conf = conf\<lparr>c_epoch := looked_up (c_epoch conf) (lookup_int cfg ''epoch'')\<rparr>;
       let conf = conf\<lparr>c_connections := looked_up (c_connections conf) (lookup_int cfg ''connections'')\<rparr>;
       let conf = conf\<lparr>c_burst := looked_up (c_burst conf) (lookup_int cfg ''burst'')\<rparr>;
       let conf = conf\<lparr>c_burst := scale (c_connections conf) (c_burst conf)\<rparr>;
       let conf = conf\<lparr>interval := burst_interval (c_epoch conf) (c_connections conf) (c_burst conf)\<rparr>;
       file_ports \<leftarrow> lookup_ints cfg ''ports'';
       (ps, cnt) \<leftarrow> client_read_ports file_ports (c_ports conf) (c_ports_count conf);
       let rate = looked_up junk (lookup_float cfg ''requestRate'');
       ip \<leftarrow> lookup_string cfg ''dest_ip'';
       device \<leftarrow> lookup_string cfg ''dev'';
       ip \<leftarrow> strcpy 20 ip;
       device \<leftarrow> strcpy 10 device;
       Some (EXIT_SUCCESS, conf\<lparr>c_ports := ps, c_ports_count := cnt, dest_ip := ip, c_dev := device,
         c_requestRate := validRequestRate rate,
         SID_start := looked_up (SID_start conf) (lookup_int cfg ''SID_start''),
         SID_end := looked_up (SID_end conf) (lookup_int cfg ''SID_end''),
         unit_delay := looked_up (unit_delay conf) (lookup_float cfg ''unit_delay'')\<rparr>)
     })"

text \<open>
  \<^verbatim>\<open>updateEpoch\<close> in the stages of its lookups; a failed lookup keeps what the earlier stages
  have stored.  The comparison of the connection numbers is between unsigned values.
\<close>

definition update_connections ::
    "(int \<Rightarrow> int \<Rightarrow> int) \<Rightarrow> int \<Rightarrow> 'd epoll_configs \<Rightarrow> int \<times> 'd epoll_configs" where
  "update_connections scale connections conf =
    (if connections \<noteq> c_connections conf then
       let flag = if (word_of_int connections :: u32) > word_of_int (c_connections conf) then INCRE else DECRE;
           conf = conf\<lparr>c_connections := connections\<rparr>;
           conf = conf\<lparr>c_burst := scale (c_connections conf) (c_burst conf)\<rparr>;
           conf = conf\<lparr>interval := burst_interval (c_epoch conf) (c_connections conf) (c_burst conf)\<rparr>
       in (flag, conf)
     else (0, conf))"

definition client_updateEpoch ::
    "(int \<Rightarrow> int \<Rightarrow> int) \<Rightarrow> 'd::{linorder,zero,one} config_file option \<Rightarrow> 'd epoll_configs \<Rightarrow> int \<times> 'd epoll_configs" where
  "client_updateEpoch scale cf conf = (case cf of
     None \<Rightarrow> (EXIT_FAILURE, conf)
   | Some cfg \<Rightarrow> (case lookup_int cfg ''epoch'' of
       None \<Rightarrow> (EXIT_FAILURE, conf)
     | Some epoch \<Rightarrow>
         let conf = (if epoch \<noteq> c_epoch conf then conf\<lparr>c_epoch := epoch\<rparr> else conf) in
         (case lookup_int cfg ''burst'' of
            None \<Rightarrow> (EXIT_FAILURE, conf)
          | Some burst \<Rightarrow>
              let conf = (if burst \<noteq> c_burst conf then conf\<lparr>c_burst := burst\<rparr> else conf) in
              (case lookup_int cfg ''connections'' of
                 None \<Rightarrow> (EXIT_FAILURE, conf)
               | Some connections \<Rightarrow>
                   let (flag, conf) = update_connections scale connections conf in
                   (case lookup_float cfg ''requestRate'' of
                      None \<Rightarrow> (EXIT_FAILURE, conf)
                    | Some rate \<Rightarrow>
                        let rate = validRequestRate rate;
                            conf = (if rate \<noteq> c_requestRate conf then conf\<lparr>c_requestRate := rate\<rparr> else conf) in
                        (case lookup_int cfg ''kill'' of
                           None \<Rightarrow> (EXIT_FAILURE, conf)
                         | Some k \<Rightarrow> (flag, if k \<noteq> kill conf then conf\<lparr>kill := k\<rparr> else conf)))))))"

end
