(* ===== verification/Client.thy ===== *)
theory Client
  imports ClientConfig PayloadCipher
begin

text \<open>
  \<^verbatim>\<open>client/client.c\<close>: the choice of packet types, the creation and the dynamic change of the
  number of connections, the handlers of the event loop and the sweep that decides which connections
  may send.  What the kernel returns is an argument; \<open>None\<close> is undefined behaviour or the end of the
  program.
\<close>

definition CLIENT_BUFF_SIZE :: nat where "CLIENT_BUFF_SIZE = 1500"
definition MAX_CONN_PER_PORT :: int where "MAX_CONN_PER_PORT = 60000"
definition CLIENT_REQUEST_PKT :: u8 where "CLIENT_REQUEST_PKT = 1"
definition CLIENT_HEARTBEAT_PKT :: u8 where "CLIENT_HEARTBEAT_PKT = 2"
definition USER_TO_SERVER :: u8 where "USER_TO_SERVER = 0"
definition RATE_ACCURACY :: int where "RATE_ACCURACY = 100"
definition PAUSETHRES :: int where "PAUSETHRES = 10000"

text \<open>The counter is unsigned, so the bound is converted.\<close>

definition getPktTypeNum :: "int \<Rightarrow> u32 \<Rightarrow> u8 \<times> u32" where
  "getPktTypeNum upper_bound pktTypeCounter =
    (let c = pktTypeCounter + 1; ub = word_of_int upper_bound in
     if c \<le> ub then (CLIENT_REQUEST_PKT, c)
     else if c \<ge> ub \<and> c < word_of_int RATE_ACCURACY then (CLIENT_HEARTBEAT_PKT, c)
     else (CLIENT_HEARTBEAT_PKT, 0))"

record 'd client_state =
  table :: conn_table
  pktTypeCounter :: u32
  conf :: "'d epoll_configs"
  c_stats :: client_statistics
  idmap :: "u32 list"
  efds :: "int list"
  port_conns :: "int list"
  close_conns :: "int list"
  client_ips :: int
  wire :: "(nat \<times> u8 list) list"

section \<open>Creating connections\<close>

text \<open>
  One attempt to connect: \<^verbatim>\<open>socket\<close> fails and the program ends, \<^verbatim>\<open>bind\<close>
  fails, \<^verbatim>\<open>connect\<close> fails, or the socket is connected or being connected.
\<close>

datatype attempt = Socket_fails | Bind_fails | Connect_fails | Connected nat

definition pauseSignal :: "int \<Rightarrow> int \<Rightarrow> int" where
  "pauseSignal counter thres = (let c = counter + 1 in if c \<ge> thres then 0 else c)"

definition connect_one ::
    "('d \<Rightarrow> int \<Rightarrow> int \<Rightarrow> int) \<Rightarrow> 'd epoll_configs \<Rightarrow> int \<Rightarrow> int \<Rightarrow> time \<Rightarrow> attempt \<Rightarrow> int \<times> conn_table \<Rightarrow> (int \<times> conn_table) option" where
  "connect_one vdelay cfg efd tot time a = (\<lambda>(counter, s). case a of
     Socket_fails \<Rightarrow> None
   | Bind_fails \<Rightarrow> Some (counter, s)
   | Connect_fails \<Rightarrow> Some (counter, s)
   | Connected sockfd \<Rightarrow> do {
       s \<leftarrow> setEventTimeEfd efd sockfd s;
       let counter = pauseSignal counter PAUSETHRES;
       s \<leftarrow> setVirtualEventTime (vdelay (unit_delay cfg)) sockfd tot time (c_epoch cfg) (interval cfg) s;
       Some (counter, s)
     })"

definition createEvents ::
    "('d \<Rightarrow> int \<Rightarrow> int \<Rightarrow> int) \<Rightarrow> 'd epoll_configs \<Rightarrow> int \<Rightarrow> int \<Rightarrow> int \<Rightarrow> time \<Rightarrow> (nat \<Rightarrow> nat \<Rightarrow> attempt) \<Rightarrow> conn_table \<Rightarrow> conn_table option" where
  "createEvents vdelay cfg ips conns efd time attempts s =
    (if ips = 0 then None
     else
       let average = conns sdiv ips;
           (average, tot) = (if average > MAX_CONN_PER_PORT then (MAX_CONN_PER_PORT, ips * MAX_CONN_PER_PORT)
                               else (average, conns))
       in map_option snd (foldM (\<lambda>(ip, connection). connect_one vdelay cfg efd tot time (attempts ip connection))
            (List.product [0..<nat ips] [0..<nat average]) (0, s)))"

section \<open>Changing the number of connections\<close>

text \<open>\<open>vdelay u\<close> is the virtual delay of a connection at unit delay \<open>u\<close>;
  \<open>vtenth\<close> is that at 0.1, the constant \<^verbatim>\<open>restoreConnections\<close> passes; \<open>now\<close> are the
  readings of the clock by \<^verbatim>\<open>restoreConnections\<close> and by \<^verbatim>\<open>createEvents\<close>.\<close>

definition addConnections ::
    "(int \<Rightarrow> int \<Rightarrow> int) \<Rightarrow> ('d \<Rightarrow> int \<Rightarrow> int \<Rightarrow> int) \<Rightarrow> time \<times> time \<Rightarrow> (nat \<Rightarrow> nat \<Rightarrow> attempt) \<Rightarrow> int \<Rightarrow> 'd client_state \<Rightarrow> 'd client_state option" where
  "addConnections vtenth vdelay now attempts conns st =
    (let ports = c_ports_count (conf st) in
     if ports = 0 then None
     else let conns_per_port = conns sdiv ports in
       foldM (\<lambda>port st. do {
         efd \<leftarrow> load (efds st) port;
         (restore_left, t) \<leftarrow> restoreConnections vtenth efd conns_per_port (c_epoch (conf st)) (interval (conf st)) (fst now) (table st);
         t \<leftarrow> createEvents vdelay (conf st) (client_ips st) restore_left efd (snd now) attempts t;
         n \<leftarrow> load (port_conns st) port;
         ns \<leftarrow> store (port_conns st) port (n + conns_per_port);
         Some (st\<lparr>table := t, port_conns := ns\<rparr>)
       }) [0..<nat ports] st)"

definition deleteConnections :: "int \<Rightarrow> 'd client_state \<Rightarrow> 'd client_state option" where
  "deleteConnections conns st =
    (let ports = c_ports_count (conf st) in
     if ports = 0 then None
     else let conns_per_port = conns sdiv ports in
       foldM (\<lambda>port st. do {
         n \<leftarrow> load (close_conns st) port;
         ns \<leftarrow> store (close_conns st) port (n + conns_per_port);
         Some (st\<lparr>close_conns := ns\<rparr>)
       }) [0..<nat ports] st)"

definition updateConnections ::
    "(int \<Rightarrow> int \<Rightarrow> int) \<Rightarrow> ('d \<Rightarrow> int \<Rightarrow> int \<Rightarrow> int) \<Rightarrow> time \<times> time \<Rightarrow> (nat \<Rightarrow> nat \<Rightarrow> attempt) \<Rightarrow> int \<Rightarrow> int \<Rightarrow> 'd client_state \<Rightarrow> 'd client_state option" where
  "updateConnections vtenth vdelay now attempts prior_conns conns st =
    (if prior_conns < conns then addConnections vtenth vdelay now attempts (conns - prior_conns) st
     else if prior_conns > conns then deleteConnections (prior_conns - conns) st
     else Some st)"

text \<open>One round of \<^verbatim>\<open>update_cfg\<close>; the kill switch closes all connections and ends the
  program, which is the flag of the result.\<close>

definition client_update_cfg ::
    "(int \<Rightarrow> int \<Rightarrow> int) \<Rightarrow> (int \<Rightarrow> int \<Rightarrow> int) \<Rightarrow> ('d \<Rightarrow> int \<Rightarrow> int \<Rightarrow> int) \<Rightarrow> time \<times> time \<Rightarrow> (nat \<Rightarrow> nat \<Rightarrow> attempt) \<Rightarrow> 'd::{linorder,zero,one} config_file option
      \<Rightarrow> 'd client_state \<Rightarrow> (bool \<times> 'd client_state) option" where
  "client_update_cfg scale vtenth vdelay now attempts cf st =
    (let prior_conns = c_connections (conf st);
         (flag, cfg) = client_updateEpoch scale cf (conf st);
         st = st\<lparr>conf := cfg\<rparr>
     in if kill cfg = 1 then map_option (\<lambda>t. (True, st\<lparr>table := t\<rparr>)) (closeAllConnections (table st))
        else if flag = INCRE \<or> flag = DECRE
        then map_option (Pair False) (updateConnections vtenth vdelay now attempts prior_conns (c_connections cfg) st)
        else Some (False, st))"

section \<open>The event loop\<close>

definition drop_connection :: "nat \<Rightarrow> nat \<Rightarrow> 'd client_state \<Rightarrow> 'd client_state option" where
  "drop_connection port fd st = do {
     t \<leftarrow> client_deleteEpollEvent fd (table st);
     n \<leftarrow> load (port_conns st) port;
     ns \<leftarrow> store (port_conns st) port (n - 1);
     Some (st\<lparr>table := t, port_conns := ns\<rparr>)
   }"

datatype write_result = Wrote nat | Interrupted | Write_fails

text \<open>
  What a handler takes from outside: the uninitialised arrays, whether the packet is encrypted (the
  \<^verbatim>\<open>CIPHER\<close> switch of the build), the key table, and the clock.
\<close>

record send_env =
  ciphered :: bool
  keys :: "u64 list"
  payload_buf :: "u8 list"
  payload_cipher :: "u8 list"
  send_result :: write_result
  send_now :: time
  send_last :: time

text \<open>What the handler does with the result of \<^verbatim>\<open>write\<close>; \<open>data\<close> is the packet.\<close>

definition after_write :: "send_env \<Rightarrow> u8 \<Rightarrow> u8 list \<Rightarrow> int \<Rightarrow> nat \<Rightarrow> nat \<Rightarrow> 'd client_state \<Rightarrow> 'd client_state option" where
  "after_write e ty data efd port fd st = (case send_result e of
     Interrupted \<Rightarrow> Some st
   | Write_fails \<Rightarrow> drop_connection port fd st
   | Wrote cnt \<Rightarrow>
       if cnt = 0 then drop_connection port fd st
       else do {
         let st = st\<lparr>wire := wire st @ [(fd, take cnt data)], c_stats := client_increSendPkts (c_stats st)\<rparr>;
         st \<leftarrow> (if ty = CLIENT_REQUEST_PKT then do {
             t \<leftarrow> client_modifyEpollEvent efd fd EPOLLIN (table st);
             Some (st\<lparr>c_stats := client_increRequestPkts (c_stats st), table := t\<rparr>)
           } else do {
             t \<leftarrow> resetSendPkt fd (table st);
             Some (st\<lparr>table := t\<rparr>)
           });
         t \<leftarrow> setEventSendTime fd None (interval (conf st)) (send_now e) (send_last e) (table st);
         Some (st\<lparr>table := t\<rparr>)
       })"

definition send_packet :: "send_env \<Rightarrow> int \<Rightarrow> int \<Rightarrow> nat \<Rightarrow> nat \<Rightarrow> 'd client_state \<Rightarrow> 'd client_state option" where
  "send_packet e upper_bound efd port fd st = do {
     let (ty, c) = getPktTypeNum upper_bound (pktTypeCounter st);
     let st = st\<lparr>pktTypeCounter := c\<rparr>;
     payload \<leftarrow> client_setPayload (idmap st) initPayload ty USER_TO_SERVER (word_of_nat fd);
     (buf, n) \<leftarrow> serialize_payload (payload_buf e) 0 payload;
     data \<leftarrow> (if ciphered e then seal_packet (keys e) buf (payload_cipher e) else Some buf);
     after_write e ty (take n data) efd port fd st
   }"

text \<open>A failed read consults the variable \<^verbatim>\<open>error\<close>, which is never assigned: \<open>again\<close>
  is whether it happens to be \<^verbatim>\<open>EAGAIN\<close>.\<close>

datatype receive_result = Got nat | Receive_fails bool

definition receive_packet :: "receive_result \<Rightarrow> time \<Rightarrow> nat \<Rightarrow> nat \<Rightarrow> 'd client_state \<Rightarrow> 'd client_state option" where
  "receive_packet r now port fd st = (case r of
     Receive_fails again \<Rightarrow> if \<not> again then drop_connection port fd st else Some st
   | Got cnt \<Rightarrow>
       if cnt = 0 then drop_connection port fd st
       else do {
         t \<leftarrow> setEventRecvTime fd None now (table st);
         t \<leftarrow> resetSendPkt fd t;
         rtt \<leftarrow> getRTT fd t;
         Some (st\<lparr>table := t, c_stats := client_increReceivePkts rtt (c_stats st)\<rparr>)
       })"

record client_event =
  ce_fd :: nat
  ce_error :: bool
  ce_out :: bool
  ce_in :: bool
  ce_send :: send_env
  ce_receive :: receive_result
  ce_now :: time

definition client_dispatch :: "int \<Rightarrow> int \<Rightarrow> nat \<Rightarrow> client_event \<Rightarrow> 'd client_state \<Rightarrow> 'd client_state option" where
  "client_dispatch upper_bound efd port e st =
    (if ce_error e then drop_connection port (ce_fd e) st
     else if ce_out e then send_packet (ce_send e) upper_bound efd port (ce_fd e) st
     else if ce_in e then receive_packet (ce_receive e) (ce_now e) port (ce_fd e) st
     else Some st)"

text \<open>One round of \<^verbatim>\<open>epollLoop\<close>; \<open>upper\<close> converts the request rate times the accuracy
  to int.\<close>

definition epollLoop_round :: "('d \<Rightarrow> int) \<Rightarrow> int \<Rightarrow> nat \<Rightarrow> client_event list \<Rightarrow> 'd client_state \<Rightarrow> 'd client_state option" where
  "epollLoop_round upper efd port events st = do {
     let upper_bound = upper (c_requestRate (conf st));
     n \<leftarrow> load (close_conns st) port;
     st \<leftarrow> (if n > 0 then do {
         t \<leftarrow> closeConnections efd n (table st);
         m \<leftarrow> load (port_conns st) port;
         ms \<leftarrow> store (port_conns st) port (m - n);
         ns \<leftarrow> store (close_conns st) port (n - n);
         Some (st\<lparr>table := t, port_conns := ms, close_conns := ns\<rparr>)
       } else Some st);
     foldM (client_dispatch upper_bound efd port) events st
   }"

text \<open>One sweep of \<^verbatim>\<open>updateEvents\<close>; \<open>clk\<close> is the clock at each descriptor.\<close>

definition sweep_one :: "int \<Rightarrow> (nat \<Rightarrow> time) \<Rightarrow> nat \<Rightarrow> conn_table \<Rightarrow> conn_table option" where
  "sweep_one ep clk fd s = do {
     p \<leftarrow> entry s fd;
     if pt_efd p = 0 then Some s
     else do {
       (ok, s) \<leftarrow> canSendPkt fd ep (clk fd) s;
       p \<leftarrow> entry s fd;
       if ok then client_modifyEpollEvent (pt_efd p) fd EPOLLOUT s else Some s
     }
   }"

definition updateEvents :: "int \<Rightarrow> (nat \<Rightarrow> time) \<Rightarrow> conn_table \<Rightarrow> conn_table option" where
  "updateEvents ep clk s = foldM (sweep_one ep clk) [0..<MAX_EVENTS] s"

end
