(* ===== verification/EpollTheorems.thy ===== *)
theory EpollTheorems
  imports Epoll
begin

text \<open>
  The properties of \<^verbatim>\<open>client/epoll.c\<close>: the table after start, which connections are
  closed and restored, and when a connection may send.
\<close>

section \<open>Start\<close>

lemma foldM_update_entries:
  "n \<le> length (packets_time s) \<Longrightarrow> foldM (\<lambda>i. update_entry f i) [0..<n] s =
     Some (s\<lparr>packets_time := map f (take n (packets_time s)) @ drop n (packets_time s)\<rparr>)"
proof (induction n)
  case (Suc n)
  let ?p = "packets_time s"
  have "(map f (take n ?p) @ drop n ?p)[n := f (?p ! n)] = map f (take (Suc n) ?p) @ drop (Suc n) ?p"
    using Suc.prems by (simp add: list_update_append take_Suc_conv_app_nth upd_conv_take_nth_drop Cons_nth_drop_Suc[symmetric])
  then show ?case using Suc by (simp add: foldM_append foldM_single nth_append)
qed simp

lemma foldM_store_index:
  "n \<le> length m \<Longrightarrow> foldM (\<lambda>i m. store m i i) [0..<n] m = Some ([0..<n] @ drop n m)"
proof (induction n)
  case (Suc n)
  then have "([0..<n] @ drop n m)[n := n] = [0..<Suc n] @ drop (Suc n) m"
    by (simp add: list_update_append Cons_nth_drop_Suc[symmetric])
  then show ?case using Suc by (simp add: foldM_append foldM_single)
qed simp

text \<open>Start-up leaves every entry of the table closed and idle, all counts zero and the map of
  connections a permutation of all descriptors, for any results of \<^verbatim>\<open>rand\<close>; the
  microseconds of each time are set to its seconds.\<close>

theorem initEventTime_ok:
  assumes "rand_ok rnd" and "length (packets_time s) = MAX_EVENTS" and "length (connsMap s) = MAX_EVENTS"
  shows "\<exists>t. initEventTime rnd now s = Some t \<and> conns_ok t \<and> mset (connsMap t) = mset [0..<MAX_EVENTS] \<and>
    total_conns t = 0 \<and> active_conns t = 0 \<and> dead_conns t = 0 \<and> interest t = interest s \<and>
    packets_time t = map (\<lambda>p. p\<lparr>pt_efd := 0, virtual_time := (fst now, fst now), sendingFlag := 0, connectionClosed := 1\<rparr>)
      (packets_time s)"
proof -
  have "foldM (\<lambda>i m. store m i i) [0..<MAX_EVENTS] (connsMap s) = Some [0..<MAX_EVENTS]"
    using foldM_store_index[of MAX_EVENTS "connsMap s"] assms(3) by simp
  moreover obtain m where m: "shuffer rnd [0..<MAX_EVENTS] MAX_EVENTS = Some m" "mset m = mset [0..<MAX_EVENTS]"
    using shuffer_perm[OF assms(1), of "[0..<MAX_EVENTS]" MAX_EVENTS] by auto
  ultimately have i: "initEpollConnectionStats rnd s =
      Some (s\<lparr>total_conns := 0, active_conns := 0, dead_conns := 0, connsMap := m\<rparr>)"
    by (simp add: initEpollConnectionStats_def)
  let ?s = "s\<lparr>total_conns := 0, active_conns := 0, dead_conns := 0, connsMap := m\<rparr>"
  let ?f = "\<lambda>p. p\<lparr>pt_efd := 0, virtual_time := (fst now, fst now), sendingFlag := 0, connectionClosed := 1\<rparr>"
  have "initEventTime rnd now s = Some (?s\<lparr>packets_time := map ?f (packets_time s)\<rparr>)"
    using i foldM_update_entries[of MAX_EVENTS ?s ?f] assms(2) by (simp add: initEventTime_def)
  moreover have "length m = MAX_EVENTS" using arg_cong[OF m(2), of size] by simp
  moreover have "set m = {0..<MAX_EVENTS}" using arg_cong[OF m(2), of set_mset] by simp
  moreover have "distinct m" using m(2) by (metis distinct_upt mset_eq_imp_distinct_iff)
  ultimately show ?thesis using m(2) assms(2) by (simp add: conns_ok_def)
qed

definition closed_entry :: packet_time where
  "closed_entry = \<lparr>pt_efd = 0, last_send = (0, 0), last_recv = (0, 0), virtual_time = (0, 0), sendingFlag = 0, connectionClosed = 1\<rparr>"

definition blank_table :: conn_table where
  "blank_table = \<lparr>packets_time = replicate MAX_EVENTS closed_entry, total_conns = 0, active_conns = 0, dead_conns = 0,
     connsMap = [0..<MAX_EVENTS], interest = (\<lambda>fd. None)\<rparr>"

theorem initEventTime_ok_witness:
  "\<exists>t. initEventTime (\<lambda>i. 5) (100, 7) blank_table = Some t \<and> conns_ok t \<and> mset (connsMap t) = mset [0..<MAX_EVENTS] \<and>
    total_conns t = 0 \<and> active_conns t = 0 \<and> dead_conns t = 0 \<and> interest t = interest blank_table \<and>
    packets_time t = map (\<lambda>p. p\<lparr>pt_efd := 0, virtual_time := (fst (100, 7 :: int), fst (100, 7 :: int)), sendingFlag := 0, connectionClosed := 1\<rparr>)
      (packets_time blank_table)"
  by (rule initEventTime_ok) (simp_all add: rand_ok_def RAND_MAX_def blank_table_def)

section \<open>Closing and restoring\<close>

lemma fold_entries:
  "distinct fds \<Longrightarrow> set fds \<subseteq> {0..<length ps} \<Longrightarrow>
   fold (\<lambda>fd ps. ps[fd := f fd (ps ! fd)]) fds ps = map (\<lambda>fd. if fd \<in> set fds then f fd (ps ! fd) else ps ! fd) [0..<length ps]"
proof (induction fds arbitrary: ps)
  case Nil
  then show ?case by (simp add: map_nth)
next
  case (Cons fd fds)
  let ?ps = "ps[fd := f fd (ps ! fd)]"
  have "fold (\<lambda>fd ps. ps[fd := f fd (ps ! fd)]) (fd # fds) ps = map (\<lambda>i. if i \<in> set fds then f i (?ps ! i) else ?ps ! i) [0..<length ps]"
    using Cons.IH[of ?ps] Cons.prems by simp
  also have "\<dots> = map (\<lambda>i. if i \<in> set (fd # fds) then f i (ps ! i) else ps ! i) [0..<length ps]"
    using Cons.prems by (intro map_cong) (auto simp: nth_list_update)
  finally show ?case .
qed

lemma closeConnections_eq:
  assumes "conns_ok s"
  shows "closeConnections efd n s = Some (close_all (take (nat n) (filter (closable efd s) (tl (connsMap s)))) s)"
proof -
  have l: "length (connsMap s) = MAX_EVENTS" using assms by (simp add: conns_ok_def)
  have tl: "map ((!) (connsMap s)) [1..<MAX_EVENTS] = tl (connsMap s)"
    by (rule nth_equalityI) (simp_all add: l nth_tl)
  have "close_loop efd n [1..<MAX_EVENTS] s = Some (close_all (to_close efd n [1..<MAX_EVENTS] s) s)"
  proof (rule close_loop_eq)
    show "distinct (map ((!) (connsMap s)) [1..<MAX_EVENTS])" using assms by (simp only: tl) (simp add: conns_ok_def distinct_tl)
    have "connsMap s ! i < MAX_EVENTS" if "i < MAX_EVENTS" for i
      using assms that by (metis atLeastLessThan_iff conns_ok_def nth_mem subsetD)
    then show "\<forall>i \<in> set [1..<MAX_EVENTS]. i < length (connsMap s) \<and> connsMap s ! i < length (packets_time s)"
      using assms by (simp add: conns_ok_def)
  qed
  then show ?thesis by (simp only: closeConnections_def to_close_def tl)
qed

lemma taken_ok:
  assumes "conns_ok s"
  shows "distinct (take n (filter P (tl (connsMap s)))) \<and> set (take n (filter P (tl (connsMap s)))) \<subseteq> {0..<MAX_EVENTS}"
proof -
  have "set (take n (filter P (tl (connsMap s)))) \<subseteq> set (connsMap s)"
    using set_take_subset[of n "filter P (tl (connsMap s))"] by (cases "connsMap s") auto
  then show ?thesis using assms by (auto simp: conns_ok_def distinct_take distinct_tl)
qed

text \<open>C18: a call to close connections closes exactly the first open ones in the order of the map, as
  many as asked for if there are that many, and moves them from the active to the dead count; the
  connection at the head of the map is never among them, because the scan starts at index 1.\<close>

theorem closeConnections_exact:
  assumes "conns_ok s"
  shows "\<exists>t fds. closeConnections efd n s = Some t \<and> fds = take (nat n) (filter (closable efd s) (tl (connsMap s))) \<and>
    packets_time t = map (\<lambda>fd. if fd \<in> set fds then (packets_time s ! fd)\<lparr>connectionClosed := 1\<rparr> else packets_time s ! fd)
      [0..<MAX_EVENTS] \<and>
    active_conns t = active_conns s - int (length fds) \<and> dead_conns t = dead_conns s + int (length fds) \<and>
    total_conns t = total_conns s \<and> connsMap t = connsMap s \<and> hd (connsMap s) \<notin> set fds"
proof -
  let ?fds = "take (nat n) (filter (closable efd s) (tl (connsMap s)))"
  have ne: "connsMap s = hd (connsMap s) # tl (connsMap s)"
    using assms by (cases "connsMap s") (simp_all add: conns_ok_def MAX_EVENTS_def)
  have d: "distinct (hd (connsMap s) # tl (connsMap s))" using assms ne by (simp add: conns_ok_def)
  have sub: "set ?fds \<subseteq> set (tl (connsMap s))" using set_take_subset by fastforce
  have "distinct ?fds" "set ?fds \<subseteq> {0..<length (packets_time s)}"
    using taken_ok[OF assms, where n = "nat n" and P = "closable efd s"] assms by (simp_all add: conns_ok_def)
  then have "packets_time (close_all ?fds s) =
      map (\<lambda>fd. if fd \<in> set ?fds then (packets_time s ! fd)\<lparr>connectionClosed := 1\<rparr> else packets_time s ! fd) [0..<MAX_EVENTS]"
    using fold_entries[of ?fds "packets_time s" "\<lambda>fd p. p\<lparr>connectionClosed := 1\<rparr>"] assms by (simp add: close_all_def conns_ok_def)
  moreover have "hd (connsMap s) \<notin> set ?fds" using sub d by auto
  ultimately show ?thesis
    using closeConnections_eq[OF assms, of efd n]
    by (intro exI[of _ "close_all ?fds s"] exI[of _ ?fds]) (simp add: close_all_def)
qed

lemma conns_ok_blank: "conns_ok blank_table"
  by (auto simp: conns_ok_def blank_table_def)

theorem closeConnections_exact_witness:
  "\<exists>t fds. closeConnections 3 2 blank_table = Some t \<and>
    fds = take (nat 2) (filter (closable 3 blank_table) (tl (connsMap blank_table))) \<and>
    packets_time t = map (\<lambda>fd. if fd \<in> set fds then (packets_time blank_table ! fd)\<lparr>connectionClosed := 1\<rparr>
      else packets_time blank_table ! fd) [0..<MAX_EVENTS] \<and>
    active_conns t = active_conns blank_table - int (length fds) \<and> dead_conns t = dead_conns blank_table + int (length fds) \<and>
    total_conns t = total_conns blank_table \<and> connsMap t = connsMap blank_table \<and> hd (connsMap blank_table) \<notin> set fds"
  by (rule closeConnections_exact[OF conns_ok_blank])

text \<open>C39: restoring connections after closing some is undefined whenever the connection at the head of
  the map is open: it is never closed, the scan for closed ones meets it first, and the function that
  should say it is not closed ends without returning a value.\<close>

theorem restore_after_close_undefined:
  assumes "conns_ok s" and "closable efd s (hd (connsMap s))" and "closeConnections efd n s = Some t"
    and "dead_conns t \<noteq> 0" and "0 < m"
  shows "restoreConnections vdelay efd m epoch interval now t = None"
proof -
  let ?h = "hd (connsMap s)"
  let ?fds = "take (nat n) (filter (closable efd s) (tl (connsMap s)))"
  have ne: "connsMap s = ?h # tl (connsMap s)"
    using assms(1) by (cases "connsMap s") (simp_all add: conns_ok_def MAX_EVENTS_def)
  then have h: "?h < MAX_EVENTS" "connsMap s ! 0 = ?h"
    using assms(1) by (metis atLeastLessThan_iff conns_ok_def list.set_intros(1) subset_iff, metis nth_Cons_0)
  have t: "t = close_all ?fds s" using assms(3) closeConnections_eq[OF assms(1), of efd n] by simp
  have d: "distinct (?h # tl (connsMap s))" using assms(1) ne by (simp add: conns_ok_def)
  have "set ?fds \<subseteq> set (tl (connsMap s))" using set_take_subset by fastforce
  with d have "?h \<notin> set ?fds" by auto
  moreover have "fold (\<lambda>fd ps. ps[fd := (ps ! fd)\<lparr>connectionClosed := 1\<rparr>]) fds ps ! i = ps ! i"
    if "i \<notin> set fds" for fds :: "nat list" and ps :: "packet_time list" and i
    using that by (induction fds arbitrary: ps) auto
  ultimately have p: "packets_time t ! ?h = packets_time s ! ?h" by (simp add: t close_all_def)
  have len: "length (fold (\<lambda>fd ps. ps[fd := (ps ! fd)\<lparr>connectionClosed := 1\<rparr>]) fds ps) = length ps"
    for fds :: "nat list" and ps :: "packet_time list"
    by (induction fds arbitrary: ps) simp_all
  have l: "length (packets_time t) = MAX_EVENTS" "connsMap t = connsMap s"
    using assms(1) len by (simp_all add: t close_all_def conns_ok_def)
  have "restoreConnection efd ?h t = None"
    using h(1) l p assms(2) by (simp add: restoreConnection_def closable_def)
  moreover have "load (connsMap t) 0 = Some ?h" using h assms(1) l by (simp add: conns_ok_def)
  moreover have "0 < MAX_EVENTS" by (simp add: MAX_EVENTS_def)
  then have "[0..<MAX_EVENTS] = 0 # [1..<MAX_EVENTS]" using upt_conv_Cons[of 0 MAX_EVENTS] by simp
  ultimately show ?thesis using assms(4,5) by (simp add: restoreConnections_def)
qed

definition open_table :: conn_table where
  "open_table = blank_table\<lparr>packets_time := replicate MAX_EVENTS (closed_entry\<lparr>pt_efd := 3, connectionClosed := 0\<rparr>)\<rparr>"

lemma open_table_ok: "conns_ok open_table"
  using conns_ok_blank by (simp add: open_table_def conns_ok_def)

lemma open_table_closed: "\<exists>t. closeConnections 3 1 open_table = Some t \<and> dead_conns t = 1"
proof -
  have "filter (closable 3 open_table) (tl (connsMap open_table)) = tl [0..<MAX_EVENTS]"
  proof -
    have "connsMap open_table = [0..<MAX_EVENTS]" by (simp add: open_table_def blank_table_def)
    moreover have "closable 3 open_table fd" if "fd \<in> set (tl [0..<MAX_EVENTS])" for fd
      using that by (auto simp: closable_def open_table_def closed_entry_def dest: list.set_sel(2)[rotated])
    ultimately show ?thesis by (simp only: filter_id_conv) blast
  qed
  moreover have "length (take (nat 1) (tl [0..<MAX_EVENTS])) = 1"
    by (simp only: length_take length_tl length_upt MAX_EVENTS_def)
  ultimately show ?thesis
    using closeConnections_eq[OF open_table_ok, of 3 1]
    by (simp add: close_all_def open_table_def blank_table_def)
qed

theorem restore_after_close_undefined_witness:
  "restoreConnections (\<lambda>e g. e) 3 1 60 10000 (5, 6) (the (closeConnections 3 1 open_table)) = None"
proof (rule restore_after_close_undefined[OF open_table_ok])
  obtain t where t: "closeConnections 3 1 open_table = Some t" "dead_conns t = 1" using open_table_closed by blast
  then show "closeConnections 3 1 open_table = Some (the (closeConnections 3 1 open_table))"
    and "dead_conns (the (closeConnections 3 1 open_table)) \<noteq> 0" by simp_all
  have "hd (connsMap open_table) = 0"
    using upt_conv_Cons[of 0 MAX_EVENTS] by (simp only: open_table_def blank_table_def conn_table.simps) (simp add: MAX_EVENTS_def)
  then show "closable 3 open_table (hd (connsMap open_table))"
    by (simp add: closable_def open_table_def closed_entry_def MAX_EVENTS_def)
qed simp

section \<open>Pacing\<close>

definition usecs :: "time \<Rightarrow> int" where
  "usecs t = fst t * 1000000 + snd t"

lemma getTimeDiff_usecs: "client_getTimeDiff a b = int32 (usecs b - usecs a)"
  by (simp add: client_getTimeDiff_def usecs_def S_TO_US_def algebra_simps)

text \<open>C15: after a packet the connection may send again exactly from the moment on when a whole epoch
  has passed since the beginning of the interval the packet was sent in, provided that it is asked
  before 2 to the 31 microseconds have passed.\<close>

theorem sends_are_paced:
  assumes "setEventSendTime fd None interval now sent s = Some s1" and "entry s fd = Some p"
    and "sendingFlag p \<noteq> 1" and "connectionClosed p \<noteq> 1" and "0 < interval" and "0 \<le> snd now"
    and "start = usecs (fst now, snd now div interval * interval)"
    and "start \<le> usecs t" and "usecs t - start \<le> INT_MAX" and "0 < epoch"
  shows "\<exists>s2. canSendPkt fd epoch t s1 = Some (start + epoch * 1000000 \<le> usecs t, s2)"
proof -
  have fd: "fd < length (packets_time s)" "packets_time s ! fd = p"
    using assms(2) by (auto simp: entry_def load_def split: if_splits)
  have s1: "s1 = s\<lparr>packets_time := (packets_time s)[fd := p\<lparr>virtual_time := (fst now, snd now div interval * interval), last_send := sent\<rparr>]\<rparr>"
    using assms(1,5,6) fd by (simp add: setEventSendTime_def split: if_splits)
  have d: "client_getTimeDiff (fst now, snd now div interval * interval) t = usecs t - start"
    using assms(7-9) by (simp add: getTimeDiff_usecs INT_MIN_def)
  have "epoch \<le> (usecs t - start) sdiv S_TO_US \<longleftrightarrow> start + epoch * 1000000 \<le> usecs t"
    using assms(8) by (simp add: S_TO_US_def) linarith
  then show ?thesis
    using fd assms(3,4) by (simp add: s1 canSendPkt_def d)
qed

theorem sends_are_paced_witness:
  "\<exists>s2. canSendPkt 5 60 (160, 900) (the (setEventSendTime 5 None 10000 (100, 12345) (100, 12346) open_table)) =
    Some (100010000 + 60 * 1000000 \<le> usecs (160, 900), s2)"
  by (rule sends_are_paced[where now = "(100, 12345)" and sent = "(100, 12346)" and interval = 10000 and s = open_table
        and p = "closed_entry\<lparr>pt_efd := 3, connectionClosed := 0\<rparr>"])
    (simp_all add: setEventSendTime_def open_table_def closed_entry_def MAX_EVENTS_def usecs_def INT_MAX_def)

text \<open>A connection that is asked later than that is refused for as long again: the time since its
  last packet is truncated to a negative int, so between 36 and 71 minutes after a packet nothing is
  sent.\<close>

theorem late_sends_are_refused:
  assumes "entry s fd = Some p" and "0 < epoch"
    and "INT_MAX < usecs t - usecs (virtual_time p)" and "usecs t - usecs (virtual_time p) < 4294967296"
  shows "canSendPkt fd epoch t s = Some (False, s)"
proof -
  let ?d = "usecs t - usecs (virtual_time p)"
  have "(?d + 2147483648) mod 4294967296 = (?d + 2147483648 - 4294967296) mod 4294967296"
    by (simp only: minus_mod_self2)
  also have "\<dots> = ?d - 2147483648" using assms(3,4) by (subst mod_pos_pos_trivial) (simp_all add: INT_MAX_def)
  finally have "int32 ?d = ?d - 4294967296"
    by (simp add: int32_def signed_take_bit_eq_take_bit_shift take_bit_eq_mod)
  then have "client_getTimeDiff (virtual_time p) t < 0" using assms(4) by (simp add: getTimeDiff_usecs)
  then have "client_getTimeDiff (virtual_time p) t sdiv S_TO_US \<le> 0"
    by (simp add: signed_divide_int_def S_TO_US_def sgn_if)
  then show ?thesis using assms(1,2) by (simp add: canSendPkt_def)
qed

theorem late_sends_are_refused_witness: "canSendPkt 5 60 (3000, 0) open_table = Some (False, open_table)"
  by (rule late_sends_are_refused[where p = "closed_entry\<lparr>pt_efd := 3, connectionClosed := 0\<rparr>"])
    (simp_all add: open_table_def closed_entry_def MAX_EVENTS_def usecs_def INT_MAX_def)

end
