(* ===== verification/ClientTheorems.thy ===== *)
theory ClientTheorems
  imports Client EpollTheorems ServerTheorems
begin

text \<open>
  The properties of the client: its settings, the mix of its packets, the life of a request on a
  connection, the connections it opens, and a request on its way through both programs.
\<close>

section \<open>Settings\<close>

lemma int32_0 [simp]: "int32 0 = 0"
  by (simp add: int32_def)

text \<open>With settings whose connections times burst stay below 100000 the scaled burst and with it
  the burst interval become zero, and the first packet that is sent, like the first connection that is
  created, divides by zero.\<close>

theorem small_load_divides_by_zero:
  assumes "\<And>c b. 0 \<le> c \<Longrightarrow> 0 \<le> b \<Longrightarrow> c * b < BASE_CONNS \<Longrightarrow> scale c b = 0"
    and "lookup_int cfg ''connections'' = Some c" and "lookup_int cfg ''burst'' = Some b"
    and "0 < c" and "0 \<le> b" and "c * b < BASE_CONNS"
    and "client_getConfigs scale (Some cfg) junk conf0 = Some (status, conf1)"
  shows "interval conf1 = 0 \<and> setEventSendTime fd None (interval conf1) now sent t = None \<and>
    setVirtualEventTime vdelay fd c tm (c_epoch conf1) (interval conf1) t = None"
proof -
  have "interval conf1 = 0"
    using assms(2-7) assms(1)[of c b]
    by (auto simp: client_getConfigs_def looked_up_def burst_interval_def Let_def split: Option.bind_splits)
  then show ?thesis
    using assms(4) by (simp add: setEventSendTime_def setVirtualEventTime_def usec_offset_def)
qed

definition demo_settings :: "int \<Rightarrow> int \<Rightarrow> int config_file" where
  "demo_settings c b = \<lparr>lookup_int = (\<lambda>s. if s = ''connections'' then Some c else if s = ''burst'' then Some b
       else if s = ''epoch'' then Some 60 else if s = ''kill'' then Some 0 else None),
     lookup_float = (\<lambda>s. Some 1), lookup_string = (\<lambda>s. Some (ascii ''eth0'')), lookup_ints = (\<lambda>s. Some [8000])\<rparr>"

definition demo_client_conf :: "int epoll_configs" where
  "demo_client_conf = snd (client_initConfigs
     \<lparr>dest_ip = [], c_ports = [0], c_ports_count = 0, c_dev = [], c_requestRate = 0, c_epoch = 0, c_connections = 0,
       c_burst = 0, SID_start = 0, SID_end = 0, kill = 0, unit_delay = 0, interval = 0\<rparr>)"

definition exact_scale :: "int \<Rightarrow> int \<Rightarrow> int" where
  "exact_scale c b = (c * b) div BASE_CONNS"

lemmas settings_eval = client_getConfigs_def demo_settings_def demo_client_conf_def client_initConfigs_def looked_up_def
  client_read_ports_def CLIENT_MAXPORTS_def strcpy_def ascii_def exact_scale_def BASE_CONNS_def burst_interval_def S_TO_US_def

theorem small_load_divides_by_zero_witness:
  "interval (snd (the (client_getConfigs exact_scale (Some (demo_settings 50 100)) 0 demo_client_conf))) = 0 \<and>
    setEventSendTime 5 None (interval (snd (the (client_getConfigs exact_scale (Some (demo_settings 50 100)) 0 demo_client_conf))))
      (1, 2) (1, 3) open_table = None \<and>
    setVirtualEventTime (\<lambda>e g. e) 5 50 (1, 2) (c_epoch (snd (the (client_getConfigs exact_scale (Some (demo_settings 50 100)) 0 demo_client_conf))))
      (interval (snd (the (client_getConfigs exact_scale (Some (demo_settings 50 100)) 0 demo_client_conf)))) open_table = None"
proof (rule small_load_divides_by_zero[where scale = exact_scale and cfg = "demo_settings 50 100" and b = 100
      and ?conf0.0 = demo_client_conf and junk = 0 and status = EXIT_SUCCESS])
  fix c b :: int
  assume "0 \<le> c" "0 \<le> b" "c * b < BASE_CONNS"
  then show "exact_scale c b = 0" by (simp add: exact_scale_def)
next
  show "client_getConfigs exact_scale (Some (demo_settings 50 100)) 0 demo_client_conf =
      Some (EXIT_SUCCESS, snd (the (client_getConfigs exact_scale (Some (demo_settings 50 100)) 0 demo_client_conf)))"
    by (simp add: settings_eval)
qed (simp_all add: demo_settings_def BASE_CONNS_def)

text \<open>The periodic update is not the identity on an unchanged file: it stores the unscaled burst
  over the scaled one and leaves the interval computed from the scaled one.\<close>

theorem update_unscales_burst:
  assumes "client_getConfigs scale (Some cfg) junk conf0 = Some (EXIT_SUCCESS, conf1)"
    and "lookup_int cfg ''epoch'' = Some ep" and "lookup_int cfg ''connections'' = Some c" and "lookup_int cfg ''burst'' = Some b"
    and "lookup_float cfg ''requestRate'' = Some r" and "lookup_int cfg ''kill'' = Some (kill conf0)"
  shows "c_burst conf1 = scale c b \<and> interval conf1 = burst_interval ep c (scale c b) \<and>
    client_updateEpoch scale (Some cfg) conf1 = (0, conf1\<lparr>c_burst := b\<rparr>)"
proof -
  have "c_burst conf1 = scale c b" "interval conf1 = burst_interval ep c (scale c b)" "c_epoch conf1 = ep"
    "c_connections conf1 = c" "c_requestRate conf1 = validRequestRate r" "kill conf1 = kill conf0"
    using assms by (auto simp: client_getConfigs_def looked_up_def Let_def split: Option.bind_splits)
  then show ?thesis
    using assms(2-6) by (simp add: client_updateEpoch_def update_connections_def)
qed

theorem update_unscales_burst_witness:
  "c_burst (snd (the (client_getConfigs exact_scale (Some (demo_settings 200000 3)) 0 demo_client_conf))) = exact_scale 200000 3 \<and>
    interval (snd (the (client_getConfigs exact_scale (Some (demo_settings 200000 3)) 0 demo_client_conf)))
      = burst_interval 60 200000 (exact_scale 200000 3) \<and>
    client_updateEpoch exact_scale (Some (demo_settings 200000 3))
        (snd (the (client_getConfigs exact_scale (Some (demo_settings 200000 3)) 0 demo_client_conf))) =
      (0, (snd (the (client_getConfigs exact_scale (Some (demo_settings 200000 3)) 0 demo_client_conf)))\<lparr>c_burst := 3\<rparr>)"
  by (rule update_unscales_burst[where junk = 0 and ?conf0.0 = demo_client_conf and r = 1]) (simp_all add: settings_eval)

section \<open>The mix of packets\<close>

fun pkt_types :: "int \<Rightarrow> nat \<Rightarrow> u32 \<Rightarrow> u8 list" where
  "pkt_types ub 0 c = []"
| "pkt_types ub (Suc n) c = (let (ty, c) = getPktTypeNum ub c in ty # pkt_types ub n c)"

definition period :: "int \<Rightarrow> nat" where
  "period ub = (if ub = RATE_ACCURACY then 101 else 100)"

lemma getPktTypeNum_step:
  assumes "0 \<le> ub" and "ub \<le> RATE_ACCURACY" and "k < period ub"
  shows "getPktTypeNum ub (word_of_nat k) =
    (if int k < ub then CLIENT_REQUEST_PKT else CLIENT_HEARTBEAT_PKT, word_of_nat (Suc k mod period ub))"
proof -
  have k: "k < 101" "ub \<le> 100" using assms by (simp_all add: period_def RATE_ACCURACY_def split: if_splits)
  have c: "(word_of_nat k + 1 :: u32) = word_of_nat (Suc k)" by simp
  have le: "(word_of_nat (Suc k) :: u32) \<le> word_of_int ub \<longleftrightarrow> int k < ub"
    "(word_of_int ub :: u32) \<le> word_of_nat (Suc k) \<longleftrightarrow> ub \<le> int k + 1"
    "(word_of_nat (Suc k) :: u32) < word_of_int RATE_ACCURACY \<longleftrightarrow> k < 99"
    using k assms(1)
    by (simp_all add: word_le_def word_less_def RATE_ACCURACY_def uint_word_of_int unsigned_of_nat take_bit_nat_eq_self
        take_bit_int_eq_self del: of_nat_Suc) auto
  show ?thesis
    unfolding getPktTypeNum_def c Let_def le
    using assms by (auto simp: period_def RATE_ACCURACY_def mod_Suc simp del: of_nat_Suc)
qed

lemma pkt_types_from:
  assumes "0 \<le> ub" and "ub \<le> RATE_ACCURACY"
  shows "pkt_types ub n (word_of_nat (k mod period ub)) =
    map (\<lambda>i. if int (i mod period ub) < ub then CLIENT_REQUEST_PKT else CLIENT_HEARTBEAT_PKT) [k..<k + n]"
proof (induction n arbitrary: k)
  case (Suc n)
  have "k mod period ub < period ub" by (simp add: period_def)
  from getPktTypeNum_step[OF assms this] Suc.IH[of "Suc k"] show ?case
    by (simp add: mod_Suc_eq upt_conv_Cons del: upt_Suc)
qed simp

text \<open>C22: the types of successive packets repeat with a period of 100, in which the first as many are
  requests as the bound says, except that at the full rate the period is 101: one packet of it is still
  a heartbeat.\<close>

theorem request_rate:
  assumes "0 \<le> ub" and "ub \<le> RATE_ACCURACY"
  shows "pkt_types ub n 0 =
    map (\<lambda>k. if int (k mod (if ub = RATE_ACCURACY then 101 else 100)) < ub then CLIENT_REQUEST_PKT else CLIENT_HEARTBEAT_PKT) [0..<n]"
  using pkt_types_from[OF assms, of n 0] by (simp add: period_def)

theorem request_rate_witness:
  "pkt_types 100 250 0 =
    map (\<lambda>k. if int (k mod (if 100 = RATE_ACCURACY then 101 else 100)) < 100 then CLIENT_REQUEST_PKT else CLIENT_HEARTBEAT_PKT) [0..<250]"
  by (rule request_rate) (simp_all add: RATE_ACCURACY_def)

section \<open>The life of a request\<close>

lemma canSendPkt_sending: "entry s fd = Some p \<Longrightarrow> sendingFlag p = 1 \<Longrightarrow> canSendPkt fd ep t s = Some (False, s)"
  by (simp add: canSendPkt_def)

text \<open>What a successful send does to the table of a registered connection.\<close>

definition sent_entry :: "bool \<Rightarrow> int \<Rightarrow> time \<Rightarrow> time \<Rightarrow> packet_time \<Rightarrow> packet_time" where
  "sent_entry request iv now sent_at p =
    (if request then p else p\<lparr>sendingFlag := 0\<rparr>)\<lparr>virtual_time := (fst now, snd now sdiv iv * iv), last_send := sent_at\<rparr>"

lemma send_packet_wrote:
  assumes "send_packet e ub efd port fd st = Some st1" and "send_result e = Wrote k" and "0 < k"
    and "interest (table st) (efd, fd) = Some ev"
  shows "fd < MAX_EVENTS \<and> fd < length (packets_time (table st)) \<and>
    packets_time (table st1) = (packets_time (table st))[fd := sent_entry (fst (getPktTypeNum ub (pktTypeCounter st)) = CLIENT_REQUEST_PKT)
      (interval (conf st)) (send_now e) (send_last e) (packets_time (table st) ! fd)] \<and>
    c_stats st1 = (if fst (getPktTypeNum ub (pktTypeCounter st)) = CLIENT_REQUEST_PKT
      then client_increRequestPkts (client_increSendPkts (c_stats st)) else client_increSendPkts (c_stats st)) \<and>
    port_conns st1 = port_conns st \<and> conf st1 = conf st"
proof -
  obtain ty c where ty: "getPktTypeNum ub (pktTypeCounter st) = (ty, c)" by (cases "getPktTypeNum ub (pktTypeCounter st)")
  show ?thesis
    using assms ty
    by (auto simp: send_packet_def after_write_def Let_def client_modifyEpollEvent_def resetSendPkt_def update_entry_Some setEventSendTime_def sent_entry_def
        nth_list_update split: Option.bind_splits if_splits)
qed

text \<open>The packet a connection sends, and that it is sent.\<close>

definition client_packet :: "u32 list \<Rightarrow> u8 \<Rightarrow> nat \<Rightarrow> packet_format" where
  "client_packet ids ty fd = the (client_setPayload ids initPayload ty USER_TO_SERVER (word_of_nat fd))"

lemma unat_fd: "fd < MAX_EVENTS \<Longrightarrow> unat (word_of_nat fd :: u32) = fd"
  by (simp add: unsigned_of_nat take_bit_nat_eq_self MAX_EVENTS_def)

lemma client_packet_set:
  "fd < MAX_EVENTS \<Longrightarrow> fd < length ids \<Longrightarrow>
    client_setPayload ids initPayload ty USER_TO_SERVER (word_of_nat fd) = Some (client_packet ids ty fd)"
  using unat_fd[of fd] by (simp add: client_packet_def client_setPayload_def)

lemma wf_client_packet: "fd < MAX_EVENTS \<Longrightarrow> fd < length ids \<Longrightarrow> wf_packet (client_packet ids ty fd) \<and> type (client_packet ids ty fd) = ty"
  using unat_fd[of fd] wf_initPayload by (auto simp: client_packet_def client_setPayload_def wf_packet_def)

lemma send_packet_eq:
  assumes "fd < MAX_EVENTS" and "fd < length (idmap st)" and "146 \<le> length (payload_buf e)"
    and "length (packets_time (table st)) = MAX_EVENTS" and "interest (table st) (efd, fd) = Some ev" and "interval (conf st) \<noteq> 0"
    and "getPktTypeNum ub (pktTypeCounter st) = (ty, c)"
    and "(if ciphered e then seal_packet (keys e) (splice (payload_buf e) 0 (packet_bytes (client_packet (idmap st) ty fd))) (payload_cipher e)
          else Some (splice (payload_buf e) 0 (packet_bytes (client_packet (idmap st) ty fd)))) = Some data"
    and "send_result e = Wrote k" and "0 < k"
  obtains st1 where "send_packet e ub efd port fd st = Some st1" and "wire st1 = wire st @ [(fd, take k (take 146 data))]"
proof -
  have ser: "serialize_payload (payload_buf e) 0 (client_packet (idmap st) ty fd) =
      Some (splice (payload_buf e) 0 (packet_bytes (client_packet (idmap st) ty fd)), 146)"
    using serialize_payload_eq[OF conjunct1[OF wf_client_packet[OF assms(1,2)]], of "payload_buf e" 0] assms(3) by simp
  show ?thesis
    using assms ser client_packet_set[OF assms(1,2)] that
    by (cases "ty = CLIENT_REQUEST_PKT"; cases "ciphered e")
      (simp_all add: send_packet_def after_write_def Let_def client_modifyEpollEvent_def resetSendPkt_def setEventSendTime_def)
qed

definition demo_client :: "int client_state" where
  "demo_client = \<lparr>table = open_table\<lparr>packets_time := replicate MAX_EVENTS (closed_entry\<lparr>pt_efd := 3, connectionClosed := 0, sendingFlag := 1\<rparr>),
       interest := (\<lambda>(efd, fd). if efd = 3 then Some EPOLLOUT else None)\<rparr>,
     pktTypeCounter = 0, conf = demo_client_conf, c_stats = zero_client_statistics, idmap = replicate 10 9, efds = [3],
     port_conns = [1], close_conns = [0], client_ips = 1, wire = []\<rparr>"

definition demo_env :: "write_result \<Rightarrow> send_env" where
  "demo_env w = \<lparr>ciphered = True, keys = the initKeyTable, payload_buf = replicate 150 1, payload_cipher = replicate 150 2,
     send_result = w, send_now = (100, 7), send_last = (100, 8)\<rparr>"

lemma demo_client_simps:
  "5 < MAX_EVENTS" "5 < length (idmap demo_client)" "length (packets_time (table demo_client)) = MAX_EVENTS"
  "interest (table demo_client) (3, 5) = Some EPOLLOUT" "interval (conf demo_client) \<noteq> 0"
  "getPktTypeNum 50 (pktTypeCounter demo_client) = (CLIENT_REQUEST_PKT, 1)"
  "entry (table demo_client) 5 = Some (closed_entry\<lparr>pt_efd := 3, connectionClosed := 0, sendingFlag := 1\<rparr>)"
  by (simp_all add: demo_client_def MAX_EVENTS_def demo_client_conf_def client_initConfigs_def getPktTypeNum_def Let_def)

lemma demo_data:
  "seal_packet (the initKeyTable) (splice (replicate 150 1) 0 (packet_bytes (client_packet (idmap demo_client) CLIENT_REQUEST_PKT 5)))
     (replicate 150 2) = Some (the (seal_packet (the initKeyTable)
       (splice (replicate 150 1) 0 (packet_bytes (client_packet (idmap demo_client) CLIENT_REQUEST_PKT 5))) (replicate 150 2)))"
proof -
  have "wf_packet (client_packet (idmap demo_client) CLIENT_REQUEST_PKT 5)"
    using wf_client_packet[OF demo_client_simps(1,2)] by simp
  from length_packet_bytes[OF this] show ?thesis
    using seal_total[of "the initKeyTable" "splice (replicate 150 1) 0 (packet_bytes (client_packet (idmap demo_client) CLIENT_REQUEST_PKT 5))"
        "replicate 150 2"] by (simp add: initKeyTable_length)
qed

lemma demo_sends:
  "send_packet (demo_env (Wrote 146)) 50 3 0 5 demo_client = Some (the (send_packet (demo_env (Wrote 146)) 50 3 0 5 demo_client))"
  by (rule send_packet_eq[OF demo_client_simps(1,2) _ demo_client_simps(3-6), where e = "demo_env (Wrote 146)" and k = 146 and port = 0])
    (use demo_data in \<open>auto simp: demo_env_def\<close>)

lemma demo_interrupted:
  "send_packet (demo_env Interrupted) 50 3 0 5 demo_client = Some (demo_client\<lparr>pktTypeCounter := 1\<rparr>)"
proof -
  have ser: "serialize_payload (replicate 150 1) 0 (client_packet (idmap demo_client) CLIENT_REQUEST_PKT 5) =
      Some (splice (replicate 150 1) 0 (packet_bytes (client_packet (idmap demo_client) CLIENT_REQUEST_PKT 5)), 146)"
    using serialize_payload_eq[OF conjunct1[OF wf_client_packet[OF demo_client_simps(1,2)]], of "replicate 150 1" 0] by simp
  obtain data where "seal_packet (the initKeyTable)
      (splice (replicate 150 1) 0 (packet_bytes (client_packet (idmap demo_client) CLIENT_REQUEST_PKT 5))) (replicate 150 2) = Some data"
    using demo_data by blast
  then show ?thesis
    using ser client_packet_set[OF demo_client_simps(1,2), of CLIENT_REQUEST_PKT]
    by (simp only: send_packet_def after_write_def demo_client_simps(6) Let_def prod.case, simp add: demo_env_def)
qed

text \<open>A write that a signal interrupts silences its connection: nothing was sent, no answer will
  come, and the flag that the sweep set stays set.\<close>

theorem interrupted_write_stalls:
  assumes "send_packet e ub efd port fd st = Some st1" and "send_result e = Interrupted"
    and "entry (table st) fd = Some p" and "sendingFlag p = 1"
  shows "wire st1 = wire st \<and> table st1 = table st \<and> canSendPkt fd ep t (table st1) = Some (False, table st1)"
proof -
  have "wire st1 = wire st \<and> table st1 = table st"
    using assms(1,2) by (auto simp: send_packet_def after_write_def Let_def split: Option.bind_splits prod.splits if_splits)
  then show ?thesis using canSendPkt_sending[OF assms(3,4)] by simp
qed

theorem interrupted_write_stalls_witness:
  "wire (demo_client\<lparr>pktTypeCounter := 1\<rparr>) = wire demo_client \<and> table (demo_client\<lparr>pktTypeCounter := 1\<rparr>) = table demo_client \<and>
    canSendPkt 5 60 (9000, 0) (table (demo_client\<lparr>pktTypeCounter := 1\<rparr>)) = Some (False, table (demo_client\<lparr>pktTypeCounter := 1\<rparr>))"
  by (rule interrupted_write_stalls[OF demo_interrupted _ demo_client_simps(7)]) (simp_all add: demo_env_def)

section \<open>Opening connections\<close>

definition opened :: "int \<Rightarrow> conn_table \<Rightarrow> nat \<Rightarrow> bool" where
  "opened efd s fd \<longleftrightarrow> (case entry s fd of None \<Rightarrow> False
     | Some p \<Rightarrow> pt_efd p = efd \<and> connectionClosed p = 0 \<and> sendingFlag p = 0)"

lemma connect_one_opens:
  assumes "fd < MAX_EVENTS" and "length (packets_time s) = MAX_EVENTS" and "tot \<noteq> 0" and "interval cfg \<noteq> 0"
  obtains counter' t where "connect_one vdelay cfg efd tot time (Connected fd) (counter, s) = Some (counter', t)"
    and "length (packets_time t) = MAX_EVENTS" and "opened efd t fd"
    and "\<And>i. opened efd s i \<Longrightarrow> opened efd t i"
    and "total_conns t = total_conns s" and "active_conns t = active_conns s"
proof -
  obtain off where "usec_offset fd tot (c_epoch cfg) (interval cfg) = Some off"
    using assms(3,4) by (simp add: usec_offset_def Let_def)
  then have "\<exists>counter' t p. connect_one vdelay cfg efd tot time (Connected fd) (counter, s) = Some (counter', t) \<and>
      t = s\<lparr>packets_time := (packets_time s)[fd := p]\<rparr> \<and> pt_efd p = efd \<and> connectionClosed p = 0 \<and> sendingFlag p = 0"
    using assms(1,2)
    by (simp add: connect_one_def setEventTimeEfd_def setVirtualEventTime_def setEventSendTime_def setEventRecvTime_def Let_def)
      (intro exI conjI, rule refl, simp_all)
  then obtain counter' t p where t: "connect_one vdelay cfg efd tot time (Connected fd) (counter, s) = Some (counter', t)"
      "t = s\<lparr>packets_time := (packets_time s)[fd := p]\<rparr>" "pt_efd p = efd" "connectionClosed p = 0" "sendingFlag p = 0"
    by blast
  have "opened efd t i" if "i = fd \<or> opened efd s i" for i
    using that t(2-5) assms(1,2) by (cases "i = fd") (auto simp: opened_def entry_def load_def split: if_splits)
  then show ?thesis using t(1,2) assms(2) by (intro that[of counter' t]) simp_all
qed

lemma connect_all_opens:
  assumes "tot \<noteq> 0" and "interval cfg \<noteq> 0" and "list_all (\<lambda>fd. fd < MAX_EVENTS) fds" and "length (packets_time s) = MAX_EVENTS"
  shows "\<exists>counter' t. foldM (\<lambda>fd. connect_one vdelay cfg efd tot time (Connected fd)) fds (counter, s) = Some (counter', t) \<and>
    list_all (opened efd t) fds \<and> (\<forall>i. opened efd s i \<longrightarrow> opened efd t i) \<and>
    total_conns t = total_conns s \<and> active_conns t = active_conns s"
  using assms(3,4)
proof (induction fds arbitrary: counter s)
  case (Cons fd fds)
  have fd: "fd < MAX_EVENTS" and l: "length (packets_time s) = MAX_EVENTS" using Cons.prems by simp_all
  obtain c1 t1 where t1: "connect_one vdelay cfg efd tot time (Connected fd) (counter, s) = Some (c1, t1)"
    "length (packets_time t1) = MAX_EVENTS" "opened efd t1 fd" "\<And>i. opened efd s i \<Longrightarrow> opened efd t1 i"
    "total_conns t1 = total_conns s" "active_conns t1 = active_conns s"
    by (rule connect_one_opens[OF fd l assms(1,2)]) blast
  then show ?case using Cons.IH[OF _ t1(2), of c1] Cons.prems(1) by auto
qed simp

text \<open>Asked for more connections than it has addresses for, the client makes the same whole number of
  attempts on each address: the remainder is not tried, and when every attempt succeeds all descriptors
  are open and idle on the given epoll instance, though none of them is counted in the statistics before its first turn.\<close>

theorem createEvents_opens:
  assumes "0 < ips" and "ips \<le> conns" and "conns div ips \<le> MAX_CONN_PER_PORT" and "interval cfg \<noteq> 0"
    and "length (packets_time s) = MAX_EVENTS"
    and "list_all (\<lambda>fd. fd < MAX_EVENTS) (map (\<lambda>(ip, i). f ip i) (List.product [0..<nat ips] [0..<nat (conns div ips)]))"
  shows "\<exists>t. createEvents vdelay cfg ips conns efd time (\<lambda>ip i. Connected (f ip i)) s = Some t \<and>
    list_all (opened efd t) (map (\<lambda>(ip, i). f ip i) (List.product [0..<nat ips] [0..<nat (conns div ips)])) \<and>
    int (length (List.product [0..<nat ips] [0..<nat (conns div ips)])) = conns - conns mod ips \<and>
    total_conns t = total_conns s \<and> active_conns t = active_conns s"
proof -
  let ?L = "List.product [0..<nat ips] [0..<nat (conns div ips)]"
  have "conns \<noteq> 0" using assms(1,2) by simp
  then obtain c t where "foldM (\<lambda>fd. connect_one vdelay cfg efd conns time (Connected fd)) (map (\<lambda>(ip, i). f ip i) ?L) (0, s) = Some (c, t)"
      "list_all (opened efd t) (map (\<lambda>(ip, i). f ip i) ?L)" "total_conns t = total_conns s" "active_conns t = active_conns s"
    using connect_all_opens[OF _ assms(4,6,5), of conns vdelay efd time 0] by blast
  moreover have "(\<lambda>(ip, i). connect_one vdelay cfg efd conns time (Connected (f ip i))) =
      (\<lambda>x. connect_one vdelay cfg efd conns time (Connected (case x of (ip, i) \<Rightarrow> f ip i)))"
    by (rule ext) (simp split: prod.splits)
  moreover have "int (length ?L) = conns - conns mod ips"
    using assms(1,2) by (simp add: length_product pos_imp_zdiv_nonneg_iff minus_mod_eq_mult_div)
  ultimately show ?thesis
    using assms(1-3) by (simp add: createEvents_def Let_def foldM_map)
qed

theorem createEvents_opens_witness:
  "\<exists>t. createEvents (\<lambda>u e g. e) demo_client_conf 2 7 3 (100, 5) (\<lambda>ip i. Connected (10 * ip + i)) blank_table = Some t \<and>
    list_all (opened 3 t) (map (\<lambda>(ip, i). 10 * ip + i) (List.product [0..<nat 2] [0..<nat (7 div 2)])) \<and>
    int (length (List.product [0..<nat 2] [0..<nat (7 div 2)])) = 7 - 7 mod 2 \<and>
    total_conns t = total_conns blank_table \<and> active_conns t = active_conns blank_table"
  by (rule createEvents_opens)
    (simp_all add: MAX_CONN_PER_PORT_def demo_client_conf_def client_initConfigs_def blank_table_def, simp add: MAX_EVENTS_def upt_rec)

section \<open>A request on its way\<close>

text \<open>The array a packet is encoded into: as declared, or, for the cipher, with the four bytes more that
  encryption reads and writes beyond it.\<close>

definition arrays_ok :: "send_env \<Rightarrow> bool" where
  "arrays_ok e \<longleftrightarrow> (if ciphered e then 150 \<le> length (payload_buf e) \<and> 150 \<le> length (payload_cipher e) \<and> length (keys e) = TABLE_SIZE
     else length (payload_buf e) = PAYLOAD_SIZE)"

lemma arrays_room: "arrays_ok e \<Longrightarrow> 146 \<le> length (payload_buf e)"
  by (auto simp: arrays_ok_def split: if_splits)

text \<open>What the client sends is its packet as it goes on the wire.\<close>

lemma sent_on_wire:
  assumes "fd < MAX_EVENTS" and "fd < length (idmap st)" and "arrays_ok e"
  obtains data where "(if ciphered e then seal_packet (keys e) (splice (payload_buf e) 0 (packet_bytes (client_packet (idmap st) ty fd))) (payload_cipher e)
      else Some (splice (payload_buf e) 0 (packet_bytes (client_packet (idmap st) ty fd)))) = Some data"
    and "on_wire (ciphered e) (keys e) (client_packet (idmap st) ty fd) (take 146 data)"
proof (cases "ciphered e")
  case True
  let ?pk = "client_packet (idmap st) ty fd"
  let ?sent = "splice (payload_buf e) 0 (packet_bytes ?pk)"
  have a: "150 \<le> length (payload_buf e)" "150 \<le> length (payload_cipher e)" "length (keys e) = TABLE_SIZE"
    using assms(3) True by (simp_all add: arrays_ok_def)
  have wf: "wf_packet ?pk" using wf_client_packet[OF assms(1,2)] by simp
  have sent: "150 \<le> length ?sent" "take 146 ?sent = packet_bytes ?pk" using a(1) length_packet_bytes[OF wf] by (simp_all add: splice_def)
  obtain data where data: "seal_packet (keys e) ?sent (payload_cipher e) = Some data"
    using seal_total[OF a(3) sent(1) a(2)] by blast
  have "\<exists>sent cjunk c. 150 \<le> length sent \<and> take 146 sent = packet_bytes ?pk \<and> 150 \<le> length cjunk \<and>
      seal_packet (keys e) sent cjunk = Some c \<and> take 146 data = take 146 c"
    using sent a(2) data by blast
  then have "on_wire (ciphered e) (keys e) ?pk (take 146 data)" using True wf a(3) by (simp add: on_wire_def)
  with data True that show thesis by simp
next
  case False
  let ?pk = "client_packet (idmap st) ty fd"
  have wf: "wf_packet ?pk" using wf_client_packet[OF assms(1,2)] by simp
  with False that show thesis by (simp add: on_wire_def splice_def length_packet_bytes)
qed

text \<open>C1: the two programs together, built alike: what the client sends for a connection whose turn it is for
  a request, if the socket takes the whole packet, the server receives, hands to a worker, decodes, records
  in the database and answers on its end of the connection, in the clear and as far as the socket takes the answer, with the
  same packet in its own direction.  Built without \<^verbatim>\<open>CIPHER\<close>, as \<^verbatim>\<open>client.h\<close> has it, the arrays are
  those declared, and \<^verbatim>\<open>server.h\<close> must be changed alike (as shipped it defines the switch, so that the
  server decrypts what was not encrypted).  Built with it, the theorem assumes that the arrays that
  encryption and decryption write have four bytes more than the 146 declared, since the declared ones
  overrun, and that the busy wait ends.  The burst interval is not zero, the ring was empty, and the
  database answers as in the theorem on reading what was written.\<close>

theorem request_round_trip:
  assumes "fd < MAX_EVENTS" and "fd < length (idmap st)" and "length (packets_time (table st)) = MAX_EVENTS"
    and "interest (table st) (efd, fd) = Some ev" and "interval (conf st) \<noteq> 0"
    and "getPktTypeNum ub (pktTypeCounter st) = (CLIENT_REQUEST_PKT, c)"
    and "arrays_ok e" and "send_result e = Wrote PAYLOAD_SIZE"
    and "server_ok sconf s" and "items (rings s ! next_thread sconf s) = []" and "length junk = BUFF_SIZE"
    and "round_ok sconf to_us r" and "deciphers r = ciphered e" and "write_result r = Some k"
    and "redis_laws redis rd" and "cluster_ready cl" and "db_fits rd cl w"
  shows "\<exists>st1 bytes s1 s2 w'. send_packet e ub efd port fd st = Some st1 \<and> wire st1 = wire st @ [(fd, bytes)] \<and>
    (\<not> ciphered e \<longrightarrow> bytes = packet_bytes (client_packet (idmap st) CLIENT_REQUEST_PKT fd)) \<and>
    processEPOLLIN sconf [Data bytes, Would_block] now junk sefd sfd s = Some (Goes s1) \<and>
    process_packet sconf to_us redis cl (keys e) r (next_thread sconf s) (s1, w) = Some (Goes (s2, w')) \<and>
    written s2 = written s @
      [(sfd, take k (packet_bytes ((client_packet (idmap st) CLIENT_REQUEST_PKT fd)\<lparr>direction := SERVER_TO_APP\<rparr>)))] \<and>
    items (rings s2 ! next_thread sconf s) = [] \<and>
    db_value rd cl w' DEVICE_STATE_DB (decimal (sint (userID (client_packet (idmap st) CLIENT_REQUEST_PKT fd) ! 0)))
      = Some (decimal (uint (state (client_packet (idmap st) CLIENT_REQUEST_PKT fd) ! 0)))"
proof -
  let ?pk = "client_packet (idmap st) CLIENT_REQUEST_PKT fd"
  obtain data where data: "(if ciphered e then seal_packet (keys e) (splice (payload_buf e) 0 (packet_bytes ?pk)) (payload_cipher e)
      else Some (splice (payload_buf e) 0 (packet_bytes ?pk))) = Some data"
    and wire: "on_wire (ciphered e) (keys e) ?pk (take 146 data)"
    by (rule sent_on_wire[OF assms(1,2,7)])
  obtain st1 where st1: "send_packet e ub efd port fd st = Some st1" "wire st1 = wire st @ [(fd, take 146 data)]"
    by (rule send_packet_eq[OF assms(1,2) arrays_room[OF assms(7)] assms(3-6) data assms(8), where port = port]) auto
  have "type ?pk = REQUEST_PKT" using wf_client_packet[OF assms(1,2)] by (simp add: CLIENT_REQUEST_PKT_def REQUEST_PKT_def)
  then have re: "reply r sfd ?pk = [(sfd, take k (packet_bytes (?pk\<lparr>direction := SERVER_TO_APP\<rparr>)))]"
    using assms(14) by (simp add: reply_def getPktType_def)
  have plain: "\<not> ciphered e \<longrightarrow> take 146 data = packet_bytes ?pk" using wire by (simp add: on_wire_def)
  have "on_wire (deciphers r) (keys e) ?pk (take 146 data)" using wire assms(13) by simp
  from packet_answered[OF assms(9-11) this assms(12,15-17), where now = now and efd = sefd and fd = sfd] st1 plain
  show ?thesis unfolding re by blast
qed

definition plain_env :: "write_result \<Rightarrow> send_env" where
  "plain_env w = (demo_env w)\<lparr>ciphered := False, payload_buf := replicate 146 1\<rparr>"

theorem request_round_trip_witness:
  "\<exists>st1 bytes s1 s2 w'. send_packet (plain_env (Wrote PAYLOAD_SIZE)) 50 3 0 5 demo_client = Some st1 \<and> wire st1 = wire demo_client @ [(5, bytes)] \<and>
    (\<not> ciphered (plain_env (Wrote PAYLOAD_SIZE)) \<longrightarrow> bytes = packet_bytes (client_packet (idmap demo_client) CLIENT_REQUEST_PKT 5)) \<and>
    processEPOLLIN demo_server_configs [Data bytes, Would_block] (1, 2) (replicate 200 0) 3 8 demo_state = Some (Goes s1) \<and>
    process_packet demo_server_configs (\<lambda>d. 0) demo_redis demo_cluster (keys (plain_env (Wrote PAYLOAD_SIZE))) demo_round
      (next_thread demo_server_configs demo_state) (s1, \<lambda>k. None) = Some (Goes (s2, w')) \<and>
    written s2 = written demo_state @
      [(8, take 146 (packet_bytes ((client_packet (idmap demo_client) CLIENT_REQUEST_PKT 5)\<lparr>direction := SERVER_TO_APP\<rparr>)))] \<and>
    items (rings s2 ! next_thread demo_server_configs demo_state) = [] \<and>
    db_value (\<lambda>w c. w) demo_cluster w' DEVICE_STATE_DB (decimal (sint (userID (client_packet (idmap demo_client) CLIENT_REQUEST_PKT 5) ! 0)))
      = Some (decimal (uint (state (client_packet (idmap demo_client) CLIENT_REQUEST_PKT 5) ! 0)))"
  by (rule request_round_trip[OF demo_client_simps(1-6) _ _ demo_server_ok demo_items _ demo_round_ok(1) _ _ demo_laws demo_ready demo_empty_fits])
    (simp_all add: plain_env_def demo_env_def arrays_ok_def BUFF_SIZE_def demo_round_def)

end
