(* ===== verification/ClientSetup.thy ===== *)
theory ClientSetup
  imports Client EpollTheorems CString
begin

text \<open>
  The start of the client in \<^verbatim>\<open>client/client.c\<close>: the addresses of its network device, the
  addresses it connects to, \<^verbatim>\<open>init\<close>, and the threads of \<^verbatim>\<open>main\<close> up to their event
  loops.  \<^verbatim>\<open>inet_addr\<close>, \<^verbatim>\<open>htons\<close>, \<^verbatim>\<open>gethostbyname\<close>,
  \<^verbatim>\<open>getifaddrs\<close> and \<^verbatim>\<open>getnameinfo\<close> are arguments, memory from
  \<^verbatim>\<open>malloc\<close> too.  \<open>None\<close> is undefined behaviour or the end of the program.
\<close>

definition MAXIPS :: nat where "MAXIPS = 300"
definition NI_MAXHOST :: nat where "NI_MAXHOST = 1025"
definition AF_INET :: int where "AF_INET = 2"

text \<open>An interface of \<^verbatim>\<open>getifaddrs\<close>, with whether it has an address and what
  \<^verbatim>\<open>getnameinfo\<close> says its host is.\<close>

record ifaddr =
  ifa_addressed :: bool
  ifa_family :: int
  ifa_name :: cstr
  ifa_host :: "cstr option"

record sockaddr_in =
  sin_family :: int
  sin_port :: u16
  sin_addr :: u32

section \<open>Addresses\<close>

fun alias_loop :: "cstr \<Rightarrow> ifaddr list \<Rightarrow> cstr list \<times> nat \<Rightarrow> (cstr list \<times> nat) option" where
  "alias_loop device [] (aliases, ips) = Some (aliases, ips)"
| "alias_loop device (ifa # ifas) (aliases, ips) =
    (if \<not> ifa_addressed ifa then alias_loop device ifas (aliases, ips)
     else if ifa_family ifa \<noteq> AF_INET \<or> strstr (ifa_name ifa) device = None then alias_loop device ifas (aliases, ips)
     else case ifa_host ifa of
       None \<Rightarrow> None
     | Some host \<Rightarrow> do {
         host \<leftarrow> strcpy NI_MAXHOST host;
         aliases \<leftarrow> store aliases ips host;
         (if ips \<ge> MAXIPS then Some (aliases, ips)
          else alias_loop device ifas (aliases, ips + 1))
       })"

definition getAliasIPs :: "cstr \<Rightarrow> ifaddr list option \<Rightarrow> nat \<Rightarrow> cstr list \<Rightarrow> (cstr list \<times> nat) option" where
  "getAliasIPs device ifaddrs ips aliases =
    (if ips \<noteq> 0 then None
     else case ifaddrs of None \<Rightarrow> None | Some ifas \<Rightarrow> alias_loop device ifas (aliases, ips))"

definition createClients ::
    "(cstr \<Rightarrow> u32) \<Rightarrow> (u16 \<Rightarrow> u16) \<Rightarrow> nat \<Rightarrow> cstr list \<Rightarrow> sockaddr_in list \<Rightarrow> sockaddr_in list option" where
  "createClients inet_addr htons ips aliases cs =
    (if \<not> ips < MAXIPS then None
     else foldM (\<lambda>ip cs. do {
       a \<leftarrow> load aliases ip;
       store cs ip \<lparr>sin_family = AF_INET, sin_port = htons 0, sin_addr = inet_addr a\<rparr>
     }) [0..<ips] cs)"

definition createServer ::
    "(cstr \<Rightarrow> u32) \<Rightarrow> (u16 \<Rightarrow> u16) \<Rightarrow> (cstr \<Rightarrow> bool) \<Rightarrow> 'd epoll_configs \<Rightarrow> sockaddr_in list \<Rightarrow> sockaddr_in list option" where
  "createServer inet_addr htons known cfg ss = do {
     dest \<leftarrow> strcpy NI_MAXHOST (dest_ip cfg);
     (if \<not> known dest then None
      else foldM (\<lambda>n ss. do {
        p \<leftarrow> load (c_ports cfg) n;
        store ss n \<lparr>sin_family = AF_INET, sin_port = htons (word_of_int p), sin_addr = inet_addr dest\<rparr>
      }) [0..<nat (c_ports_count cfg)] ss)
   }"

section \<open>Initialisation\<close>

record client_net =
  aliasIPs :: "cstr list"
  client_addrs :: "sockaddr_in list"
  server_addrs :: "sockaddr_in list"
  failed_conns :: "int list"

definition initGlobal :: "'d epoll_configs \<Rightarrow> conn_table \<Rightarrow> client_net \<Rightarrow> 'd client_state \<times> client_net" where
  "initGlobal cfg t net =
    (\<lparr>table = t, pktTypeCounter = 0, conf = cfg, c_stats = zero_client_statistics, idmap = [],
       efds = replicate CLIENT_MAXPORTS 0, port_conns = replicate CLIENT_MAXPORTS 0,
       close_conns = replicate CLIENT_MAXPORTS 0, client_ips = 0, wire = []\<rparr>,
     net\<lparr>failed_conns := replicate CLIENT_MAXPORTS 0\<rparr>)"

text \<open>\<^verbatim>\<open>initConfigs\<close> fills in a block of its own, so the configuration starts as the
  memory that \<^verbatim>\<open>malloc\<close> returned.\<close>

definition initParams :: "'d::{linorder,zero,one} epoll_configs \<Rightarrow> conn_table \<Rightarrow> client_net \<Rightarrow> 'd client_state \<times> client_net" where
  "initParams memory t net = initGlobal (fst (client_initConfigs memory)) t net"

record 'd client_world =
  scale_burst :: "int \<Rightarrow> int \<Rightarrow> int"
  settings :: "'d config_file option"
  rate_junk :: 'd
  interfaces :: "ifaddr list option"
  world_inet_addr :: "cstr \<Rightarrow> u32"
  world_htons :: "u16 \<Rightarrow> u16"
  host_known :: "cstr \<Rightarrow> bool"
  map_rand :: "nat \<Rightarrow> int"
  id_rand :: "nat \<Rightarrow> int"
  start_time :: time

definition client_init ::
    "'d::{linorder,zero,one} client_world \<Rightarrow> 'd epoll_configs \<Rightarrow> conn_table \<Rightarrow> client_net
      \<Rightarrow> ('d client_state \<times> client_net \<times> u64 list) option" where
  "client_init env memory t net = do {
     let (st, net) = initParams memory t net;
     (_, cfg) \<leftarrow> client_getConfigs (scale_burst env) (settings env) (rate_junk env) (conf st);
     (aliases, ips) \<leftarrow> getAliasIPs (c_dev cfg) (interfaces env) 0 (aliasIPs net);
     t \<leftarrow> initEventTime (map_rand env) (start_time env) (table st);
     ids \<leftarrow> initIDMap (id_rand env) (SID_start cfg) (SID_end cfg);
     key_table \<leftarrow> initKeyTable;
     cs \<leftarrow> createClients (world_inet_addr env) (world_htons env) ips aliases (client_addrs net);
     ss \<leftarrow> createServer (world_inet_addr env) (world_htons env) (host_known env) cfg (server_addrs net);
     Some (st\<lparr>conf := cfg, client_ips := int ips, table := t, idmap := ids\<rparr>,
       net\<lparr>aliasIPs := aliases, client_addrs := cs, server_addrs := ss\<rparr>, key_table)
   }"

section \<open>The threads\<close>

text \<open>\<^verbatim>\<open>epoll_client\<close> up to its event loop, and the loop of \<^verbatim>\<open>main\<close> that starts one
  for each port; \<open>created\<close> is whether \<^verbatim>\<open>pthread_create\<close> succeeds, \<open>others\<close> whether
  it does for the threads of the statistics, the updates and the sweeps.\<close>

definition epoll_client ::
    "('d \<Rightarrow> int \<Rightarrow> int \<Rightarrow> int) \<Rightarrow> int \<Rightarrow> time \<Rightarrow> (nat \<Rightarrow> nat \<Rightarrow> attempt) \<Rightarrow> int \<Rightarrow> nat \<Rightarrow> 'd client_state \<Rightarrow> 'd client_state option" where
  "epoll_client vdelay efd now attempts tot port st = do {
     es \<leftarrow> store (efds st) port efd;
     ns \<leftarrow> store (port_conns st) port tot;
     t \<leftarrow> createEvents vdelay (conf st) (client_ips st) tot efd now attempts (table st);
     Some (st\<lparr>efds := es, port_conns := ns, table := t\<rparr>)
   }"

definition client_main ::
    "('d \<Rightarrow> int \<Rightarrow> int \<Rightarrow> int) \<Rightarrow> (nat \<Rightarrow> bool) \<Rightarrow> bool \<Rightarrow> (nat \<Rightarrow> int) \<Rightarrow> (nat \<Rightarrow> time) \<Rightarrow> (nat \<Rightarrow> nat \<Rightarrow> nat \<Rightarrow> attempt)
      \<Rightarrow> 'd client_state \<Rightarrow> 'd client_state option" where
  "client_main vdelay created others new_efd now attempts st =
    (let ports = c_ports_count (conf st); tot = c_connections (conf st) in
     if tot = 0 then None
     else do {
       st \<leftarrow> foldM (\<lambda>n st.
         if created n then epoll_client vdelay (new_efd n) (now n) (attempts n) (tot sdiv ports) n st else None)
         [0..<nat ports] st;
       (if others then Some st else None)
     })"

section \<open>The addresses of the device\<close>

definition on_device :: "cstr \<Rightarrow> ifaddr \<Rightarrow> bool" where
  "on_device device ifa \<longleftrightarrow> ifa_addressed ifa \<and> ifa_family ifa = AF_INET \<and> strstr (ifa_name ifa) device \<noteq> None"

definition device_hosts :: "cstr \<Rightarrow> ifaddr list \<Rightarrow> cstr list" where
  "device_hosts device ifas = map (the \<circ> ifa_host) (filter (on_device device) ifas)"

definition hosts_fit :: "cstr \<Rightarrow> ifaddr list \<Rightarrow> bool" where
  "hosts_fit device ifas \<longleftrightarrow>
     list_all (\<lambda>ifa. on_device device ifa \<longrightarrow> (case ifa_host ifa of None \<Rightarrow> False | Some h \<Rightarrow> length h < NI_MAXHOST)) ifas"

lemma alias_loop_eq:
  assumes "hosts_fit device ifas" and "length aliases = MAXIPS" and "ips \<le> MAXIPS"
  shows "alias_loop device ifas (aliases, ips) =
    (let hosts = device_hosts device ifas in
     if ips + length hosts \<le> MAXIPS then Some (splice aliases ips hosts, ips + length hosts) else None)"
  using assms
proof (induction ifas arbitrary: aliases ips)
  case Nil
  then show ?case by (simp add: device_hosts_def)
next
  case (Cons ifa ifas)
  have fit: "hosts_fit device ifas" using Cons.prems(1) by (simp add: hosts_fit_def)
  show ?case
  proof (cases "on_device device ifa")
    case False
    then have "alias_loop device (ifa # ifas) (aliases, ips) = alias_loop device ifas (aliases, ips)"
      by (auto simp: on_device_def)
    moreover have "device_hosts device (ifa # ifas) = device_hosts device ifas" using False by (simp add: device_hosts_def)
    ultimately show ?thesis using Cons.IH[OF fit Cons.prems(2,3)] by simp
  next
    case True
    then obtain h where h: "ifa_host ifa = Some h" "length h < NI_MAXHOST"
      using Cons.prems(1) by (auto simp: hosts_fit_def split: option.splits)
    have c: "strcpy NI_MAXHOST h = Some h" using h(2) by (simp add: strcpy_def)
    have on: "ifa_addressed ifa" "ifa_family ifa = AF_INET" "\<not> strstr (ifa_name ifa) device = None"
      using True by (simp_all add: on_device_def)
    have d: "device_hosts device (ifa # ifas) = h # device_hosts device ifas" using True h(1) by (simp add: device_hosts_def)
    show ?thesis
    proof (cases "ips < MAXIPS")
      case False
      then show ?thesis using on h c d Cons.prems(2,3) by (simp del: not_None_eq)
    next
      case ips: True
      from Cons.IH[OF fit, of "aliases[ips := h]" "ips + 1"]
      show ?thesis
        using on h c d Cons.prems(2) ips
        by (simp del: not_None_eq add: Let_def splice_def list_update_append take_update_swap take_Suc_conv_app_nth)
    qed
  qed
qed

definition client_address :: "(cstr \<Rightarrow> u32) \<Rightarrow> (u16 \<Rightarrow> u16) \<Rightarrow> cstr \<Rightarrow> sockaddr_in" where
  "client_address inet_addr htons host = \<lparr>sin_family = AF_INET, sin_port = htons 0, sin_addr = inet_addr host\<rparr>"

lemma createClients_eq:
  assumes "length aliases = MAXIPS" and "length cs = MAXIPS"
  shows "createClients inet_addr htons ips aliases cs =
    (if ips < MAXIPS then Some (splice cs 0 (map (client_address inet_addr htons) (take ips aliases))) else None)"
proof (cases "ips < MAXIPS")
  case True
  let ?f = "\<lambda>i. client_address inet_addr htons (aliases ! i)"
  have "foldM (\<lambda>ip cs. do {
       a \<leftarrow> load aliases ip;
       store cs ip \<lparr>sin_family = AF_INET, sin_port = htons 0, sin_addr = inet_addr a\<rparr>
     }) [0..<ips] cs = foldM (\<lambda>i cs. store cs (0 + i) (?f i)) [0..<ips] cs"
    using True assms(1) by (intro foldM_cong) (auto simp: client_address_def)
  also have "\<dots> = Some (splice cs 0 (map ?f [0..<ips]))"
    using foldM_store_upt[of 0 ips cs ?f] True assms(2) by simp
  also have "map ?f [0..<ips] = map (client_address inet_addr htons) (take ips aliases)"
    using True assms(1) by (intro nth_equalityI) simp_all
  finally show ?thesis using True by (simp add: createClients_def)
qed (simp add: createClients_def)

end
