(* ===== verification/ClientInvariant.thy ===== *)
theory ClientInvariant
  imports Client EpollTheorems StepInvariant
begin

text \<open>
  The invariant of the running client: the connection table keeps its shape, belongs to the one epoll
  instance of the program, and counts exactly the descriptors registered there.  The steps are the
  rounds of the event loop, the sweeps, and the rounds of the update thread.
\<close>

named_theorems core_simps \<open>operations that keep the core of the table\<close>

section \<open>The part of the table that is not times and flags\<close>

definition core :: "conn_table \<Rightarrow> int list \<times> nat list \<times> (int \<times> nat \<Rightarrow> ep_event option) \<times> int" where
  "core t = (map pt_efd (packets_time t), connsMap t, interest t, total_conns t)"

definition table_ok :: "int \<Rightarrow> conn_table \<Rightarrow> bool" where
  "table_ok efd t \<longleftrightarrow> conns_ok t \<and> set (map pt_efd (packets_time t)) \<subseteq> {0, efd} \<and>
     finite (dom (interest t)) \<and> (\<forall>e fd. e \<noteq> efd \<longrightarrow> interest t (e, fd) = None) \<and> total_conns t = int (card (dom (interest t)))"

lemma table_ok_core:
  assumes "core s = core t"
  shows "table_ok efd s \<longleftrightarrow> table_ok efd t"
proof -
  have m: "map pt_efd (packets_time s) = map pt_efd (packets_time t)" using assms by (simp add: core_def)
  from map_eq_imp_length_eq[OF m] arg_cong[OF m, of set] show ?thesis
    using assms by (simp add: core_def table_ok_def conns_ok_def)
qed

lemma core_update_entry:
  assumes "update_entry f fd s = Some t" and "\<And>p. pt_efd (f p) = pt_efd p"
  shows "core t = core s"
  using assms by (auto simp: update_entry_Some core_def map_update list_update_same_conv)

lemma core_resetSendPkt [core_simps]: "resetSendPkt fd s = Some t \<Longrightarrow> core t = core s"
  by (auto simp: resetSendPkt_def intro: core_update_entry)

lemma core_setEventSendTime [core_simps]: "setEventSendTime fd g iv now sent s = Some t \<Longrightarrow> core t = core s"
  by (auto simp: setEventSendTime_def intro: core_update_entry split: if_splits option.splits)

lemma core_setEventRecvTime [core_simps]: "setEventRecvTime fd g now s = Some t \<Longrightarrow> core t = core s"
  by (auto simp: setEventRecvTime_def intro: core_update_entry split: if_splits)

lemma core_setVirtualEventTime [core_simps]: "setVirtualEventTime vdelay fd c tm ep iv s = Some t \<Longrightarrow> core t = core s"
  by (auto simp: setVirtualEventTime_def Let_def core_simps split: Option.bind_splits)

lemma core_canSendPkt [core_simps]: "canSendPkt fd ep now s = Some (b, t) \<Longrightarrow> core t = core s"
  by (auto simp: canSendPkt_def intro: core_update_entry split: Option.bind_splits if_splits)

lemma core_counts: "core (s\<lparr>active_conns := a\<rparr>) = core s" "core (s\<lparr>dead_conns := d\<rparr>) = core s"
  by (simp_all add: core_def)

lemma core_connectionClosed: "update_entry (connectionClosed_update f) fd s = Some t \<Longrightarrow> core t = core s"
  by (erule core_update_entry) simp

lemma core_closeConnection [core_simps]: "closeConnection efd fd s = Some (r, t) \<Longrightarrow> core t = core s"
  by (auto simp: closeConnection_def core_counts dest: core_connectionClosed split: Option.bind_splits if_splits)

lemma core_restoreConnection [core_simps]: "restoreConnection efd fd s = Some (r, t) \<Longrightarrow> core t = core s"
  by (auto simp: restoreConnection_def core_counts dest: core_connectionClosed split: Option.bind_splits if_splits)

lemma core_close_loop: "close_loop efd n is s = Some t \<Longrightarrow> core t = core s"
  by (induction efd n "is" s rule: close_loop.induct)
    (auto simp: core_simps split: Option.bind_splits if_splits)

lemma core_closeConnections [core_simps]: "closeConnections efd n s = Some t \<Longrightarrow> core t = core s"
  by (simp add: closeConnections_def core_close_loop)

lemma core_restore_loop: "restore_loop vdelay efd ep iv now n is s = Some (r, t) \<Longrightarrow> core t = core s"
proof (induction "is" arbitrary: n s)
  case (Cons i "is")
  from Cons.prems show ?case
    by (auto simp: core_counts core_simps dest!: Cons.IH split: Option.bind_splits if_splits)
qed (auto simp: core_counts split: if_splits)

lemma core_restoreConnections [core_simps]: "restoreConnections vdelay efd n ep iv now s = Some (r, t) \<Longrightarrow> core t = core s"
  by (simp add: restoreConnections_def core_restore_loop)

section \<open>Registering and removing\<close>

lemma table_ok_setEventTimeEfd:
  assumes "table_ok efd s" and "setEventTimeEfd efd fd s = Some t"
  shows "table_ok efd t \<and> interest t = interest s \<and> total_conns t = total_conns s"
proof -
  have t: "fd < length (packets_time s)" "t = s\<lparr>packets_time := (packets_time s)[fd := (packets_time s ! fd)\<lparr>pt_efd := efd,
      connectionClosed := 0, sendingFlag := 0\<rparr>]\<rparr>"
    using assms(2) by (auto simp: setEventTimeEfd_def update_entry_Some)
  have "set (map pt_efd (packets_time t)) \<subseteq> insert efd (set (map pt_efd (packets_time s)))"
    using set_update_subset_insert[of "map pt_efd (packets_time s)" fd efd] by (simp add: t(2) map_update)
  then show ?thesis using assms(1) by (auto simp: t(2) table_ok_def conns_ok_def)
qed

lemma table_ok_modify:
  assumes "table_ok efd s" and "client_modifyEpollEvent efd fd ev s = Some t"
  shows "table_ok efd t \<and> interest t = (interest s)((efd, fd) \<mapsto> ev)"
proof (cases "interest s (efd, fd)")
  case (Some ev')
  then have t: "t = s\<lparr>interest := (interest s)((efd, fd) \<mapsto> ev)\<rparr>"
    using assms(2) by (simp add: client_modifyEpollEvent_def)
  have "dom (interest t) = dom (interest s)" using Some by (auto simp: t)
  then show ?thesis using assms(1) by (simp add: t table_ok_def conns_ok_def insert_absorb)
next
  case None
  then obtain u where u: "setEventTimeEfd efd fd s = Some u"
    "t = u\<lparr>total_conns := total_conns u + 1, active_conns := active_conns u + 1, interest := (interest u)((efd, fd) \<mapsto> ev)\<rparr>"
    using assms(2) by (auto simp: client_modifyEpollEvent_def client_addEpollEvent_def Let_def split: Option.bind_splits if_splits)
  note ok = table_ok_setEventTimeEfd[OF assms(1) u(1)]
  have "card (insert (efd, fd) (dom (interest u))) = Suc (card (dom (interest u)))"
    using None ok by (intro card_insert_disjoint) (auto simp: table_ok_def)
  then show ?thesis using ok by (auto simp: u(2) table_ok_def conns_ok_def)
qed

lemma table_ok_delete:
  assumes "table_ok efd s" and "interest s (efd, fd) \<noteq> None" and "client_deleteEpollEvent fd s = Some t"
  shows "table_ok efd t \<and> dom (interest t) = dom (interest s) - {(efd, fd)}"
proof -
  obtain u where u: "update_entry (\<lambda>p. p\<lparr>pt_efd := 0, connectionClosed := 1\<rparr>) fd s = Some u"
    "t = u\<lparr>total_conns := total_conns u - 1, active_conns := active_conns u - 1,
      interest := (\<lambda>(e, f). if f = fd then None else interest u (e, f))\<rparr>"
    using assms(3) by (auto simp: client_deleteEpollEvent_def split: Option.bind_splits)
  have s: "interest s (e, f) = None" if "e \<noteq> efd" for e f using assms(1) that by (simp add: table_ok_def)
  have d: "dom (interest t) = dom (interest s) - {(efd, fd)}"
    using s u(1) by (auto simp: u(2) update_entry_Some split: if_splits)
  have "set (map pt_efd (packets_time t)) \<subseteq> insert 0 (set (map pt_efd (packets_time s)))"
    using u set_update_subset_insert[of "map pt_efd (packets_time s)" fd 0] by (auto simp: update_entry_Some map_update)
  then have "set (map pt_efd (packets_time t)) \<subseteq> {0, efd}" using assms(1) by (auto simp: table_ok_def)
  moreover have "length (packets_time t) = length (packets_time s)" "connsMap t = connsMap s" "total_conns t = total_conns s - 1"
    "interest t = (\<lambda>(e, f). if f = fd then None else interest s (e, f))"
    using u by (auto simp: update_entry_Some)
  moreover have "card (dom (interest s)) = Suc (card (dom (interest t)))"
    using assms(1,2) card.remove[of "dom (interest s)" "(efd, fd)"] unfolding d by (simp add: table_ok_def domIff)
  ultimately show ?thesis
    using assms(1) d by (simp add: table_ok_def conns_ok_def)
qed

section \<open>The operations of the client\<close>

lemma table_ok_keep: "core t = core s \<Longrightarrow> table_ok efd s \<Longrightarrow> table_ok efd t"
  using table_ok_core by blast

text \<open>What keeps the core keeps the invariant.\<close>

lemma core_interest: "core t = core s \<Longrightarrow> interest t = interest s"
  by (simp add: core_def)

lemmas core_keeps = core_simps[THEN table_ok_keep]

lemma connect_one_keeps:
  assumes "connect_one vdelay cfg efd tot tm a (c, s) = Some (d, t)" and "table_ok efd s"
  shows "table_ok efd t"
proof (cases a)
  case (Connected fd)
  then obtain u where "setEventTimeEfd efd fd s = Some u"
    "setVirtualEventTime (vdelay (unit_delay cfg)) fd tot tm (c_epoch cfg) (interval cfg) u = Some t"
    using assms(1) by (auto simp: connect_one_def Let_def split: Option.bind_splits)
  with table_ok_setEventTimeEfd[OF assms(2)] show ?thesis by (blast intro: core_keeps)
qed (use assms in \<open>simp_all add: connect_one_def\<close>)

lemma createEvents_keeps:
  assumes "createEvents vdelay cfg ips c efd tm att s = Some t" and "table_ok efd s"
  shows "table_ok efd t"
proof -
  obtain tot xs d where "foldM (\<lambda>(ip, i). connect_one vdelay cfg efd tot tm (att ip i)) xs (0, s) = Some (d, t)"
    using assms(1) by (auto simp: createEvents_def Let_def split: if_splits)
  from foldM_keeps[where P = "\<lambda>(c, s). table_ok efd s", OF this] assms(2) show ?thesis
    by (auto dest: connect_one_keeps)
qed

text \<open>The client with its one epoll instance.\<close>

definition client_inv :: "int \<Rightarrow> 'd client_state \<Rightarrow> bool" where
  "client_inv efd st \<longleftrightarrow> table_ok efd (table st) \<and> efds st = [efd] \<and> length (port_conns st) = 1 \<and>
     length (close_conns st) = 1 \<and> c_ports_count (conf st) \<le> 1"

lemma addConnections_keeps:
  assumes "addConnections vtenth vdelay now att c st = Some st'" and "client_inv efd st"
  shows "client_inv efd st'"
proof -
  let ?k = "c sdiv c_ports_count (conf st)"
  have step: "client_inv efd st'" if "do {
         efd \<leftarrow> load (efds s) port;
         (restore_left, t) \<leftarrow> restoreConnections vtenth efd k (c_epoch (conf s)) (interval (conf s)) (fst now) (table s);
         t \<leftarrow> createEvents vdelay (conf s) (client_ips s) restore_left efd (snd now) att t;
         n \<leftarrow> load (port_conns s) port;
         ns \<leftarrow> store (port_conns s) port (n + k);
         Some (s\<lparr>table := t, port_conns := ns\<rparr>)
       } = Some st'" and "client_inv efd s" for port s st' k
  proof -
    note h = that
    have "port = 0" using h by (cases port) (simp_all add: client_inv_def)
    then obtain t r u ns where "restoreConnections vtenth efd k (c_epoch (conf s)) (interval (conf s)) (fst now) (table s) = Some (r, t)"
      "createEvents vdelay (conf s) (client_ips s) r efd (snd now) att t = Some u"
      "st' = s\<lparr>table := u, port_conns := ns\<rparr>" "length ns = length (port_conns s)"
      using h by (auto simp: client_inv_def split: Option.bind_splits)
    with h(2) show ?thesis by (auto simp: client_inv_def intro: createEvents_keeps core_keeps)
  qed
  from assms(1) show ?thesis
    by (auto simp: addConnections_def Let_def split: if_splits elim!: foldM_keeps[where P = "client_inv efd"] intro: step assms(2))
qed

lemma deleteConnections_keeps:
  assumes "deleteConnections c st = Some st'" and "client_inv efd st"
  shows "client_inv efd st'"
proof -
  have step: "client_inv efd st'" if "do {
         n \<leftarrow> load (close_conns s) port;
         ns \<leftarrow> store (close_conns s) port (n + k);
         Some (s\<lparr>close_conns := ns\<rparr>)
       } = Some st'" and "client_inv efd s" for port s st' k
    using that by (auto simp: client_inv_def store_def split: Option.bind_splits if_splits)
  from assms(1) show ?thesis
    by (auto simp: deleteConnections_def Let_def split: if_splits elim!: foldM_keeps[where P = "client_inv efd"] intro: step assms(2))
qed

lemma updateEpoch_ports: "c_ports_count (snd (client_updateEpoch scale cf cfg)) = c_ports_count cfg"
  by (simp add: client_updateEpoch_def update_connections_def Let_def split: option.split)

lemma update_cfg_keeps:
  assumes "client_update_cfg scale vtenth vdelay now att cf st = Some (False, st')" and "client_inv efd st"
  shows "client_inv efd st'"
proof -
  obtain flag cfg where u: "client_updateEpoch scale cf (conf st) = (flag, cfg)" by fastforce
  then have "c_ports_count cfg = c_ports_count (conf st)" using updateEpoch_ports by (metis snd_conv)
  then have "client_inv efd (st\<lparr>conf := cfg\<rparr>)" using assms(2) by (simp add: client_inv_def)
  with assms(1) u show ?thesis
    by (auto simp: client_update_cfg_def updateConnections_def Let_def split: if_splits
        dest: addConnections_keeps deleteConnections_keeps)
qed

section \<open>The rounds\<close>

definition registered :: "int \<Rightarrow> 'd client_state \<Rightarrow> nat \<Rightarrow> bool" where
  "registered efd st fd \<longleftrightarrow> interest (table st) (efd, fd) \<noteq> None"

text \<open>A handler of an event on \<open>fd\<close> keeps the invariant and what is registered on the other
  descriptors.\<close>

definition handled :: "int \<Rightarrow> nat \<Rightarrow> 'd client_state \<Rightarrow> 'd client_state \<Rightarrow> bool" where
  "handled efd fd st st' \<longleftrightarrow> client_inv efd st' \<and> (\<forall>i. i \<noteq> fd \<longrightarrow> registered efd st i \<longrightarrow> registered efd st' i)"

lemma drop_handled:
  assumes "drop_connection port fd st = Some st'" and "client_inv efd st" and "registered efd st fd"
  shows "handled efd fd st st'"
proof -
  obtain t ns where t: "client_deleteEpollEvent fd (table st) = Some t" "st' = st\<lparr>table := t, port_conns := ns\<rparr>"
    "length ns = length (port_conns st)"
    using assms(1) by (auto simp: drop_connection_def store_def split: Option.bind_splits if_splits)
  have "table_ok efd t \<and> dom (interest t) = dom (interest (table st)) - {(efd, fd)}"
    using table_ok_delete[OF _ _ t(1)] assms(2,3) by (simp add: client_inv_def registered_def)
  then show ?thesis using t assms(2) by (auto simp: handled_def client_inv_def registered_def)
qed

lemma after_write_handled:
  assumes "after_write e ty data efd port fd st = Some st'" and "client_inv efd st" and "registered efd st fd"
  shows "handled efd fd st st'"
proof (cases "send_result e")
  case (Wrote cnt)
  show ?thesis
  proof (cases "cnt = 0")
    case False
    obtain t u where t: "client_modifyEpollEvent efd fd EPOLLIN (table st) = Some t \<or> resetSendPkt fd (table st) = Some t"
      and u: "setEventSendTime fd None (interval (conf st)) (send_now e) (send_last e) t = Some u"
      and st': "table st' = u" "conf st' = conf st" "efds st' = efds st" "port_conns st' = port_conns st" "close_conns st' = close_conns st"
      using assms(1) Wrote False by (cases "ty = CLIENT_REQUEST_PKT") (auto simp: after_write_def Let_def split: Option.bind_splits, blast+)
    have ok: "table_ok efd (table st)" using assms(2) by (simp add: client_inv_def)
    have "table_ok efd t \<and> (\<forall>i. i \<noteq> fd \<longrightarrow> interest t (efd, i) = interest (table st) (efd, i))"
      using t
    proof
      assume "client_modifyEpollEvent efd fd EPOLLIN (table st) = Some t"
      from table_ok_modify[OF ok this] show ?thesis by simp
    next
      assume "resetSendPkt fd (table st) = Some t"
      then have "core t = core (table st)" by (rule core_resetSendPkt)
      from table_ok_keep[OF this ok] core_interest[OF this] show ?thesis by simp
    qed
    then have "table_ok efd u \<and> (\<forall>i. i \<noteq> fd \<longrightarrow> interest u (efd, i) = interest (table st) (efd, i))"
      using core_interest[OF core_setEventSendTime[OF u]] table_ok_keep[OF core_setEventSendTime[OF u]] by simp
    then show ?thesis using assms(2) by (simp add: st' handled_def client_inv_def registered_def)
  qed (use assms Wrote in \<open>simp add: after_write_def drop_handled\<close>)
qed (use assms in \<open>simp_all add: after_write_def drop_handled, simp add: handled_def\<close>)

lemma counter_simps:
  "client_inv efd (st\<lparr>pktTypeCounter := c\<rparr>) = client_inv efd st"
  "registered efd (st\<lparr>pktTypeCounter := c\<rparr>) i = registered efd st i"
  "handled efd fd (st\<lparr>pktTypeCounter := c\<rparr>) st' = handled efd fd st st'"
  by (simp_all add: client_inv_def registered_def handled_def)

lemma send_handled:
  assumes "send_packet e ub efd port fd st = Some st'" and "client_inv efd st" and "registered efd st fd"
  shows "handled efd fd st st'"
proof -
  obtain ty c where ty: "getPktTypeNum ub (pktTypeCounter st) = (ty, c)" by fastforce
  then obtain data where "after_write e ty data efd port fd (st\<lparr>pktTypeCounter := c\<rparr>) = Some st'"
    using assms(1) by (auto simp: send_packet_def split: Option.bind_splits)
  from after_write_handled[OF this] assms(2,3) show ?thesis by (simp add: counter_simps)
qed

lemma receive_handled:
  assumes "receive_packet r now port fd st = Some st'" and "client_inv efd st" and "registered efd st fd"
  shows "handled efd fd st st'"
proof (cases r)
  case (Got n)
  show ?thesis
  proof (cases "n = 0")
    case False
    obtain t u where t: "setEventRecvTime fd None now (table st) = Some t" and u: "resetSendPkt fd t = Some u"
      and st': "table st' = u" "conf st' = conf st" "efds st' = efds st" "port_conns st' = port_conns st" "close_conns st' = close_conns st"
      using assms(1) Got False by (auto simp: receive_packet_def split: Option.bind_splits)
    have "core u = core (table st)" using core_setEventRecvTime[OF t] core_resetSendPkt[OF u] by simp
    then show ?thesis
      using assms(2) st' core_interest[of u] table_ok_keep[of u] by (simp add: handled_def client_inv_def registered_def)
  qed (use assms Got in \<open>simp add: receive_packet_def drop_handled\<close>)
next
  case (Receive_fails again)
  then show ?thesis
    using assms by (cases again) (simp_all add: receive_packet_def drop_handled, simp add: handled_def)
qed

lemma dispatch_handled:
  "client_dispatch ub efd port e st = Some st' \<Longrightarrow> client_inv efd st \<Longrightarrow> registered efd st (ce_fd e) \<Longrightarrow>
    handled efd (ce_fd e) st st'"
  by (auto simp: client_dispatch_def split: if_splits intro: drop_handled send_handled receive_handled)
    (simp add: handled_def)

lemma dispatches_keep:
  assumes "foldM (client_dispatch ub efd port) events st = Some st'" and "client_inv efd st"
    and "distinct (map ce_fd events)" and "list_all (\<lambda>e. registered efd st (ce_fd e)) events"
  shows "client_inv efd st'"
  using assms
proof (induction events arbitrary: st)
  case (Cons e events)
  then obtain u where u: "client_dispatch ub efd port e st = Some u" "foldM (client_dispatch ub efd port) events u = Some st'"
    by (auto split: Option.bind_splits)
  have h: "handled efd (ce_fd e) st u" using dispatch_handled[OF u(1)] Cons.prems by simp
  then have "list_all (\<lambda>e. registered efd u (ce_fd e)) events"
    using Cons.prems(3,4) unfolding handled_def list_all_iff by (metis (no_types, lifting) distinct.simps(2) image_eqI list.map(2) list.set_intros(2) list.set_map)
  then show ?case using Cons.IH[OF u(2)] Cons.prems(3) h by (simp add: handled_def)
qed simp

lemma round_keeps:
  assumes "epollLoop_round upper efd 0 events st = Some st'" and "client_inv efd st"
    and "distinct (map ce_fd events)" and "list_all (\<lambda>e. registered efd st (ce_fd e)) events"
  shows "client_inv efd st'"
proof -
  let ?ub = "upper (c_requestRate (conf st))"
  obtain u where u: "foldM (client_dispatch ?ub efd 0) events u = Some st'"
    and v: "table u = table st \<or> closeConnections efd (close_conns st ! 0) (table st) = Some (table u)"
      "conf u = conf st" "efds u = efds st" "length (port_conns u) = 1" "length (close_conns u) = 1"
    using assms(1,2) by (cases "close_conns st ! 0 > 0")
      (auto simp: epollLoop_round_def client_inv_def Let_def split: Option.bind_splits)
  have "core (table u) = core (table st)" using v(1) by (auto dest: core_closeConnections)
  then have "client_inv efd u \<and> (\<forall>i. registered efd u i = registered efd st i)"
    using v assms(2) core_interest[of "table u" "table st"] table_ok_keep[of "table u" "table st" efd]
    by (simp add: client_inv_def registered_def)
  then show ?thesis using dispatches_keep[OF u] assms(3,4) by simp
qed

lemma sweep_one_keeps:
  assumes "sweep_one ep clk fd s = Some t" and "table_ok efd s"
  shows "table_ok efd t"
proof -
  obtain p where p: "entry s fd = Some p" using assms(1) by (auto simp: sweep_one_def split: Option.bind_splits)
  show ?thesis
  proof (cases "pt_efd p = 0")
    case False
    obtain ok u where u: "canSendPkt fd ep (clk fd) s = Some (ok, u)" using assms(1) p False by (auto simp: sweep_one_def split: Option.bind_splits)
    then have c: "core u = core s" by (rule core_canSendPkt)
    obtain q where q: "entry u fd = Some q" using assms(1) p False u by (auto simp: sweep_one_def split: Option.bind_splits)
    have oku: "table_ok efd u" by (rule table_ok_keep[OF c assms(2)])
    have "map pt_efd (packets_time u) = map pt_efd (packets_time s)" using c by (simp add: core_def)
    then have "map pt_efd (packets_time u) ! fd = map pt_efd (packets_time s) ! fd" by simp
    then have "pt_efd q = pt_efd p"
      using p q by (simp add: entry_def load_def split: if_splits)
    moreover have "pt_efd p \<in> set (map pt_efd (packets_time s))" using p by (auto simp: entry_def load_def split: if_splits)
    then have "pt_efd p \<in> {0, efd}" using assms(2) unfolding table_ok_def by blast
    ultimately have "pt_efd q = efd" using False by simp
    then show ?thesis using assms(1) p False u q oku table_ok_modify[OF oku] by (simp add: sweep_one_def split: if_splits)
  qed (use assms p in \<open>simp add: sweep_one_def\<close>)
qed

lemma sweep_keeps: "updateEvents ep clk s = Some t \<Longrightarrow> table_ok efd s \<Longrightarrow> table_ok efd t"
  unfolding updateEvents_def by (erule foldM_keeps[where P = "table_ok efd"]) (auto intro: sweep_one_keeps)

section \<open>Runs\<close>

text \<open>
  The steps of the threads of the client, which alternate in any order: the event loop handles an event of
  a registered descriptor, or closes the connections it has been asked to close; the sweep visits a
  descriptor; the update thread makes a round.  Whole rounds of the event loop and whole sweeps are
  sequences of such steps.
\<close>

inductive client_step :: "int \<Rightarrow> 'd::{linorder,zero,one} client_state \<Rightarrow> 'd client_state \<Rightarrow> bool" for efd where
  handler: "client_dispatch ub efd 0 e st = Some st' \<Longrightarrow> registered efd st (ce_fd e) \<Longrightarrow> client_step efd st st'"
| closing: "epollLoop_round upper efd 0 [] st = Some st' \<Longrightarrow> client_step efd st st'"
| sweep: "sweep_one (c_epoch (conf st)) clk fd (table st) = Some t \<Longrightarrow> client_step efd st (st\<lparr>table := t\<rparr>)"
| update: "client_update_cfg scale vtenth vdelay now att cf st = Some (False, st') \<Longrightarrow> client_step efd st st'"

lemma client_step_keeps:
  assumes "client_step efd st st'" and "client_inv efd st"
  shows "client_inv efd st'"
  using assms(1)
proof cases
  case (handler ub e)
  with dispatch_handled[OF handler(1) assms(2)] show ?thesis by (simp add: handled_def)
next
  case (sweep clk fd t)
  with sweep_one_keeps[OF sweep(2)] assms(2) show ?thesis by (simp add: client_inv_def)
qed (use assms(2) in \<open>auto intro: round_keeps update_cfg_keeps\<close>)

interpretation client_run: step_invariant "client_step efd" "client_inv efd" for efd
  by unfold_locales (rule client_step_keeps)

lemma handlers_run:
  assumes "foldM (client_dispatch ub efd 0) events st = Some st'" and "client_inv efd st"
    and "distinct (map ce_fd events)" and "list_all (\<lambda>e. registered efd st (ce_fd e)) events"
  shows "(client_step efd)\<^sup>*\<^sup>* st st'"
  using assms
proof (induction events arbitrary: st)
  case (Cons e events)
  then obtain u where u: "client_dispatch ub efd 0 e st = Some u" "foldM (client_dispatch ub efd 0) events u = Some st'"
    by (auto split: Option.bind_splits)
  have h: "handled efd (ce_fd e) st u" using dispatch_handled[OF u(1)] Cons.prems by simp
  have "list_all (\<lambda>e. registered efd u (ce_fd e)) events"
    using h Cons.prems(3,4) unfolding handled_def list_all_iff by (metis (no_types, lifting) distinct.simps(2) image_eqI list.map(2) list.set_intros(2) list.set_map)
  then have "(client_step efd)\<^sup>*\<^sup>* u st'" using Cons.IH[OF u(2)] Cons.prems(3) h by (simp add: handled_def)
  moreover have "client_step efd st u" using client_step.handler[OF u(1)] Cons.prems(4) by simp
  ultimately show ?case by (rule converse_rtranclp_into_rtranclp[rotated])
qed simp

lemma round_runs_steps:
  assumes "epollLoop_round upper efd 0 events st = Some st'" and "client_inv efd st"
    and "distinct (map ce_fd events)" and "list_all (\<lambda>e. registered efd st (ce_fd e)) events"
  shows "(client_step efd)\<^sup>*\<^sup>* st st'"
proof -
  obtain u where u: "epollLoop_round upper efd 0 [] st = Some u"
    and es: "foldM (client_dispatch (upper (c_requestRate (conf st))) efd 0) events u = Some st'"
    using assms(1) by (auto simp: epollLoop_round_def foldM_Nil split: Option.bind_splits if_splits)
  have i: "client_inv efd u" by (rule round_keeps[OF u assms(2)]) simp_all
  have "interest (table u) = interest (table st)"
    using u by (auto simp: epollLoop_round_def foldM_Nil core_interest[OF core_closeConnections] split: Option.bind_splits if_splits)
  then have "list_all (\<lambda>e. registered efd u (ce_fd e)) events" using assms(4) by (simp add: registered_def)
  from handlers_run[OF es i assms(3) this] client_step.closing[OF u] show ?thesis
    by (rule converse_rtranclp_into_rtranclp[rotated])
qed

lemma sweep_steps:
  "foldM (sweep_one (c_epoch (conf st)) clk) fds (table st) = Some t \<Longrightarrow> (client_step efd)\<^sup>*\<^sup>* st (st\<lparr>table := t\<rparr>)"
proof (induction fds arbitrary: st)
  case Nil
  then have "st\<lparr>table := t\<rparr> = st" by (cases st) (simp add: foldM_Nil)
  then show ?case by simp
next
  case (Cons fd fds)
  then obtain u where u: "sweep_one (c_epoch (conf st)) clk fd (table st) = Some u" "foldM (sweep_one (c_epoch (conf st)) clk) fds u = Some t"
    by (auto split: Option.bind_splits)
  from Cons.IH[of "st\<lparr>table := u\<rparr>"] u(2) have "(client_step efd)\<^sup>*\<^sup>* (st\<lparr>table := u\<rparr>) (st\<lparr>table := t\<rparr>)" by simp
  with client_step.sweep[OF u(1)] show ?case by (rule converse_rtranclp_into_rtranclp)
qed

end
