(* ===== verification/ClientSweep.thy ===== *)
theory ClientSweep
  imports ClientInvariant
begin

text \<open>
  What a sweep does to every connection: those that are due are registered for writing, the others are
  left alone.
\<close>

definition due :: "int \<Rightarrow> time \<Rightarrow> packet_time \<Rightarrow> bool" where
  "due ep now p \<longleftrightarrow> pt_efd p \<noteq> 0 \<and> sendingFlag p \<noteq> 1 \<and> connectionClosed p \<noteq> 1 \<and>
     ep \<le> client_getTimeDiff (virtual_time p) now sdiv S_TO_US"

text \<open>The entry and the registration of a descriptor.\<close>

definition conn :: "int \<Rightarrow> conn_table \<Rightarrow> nat \<Rightarrow> packet_time \<times> ep_event option" where
  "conn efd s fd = (packets_time s ! fd, interest s (efd, fd))"

text \<open>A due connection that is registered is flagged as sending; one that is not is registered, which
  clears the flag that was just set.\<close>

definition swept :: "int \<Rightarrow> time \<Rightarrow> packet_time \<times> ep_event option \<Rightarrow> packet_time \<times> ep_event option" where
  "swept ep now = (\<lambda>(p, ev).
     if \<not> due ep now p then (p, ev)
     else if ev = None then (p\<lparr>sendingFlag := 0, connectionClosed := 0\<rparr>, Some EPOLLOUT)
     else (p\<lparr>sendingFlag := 1\<rparr>, Some EPOLLOUT))"

lemma sweep_one_conn:
  assumes "sweep_one ep clk fd s = Some t" and "table_ok efd s" and "fd < MAX_EVENTS"
  shows "conn efd t i = (if i = fd then swept ep (clk fd) (conn efd s fd) else conn efd s i)"
proof -
  let ?p = "packets_time s ! fd"
  have l: "length (packets_time s) = MAX_EVENTS" using assms(2) by (simp add: table_ok_def conns_ok_def)
  show ?thesis
  proof (cases "due ep (clk fd) ?p")
    case False
    then have "t = s" using assms(1,3) l by (auto simp: sweep_one_def canSendPkt_def due_def split: if_splits)
    then show ?thesis using False by (simp add: swept_def conn_def)
  next
    case True
    have "?p \<in> set (packets_time s)" using l assms(3) by simp
    then have efd: "pt_efd ?p = efd" using assms(2) True by (auto simp: table_ok_def due_def)
    let ?u = "s\<lparr>packets_time := (packets_time s)[fd := ?p\<lparr>sendingFlag := 1\<rparr>]\<rparr>"
    have "client_modifyEpollEvent efd fd EPOLLOUT ?u = Some t"
      using assms(1,3) l True efd by (simp add: sweep_one_def canSendPkt_def due_def)
    then show ?thesis
      using True l assms(3) efd
      by (cases "interest s (efd, fd)")
        (auto simp: client_modifyEpollEvent_def client_addEpollEvent_def setEventTimeEfd_def swept_def conn_def Let_def)
  qed
qed

lemma sweep_conn:
  assumes "foldM (sweep_one ep clk) fds s = Some t" and "table_ok efd s" and "distinct fds" and "list_all (\<lambda>fd. fd < MAX_EVENTS) fds"
  shows "conn efd t i = (if i \<in> set fds then swept ep (clk i) (conn efd s i) else conn efd s i)"
  using assms
proof (induction fds arbitrary: s)
  case (Cons fd fds)
  then obtain u where u: "sweep_one ep clk fd s = Some u" "foldM (sweep_one ep clk) fds u = Some t"
    by (auto split: Option.bind_splits)
  have ok: "table_ok efd u" by (rule sweep_one_keeps[OF u(1) Cons.prems(2)])
  have c: "conn efd u i = (if i = fd then swept ep (clk fd) (conn efd s fd) else conn efd s i)" for i
    using sweep_one_conn[OF u(1) Cons.prems(2)] Cons.prems(4) by simp
  show ?case using Cons.IH[OF u(2) ok] Cons.prems(3,4) c by auto
qed simp

lemma updateEvents_conn:
  assumes "updateEvents ep clk s = Some t" and "table_ok efd s" and "fd < MAX_EVENTS"
  shows "conn efd t fd = swept ep (clk fd) (conn efd s fd)"
  using sweep_conn[OF assms(1)[unfolded updateEvents_def] assms(2), of fd] assms(3) by (simp add: list_all_iff)

end
