(* ===== verification/ClientSafety.thy ===== *)
theory ClientSafety
  imports ClientSetup ClientSweep ClientTheorems
begin

text \<open>
  Properties of the client as a whole: the addresses it starts with, the invariant of all its runs, and
  that its handlers stay within their arrays.
\<close>

section \<open>Start\<close>

lemma initEventTime_table_ok:
  assumes "rand_ok rnd" and "length (packets_time s) = MAX_EVENTS" and "length (connsMap s) = MAX_EVENTS"
    and "interest s = Map.empty" and "initEventTime rnd now s = Some t"
  shows "table_ok efd t"
proof -
  have "conns_ok t" "total_conns t = 0" "interest t = Map.empty"
    "map pt_efd (packets_time t) = map (\<lambda>p. 0) (packets_time s)"
    using initEventTime_ok[OF assms(1-3), of now] assms(4,5) by auto
  moreover from this(4) have "set (map pt_efd (packets_time t)) \<subseteq> {0}" by (simp only:) auto
  ultimately show ?thesis by (auto simp: table_ok_def simp del: set_map)
qed

lemma client_init_ok:
  assumes "client_init env mem t0 net = Some (st, net', ks)" and "rand_ok (map_rand env)"
    and "length (packets_time t0) = MAX_EVENTS" and "length (connsMap t0) = MAX_EVENTS" and "interest t0 = Map.empty"
    and "length (server_addrs net) = CLIENT_MAXPORTS"
  shows "table_ok efd (table st) \<and> efds st = [0] \<and> port_conns st = [0] \<and> close_conns st = [0] \<and> c_ports_count (conf st) \<le> 1"
proof -
  obtain cfg ips ss where t: "initEventTime (map_rand env) (start_time env) t0 = Some (table st)"
    and ss: "createServer (world_inet_addr env) (world_htons env) (host_known env) cfg (server_addrs net) = Some ss"
    and st: "conf st = cfg" "efds st = [0]" "port_conns st = [0]" "close_conns st = [0]"
    using assms(1)
    by (auto simp: client_init_def initParams_def initGlobal_def CLIENT_MAXPORTS_def split: Option.bind_splits)
  have "c_ports_count cfg \<le> 1"
  proof (rule ccontr)
    assume "\<not> c_ports_count cfg \<le> 1"
    then have "1 < nat (c_ports_count cfg)" by simp
    then have "[0..<nat (c_ports_count cfg)] = 0 # 1 # [2..<nat (c_ports_count cfg)]" by (simp add: upt_conv_Cons numeral_2_eq_2)
    then show False using ss assms(6) by (auto simp: createServer_def CLIENT_MAXPORTS_def split: Option.bind_splits if_splits)
  qed
  with st initEventTime_table_ok[OF assms(2-5) t] show ?thesis by simp
qed

text \<open>C28: the addresses the client binds to are those of its device, in the order of the interfaces, if
  there are fewer than 300 of them; with 300 an assertion fails, with more the copy runs over the end of
  the table, because its size is compared with the index only after the copy.\<close>

theorem client_addresses:
  assumes "hosts_fit device ifas" and "length aliases = MAXIPS" and "length cs = MAXIPS"
  shows "Option.bind (getAliasIPs device (Some ifas) 0 aliases) (\<lambda>(al, ips). createClients inet_addr htons ips al cs) =
    (if length (device_hosts device ifas) < 300
     then Some (map (client_address inet_addr htons) (device_hosts device ifas) @ drop (length (device_hosts device ifas)) cs)
     else None)"
  using assms alias_loop_eq[OF assms(1,2), of 0] createClients_eq[of _ cs inet_addr htons]
  by (auto simp: getAliasIPs_def Let_def splice_def MAXIPS_def)

definition demo_ifaddr :: "cstr \<Rightarrow> ifaddr" where
  "demo_ifaddr host = \<lparr>ifa_addressed = True, ifa_family = AF_INET, ifa_name = ascii ''eth0:1'', ifa_host = Some host\<rparr>"

theorem client_addresses_witness:
  "Option.bind (getAliasIPs (ascii ''eth0'') (Some [demo_ifaddr (ascii ''10.0.0.1'')]) 0 (replicate MAXIPS []))
      (\<lambda>(al, ips). createClients (\<lambda>h. of_nat (length h)) id ips al (replicate MAXIPS \<lparr>sin_family = 0, sin_port = 0, sin_addr = 0\<rparr>)) =
    (if length (device_hosts (ascii ''eth0'') [demo_ifaddr (ascii ''10.0.0.1'')]) < 300
     then Some (map (client_address (\<lambda>h. of_nat (length h)) id) (device_hosts (ascii ''eth0'') [demo_ifaddr (ascii ''10.0.0.1'')])
       @ drop (length (device_hosts (ascii ''eth0'') [demo_ifaddr (ascii ''10.0.0.1'')]))
          (replicate MAXIPS \<lparr>sin_family = 0, sin_port = 0, sin_addr = 0\<rparr>))
     else None)"
  by (rule client_addresses) (simp_all add: hosts_fit_def demo_ifaddr_def ascii_def NI_MAXHOST_def)

section \<open>The invariant of all runs\<close>

lemma epoll_client_inv:
  assumes "epoll_client vdelay efd now att tot 0 st = Some st'" and "table_ok efd (table st)"
    and "length (efds st) = 1" and "length (port_conns st) = 1" and "length (close_conns st) = 1" and "c_ports_count (conf st) \<le> 1"
  shows "client_inv efd st'"
proof -
  obtain es ns t where e: "store (efds st) 0 efd = Some es" "store (port_conns st) 0 tot = Some ns"
    "createEvents vdelay (conf st) (client_ips st) tot efd now att (table st) = Some t"
    "st' = st\<lparr>efds := es, port_conns := ns, table := t\<rparr>"
    using assms(1) by (auto simp: epoll_client_def split: Option.bind_splits)
  have "es = [efd]" using e(1) assms(3) by (cases "efds st") auto
  moreover have "table_ok efd t" by (rule createEvents_keeps[OF e(3) assms(2)])
  ultimately show ?thesis
    using assms(4-6) e(2,4) by (auto simp: client_inv_def)
qed

lemma client_main_inv:
  assumes "client_main vdelay created others new_efd now att st = Some st'" and "table_ok (new_efd 0) (table st)"
    and "efds st = [0]" and "port_conns st = [0]" and "close_conns st = [0]" and "c_ports_count (conf st) = 1"
  shows "client_inv (new_efd 0) st'"
proof -
  have "epoll_client vdelay (new_efd 0) (now 0) (att 0) (c_connections (conf st) sdiv 1) 0 st = Some st'"
    using assms(1,6) by (simp add: client_main_def Let_def foldM_Nil split: if_splits Option.bind_splits)
  from epoll_client_inv[OF this assms(2)] show ?thesis using assms(3-6) by simp
qed

text \<open>C24: after any number of steps of the client's threads, whatever its settings become, what arrives, is
  refused or fails, the connection table keeps its shape, only the one epoll instance holds
  registrations, and the count of connections is exactly the number of descriptors registered there.  The
  steps are the handling of one event, one visit of the sweep to a descriptor, the closing of connections,
  and a round of the update thread; they alternate in any order, but each is taken as a whole: that the
  sweep and the event loop increment and decrement the count without a lock (\<^verbatim>\<open>epoll.c\<close> lines 23 and
  53) is not part of the model.  Runs end where the code is undefined and with the end of the program.\<close>

theorem client_runs_counted:
  assumes "client_init env mem t0 net = Some (st0, net', ks)" and "rand_ok (map_rand env)"
    and "length (packets_time t0) = MAX_EVENTS" and "length (connsMap t0) = MAX_EVENTS" and "interest t0 = Map.empty"
    and "length (server_addrs net) = CLIENT_MAXPORTS" and "c_ports_count (conf st0) > 0"
    and "client_main vdelay created others new_efd now att st0 = Some st1" and "(client_step (new_efd 0))\<^sup>*\<^sup>* st1 st2"
  shows "conns_ok (table st2) \<and> interest (table st2) (e, fd) \<in> (if e = new_efd 0 then UNIV else {None}) \<and>
    total_conns (table st2) = int (card (dom (interest (table st2))))"
proof -
  have i: "table_ok (new_efd 0) (table st0) \<and> efds st0 = [0] \<and> port_conns st0 = [0] \<and> close_conns st0 = [0] \<and> c_ports_count (conf st0) = 1"
    using client_init_ok[OF assms(1-6), of "new_efd 0"] assms(7) by auto
  have "client_inv (new_efd 0) st1" using client_main_inv[OF assms(8)] i by simp
  with client_run.steps_keep[OF assms(9)] have "client_inv (new_efd 0) st2" .
  then show ?thesis by (simp add: client_inv_def table_ok_def)
qed

definition demo_world :: "int client_world" where
  "demo_world = \<lparr>scale_burst = exact_scale, settings = Some (demo_settings 2 100000), rate_junk = 0,
     interfaces = Some [demo_ifaddr (ascii ''10.0.0.1'')], world_inet_addr = (\<lambda>h. of_nat (length h)), world_htons = id,
     host_known = (\<lambda>h. True), map_rand = (\<lambda>i. 5), id_rand = (\<lambda>i. 5), start_time = (100, 7)\<rparr>"

definition demo_memory :: "int epoll_configs" where
  "demo_memory = demo_client_conf\<lparr>c_epoch := 0, SID_start := 1, SID_end := 11\<rparr>"

definition demo_net :: client_net where
  "demo_net = \<lparr>aliasIPs = replicate MAXIPS [], client_addrs = replicate MAXIPS \<lparr>sin_family = 0, sin_port = 0, sin_addr = 0\<rparr>,
     server_addrs = [\<lparr>sin_family = 0, sin_port = 0, sin_addr = 0\<rparr>], failed_conns = [0]\<rparr>"

definition demo_started :: "int epoll_configs" where
  "demo_started = demo_memory\<lparr>c_ports := [8000], c_ports_count := 1, dest_ip := ascii ''eth0'', c_dev := ascii ''eth0'',
      c_requestRate := 1, c_epoch := 60, c_connections := 2, c_burst := 2, interval := 60000000, unit_delay := 1\<rparr>"

lemma demo_config:
  "client_getConfigs exact_scale (Some (demo_settings 2 100000)) 0 demo_memory = Some (EXIT_SUCCESS, demo_started)"
  by (simp add: demo_started_def demo_memory_def settings_eval validRequestRate_def int32_def)

lemma demo_started_simps:
  "c_dev demo_started = ascii ''eth0''" "SID_start demo_started = 1" "SID_end demo_started = 11" "c_ports demo_started = [8000]"
  "c_ports_count demo_started = 1" "dest_ip demo_started = ascii ''eth0''" "c_connections demo_started = 2"
  by (simp_all add: demo_started_def demo_memory_def)

lemma demo_net_simps:
  "aliasIPs demo_net = replicate MAXIPS []" "length (client_addrs demo_net) = MAXIPS" "length (server_addrs demo_net) = 1"
  by (simp_all add: demo_net_def)

lemma demo_alias:
  "getAliasIPs (ascii ''eth0'') (Some [demo_ifaddr (ascii ''10.0.0.1'')]) 0 (replicate MAXIPS []) =
    Some ((replicate MAXIPS [])[0 := ascii ''10.0.0.1''], 1)"
  by (simp add: getAliasIPs_def demo_ifaddr_def ascii_def strcpy_def NI_MAXHOST_def MAXIPS_def)

lemma demo_init:
  obtains st net' ks where "client_init demo_world demo_memory blank_table demo_net = Some (st, net', ks)"
    and "conf st = demo_started" and "client_ips st = 1" and "efds st = [0]" and "port_conns st = [0]"
proof -
  obtain t where t: "initEventTime (\<lambda>i. 5) (100, 7) blank_table = Some t"
    using initEventTime_ok[of "\<lambda>i. 5" blank_table "(100, 7)"] by (auto simp: rand_ok_def RAND_MAX_def blank_table_def)
  obtain m where m: "initIDMap (\<lambda>i. 5) 1 11 = Some m"
    using initIDMap_perm[of "\<lambda>i. 5" 1 11] by (auto simp: rand_ok_def RAND_MAX_def INT_MAX_def)
  obtain cs where cs: "createClients (\<lambda>h. of_nat (length h)) id 1 ((replicate MAXIPS [])[0 := ascii ''10.0.0.1'']) (client_addrs demo_net) = Some cs"
    using createClients_eq[of "(replicate MAXIPS [])[0 := ascii ''10.0.0.1'']" "client_addrs demo_net"]
    by (simp add: demo_net_simps) (simp add: MAXIPS_def)
  obtain ss where ss: "createServer (\<lambda>h. of_nat (length h)) id (\<lambda>h. True) demo_started (server_addrs demo_net) = Some ss"
    by (cases "server_addrs demo_net")
      (use demo_net_simps(3) in \<open>auto simp: createServer_def demo_started_simps strcpy_def NI_MAXHOST_def ascii_def\<close>)
  have init: "fst (client_initConfigs demo_memory) = demo_memory" by (simp add: client_initConfigs_def)
  show ?thesis
    by (rule that)
      (simp_all add: client_init_def demo_world_def initParams_def initGlobal_def init demo_config demo_started_simps demo_net_simps
        t demo_alias m initKeyTable_eq cs[unfolded One_nat_def] ss CLIENT_MAXPORTS_def, simp_all add: demo_started_simps)
qed

lemma sweep_one_runs:
  assumes "table_ok efd s" and "fd < MAX_EVENTS"
  shows "sweep_one ep clk fd s \<noteq> None"
proof -
  have l: "length (packets_time s) = MAX_EVENTS" using assms(1) by (simp add: table_ok_def conns_ok_def)
  then have "canSendPkt fd ep (clk fd) s \<noteq> None" using assms(2) by (simp add: canSendPkt_def) blast
  then obtain b u where u: "canSendPkt fd ep (clk fd) s = Some (b, u)" by (cases "canSendPkt fd ep (clk fd) s") auto
  have ok: "table_ok efd u" by (rule table_ok_keep[OF core_canSendPkt[OF u] assms(1)])
  have lu: "length (packets_time u) = MAX_EVENTS" using ok by (simp add: table_ok_def conns_ok_def)
  have "client_modifyEpollEvent e fd EPOLLOUT u \<noteq> None" for e
    using lu assms(2)
    by (simp add: client_modifyEpollEvent_def client_addEpollEvent_def setEventTimeEfd_def Let_def split: option.split)
  then show ?thesis using l u lu assms(2) by (simp add: sweep_one_def)
qed

text \<open>A run in which the client opens two connections and the sweep registers the first of them.\<close>

lemma demo_sweep_registers:
  assumes "client_inv 3 st" and "opened 3 (table st) 5" and "interest (table st) = Map.empty" and "c_epoch (conf st) = 60"
  obtains u where "client_step 3 st u" and "interest (table u) (3, 5) = Some EPOLLOUT"
proof -
  let ?p = "packets_time (table st) ! 5"
  let ?clk = "\<lambda>fd :: nat. (fst (virtual_time ?p) + 100, snd (virtual_time ?p))"
  have ok: "table_ok 3 (table st)" using assms(1) by (simp add: client_inv_def)
  have fd: "5 < MAX_EVENTS" by (simp add: MAX_EVENTS_def)
  have "length (packets_time (table st)) = MAX_EVENTS" using ok by (simp add: table_ok_def conns_ok_def)
  then have p: "pt_efd ?p = 3" "connectionClosed ?p = 0" "sendingFlag ?p = 0" using assms(2) fd by (simp_all add: opened_def)
  have d: "due 60 (?clk 5) ?p" using p by (simp add: due_def client_getTimeDiff_def S_TO_US_def int32_def)
  obtain t where t: "sweep_one 60 ?clk 5 (table st) = Some t"
    using sweep_one_runs[OF ok fd, of 60 ?clk] by blast
  have "conn 3 t 5 = swept 60 (?clk 5) (conn 3 (table st) 5)" using sweep_one_conn[OF t ok fd, of 5] by simp
  then have "interest t (3, 5) = Some EPOLLOUT" using d assms(3) by (simp add: conn_def swept_def)
  with client_step.sweep[of st ?clk 5 t 3] t assms(4) show thesis by (intro that[of "st\<lparr>table := t\<rparr>"]) simp_all
qed

lemma demo_opens:
  assumes "client_init demo_world demo_memory blank_table demo_net = Some (st, net', ks)"
    and "conf st = demo_started" and "client_ips st = 1" and "efds st = [0]" and "port_conns st = [0]"
  obtains st1 where "client_main (\<lambda>u e g. e) (\<lambda>n. True) True (\<lambda>n. 3) (\<lambda>n. (5, 6)) (\<lambda>n ip i. Connected (5 + i)) st = Some st1"
    and "client_inv 3 st1" and "opened 3 (table st1) 5" and "interest (table st1) = Map.empty" and "c_epoch (conf st1) = 60"
proof -
  have ok: "table_ok efd (table st) \<and> efds st = [0] \<and> port_conns st = [0] \<and> close_conns st = [0] \<and> c_ports_count (conf st) \<le> 1" for efd
    by (rule client_init_ok[OF assms(1)])
      (use demo_net_simps(3) in \<open>simp_all add: demo_world_def rand_ok_def RAND_MAX_def CLIENT_MAXPORTS_def, simp_all add: blank_table_def\<close>)
  have "interest (table st) (e, fd) = None" for e fd
    using ok[of "e + 1"] by (simp add: table_ok_def)
  then have empty: "interest (table st) = Map.empty" by (intro ext) auto
  have tl: "length (packets_time (table st)) = MAX_EVENTS" using ok[of 3] by (simp add: table_ok_def conns_ok_def)
  have iv: "interval (conf st) \<noteq> 0" by (simp add: assms(2) demo_started_def)
  have "\<exists>t. createEvents (\<lambda>u e g. e) (conf st) 1 2 3 (5, 6) (\<lambda>ip i. Connected (5 + i)) (table st) = Some t \<and>
      list_all (opened 3 t) (map (\<lambda>(ip, i). 5 + i) (List.product [0..<nat 1] [0..<nat (2 div 1)])) \<and>
      int (length (List.product [0..<nat 1] [0..<nat (2 div 1)])) = 2 - 2 mod 1 \<and>
      total_conns t = total_conns (table st) \<and> active_conns t = active_conns (table st)"
    by (rule createEvents_opens[OF _ _ _ iv tl]) (simp_all add: MAX_CONN_PER_PORT_def MAX_EVENTS_def upt_rec)
  then obtain t where t: "createEvents (\<lambda>u e g. e) (conf st) 1 2 3 (5, 6) (\<lambda>ip i. Connected (5 + i)) (table st) = Some t"
    "opened 3 t 5" "total_conns t = total_conns (table st)"
    by (auto simp: upt_rec)
  let ?st1 = "st\<lparr>efds := [3], port_conns := [2], table := t\<rparr>"
  have m: "client_main (\<lambda>u e g. e) (\<lambda>n. True) True (\<lambda>n. 3) (\<lambda>n. (5, 6)) (\<lambda>n ip i. Connected (5 + i)) st = Some ?st1"
    using t(1) assms(2-5) by (simp add: client_main_def epoll_client_def foldM_Nil demo_started_simps)
  have inv: "client_inv 3 ?st1"
    using client_main_inv[OF m] ok[of 3] by (simp add: assms(2) demo_started_simps)
  have "total_conns (table st) = 0" using ok[of 3] empty by (simp add: table_ok_def)
  then have "finite (dom (interest t))" "card (dom (interest t)) = 0" using inv t(3) by (simp_all add: client_inv_def table_ok_def)
  then have "dom (interest t) = {}" by (simp only: card_0_eq)
  then show thesis using that[OF m inv] t(2) by (simp add: assms(2)) (simp add: demo_started_def)
qed

theorem client_runs_counted_witness:
  "\<exists>st0 net' ks st1 st2. client_init demo_world demo_memory blank_table demo_net = Some (st0, net', ks) \<and>
    client_main (\<lambda>u e g. e) (\<lambda>n. True) True (\<lambda>n. 3) (\<lambda>n. (5, 6)) (\<lambda>n ip i. Connected (5 + i)) st0 = Some st1 \<and>
    (client_step 3)\<^sup>*\<^sup>* st1 st2 \<and> interest (table st2) (3, 5) = Some EPOLLOUT \<and>
    conns_ok (table st2) \<and> interest (table st2) (4, 5) \<in> (if 4 = (3 :: int) then UNIV else {None}) \<and>
    total_conns (table st2) = int (card (dom (interest (table st2))))"
proof -
  obtain st net' ks where i: "client_init demo_world demo_memory blank_table demo_net = Some (st, net', ks)"
    "conf st = demo_started" "client_ips st = 1" "efds st = [0]" "port_conns st = [0]"
    by (rule demo_init)
  obtain st1 where m: "client_main (\<lambda>u e g. e) (\<lambda>n. True) True (\<lambda>n. 3) (\<lambda>n. (5, 6)) (\<lambda>n ip i. Connected (5 + i)) st = Some st1"
    "client_inv 3 st1" "opened 3 (table st1) 5" "interest (table st1) = Map.empty" "c_epoch (conf st1) = 60"
    by (rule demo_opens[OF i])
  obtain st2 where st2: "client_step 3 st1 st2" "interest (table st2) (3, 5) = Some EPOLLOUT"
    by (rule demo_sweep_registers[OF m(2-5)])
  then have run: "(client_step 3)\<^sup>*\<^sup>* st1 st2" by simp
  have "conns_ok (table st2) \<and> interest (table st2) (4, 5) \<in> (if 4 = (3 :: int) then UNIV else {None}) \<and>
      total_conns (table st2) = int (card (dom (interest (table st2))))"
    by (rule client_runs_counted[OF i(1) _ _ _ _ _ _ m(1) run, where e = 4 and fd = 5])
      (use i(2) demo_net_simps(3) in \<open>simp_all add: demo_world_def rand_ok_def RAND_MAX_def CLIENT_MAXPORTS_def demo_started_simps, simp_all add: blank_table_def\<close>)
  with i(1) m(1) run st2(2) show ?thesis by blast
qed

section \<open>The handlers stay within their arrays\<close>

text \<open>What a handler needs of an event: its descriptor is within the tables, and the arrays it packs the
  packet into are as declared; with the cipher they must be four bytes longer than declared.\<close>

definition event_ok :: "'d client_state \<Rightarrow> client_event \<Rightarrow> bool" where
  "event_ok st e \<longleftrightarrow> ce_fd e < MAX_EVENTS \<and> ce_fd e < length (idmap st) \<and> arrays_ok (ce_send e)"

lemma drop_runs:
  "client_inv efd st \<Longrightarrow> fd < MAX_EVENTS \<Longrightarrow> drop_connection 0 fd st \<noteq> None"
  by (simp add: drop_connection_def client_deleteEpollEvent_def client_inv_def table_ok_def conns_ok_def)

lemma modify_runs:
  assumes "table_ok efd t" and "fd < MAX_EVENTS"
  obtains u where "client_modifyEpollEvent efd fd ev t = Some u" and "length (packets_time u) = MAX_EVENTS"
proof -
  have "client_modifyEpollEvent efd fd ev t \<noteq> None"
    using assms by (simp add: client_modifyEpollEvent_def client_addEpollEvent_def setEventTimeEfd_def Let_def table_ok_def conns_ok_def
        split: option.split)
  then obtain u where u: "client_modifyEpollEvent efd fd ev t = Some u" by blast
  with table_ok_modify[OF assms(1) u] show ?thesis by (intro that[of u]) (simp_all add: table_ok_def conns_ok_def)
qed

lemma after_write_runs:
  assumes "client_inv efd st" and "fd < MAX_EVENTS" and "interval (conf st) \<noteq> 0"
  shows "after_write e ty data efd 0 fd st \<noteq> None"
proof (cases "send_result e")
  case (Wrote cnt)
  have t: "table_ok efd (table st)" "length (packets_time (table st)) = MAX_EVENTS"
    using assms(1) by (simp_all add: client_inv_def table_ok_def conns_ok_def)
  obtain u where u: "client_modifyEpollEvent efd fd EPOLLIN (table st) = Some u" "length (packets_time u) = MAX_EVENTS"
    by (rule modify_runs[OF t(1) assms(2)])
  show ?thesis
    using Wrote u t(2) assms drop_runs[OF assms(1,2)]
    by (simp add: after_write_def Let_def setEventSendTime_def resetSendPkt_def)
qed (use drop_runs[OF assms(1,2)] in \<open>simp_all add: after_write_def\<close>)

lemma send_runs:
  assumes "client_inv efd st" and "event_ok st e" and "interval (conf st) \<noteq> 0"
  shows "send_packet (ce_send e) ub efd 0 (ce_fd e) st \<noteq> None"
proof -
  let ?e = "ce_send e" and ?fd = "ce_fd e"
  obtain ty c where ty: "getPktTypeNum ub (pktTypeCounter st) = (ty, c)" by fastforce
  have fd: "?fd < MAX_EVENTS" "?fd < length (idmap st)" and b: "arrays_ok ?e"
    using assms(2) by (simp_all add: event_ok_def)
  let ?p = "client_packet (idmap st) ty ?fd"
  let ?buf = "splice (payload_buf ?e) 0 (packet_bytes ?p)"
  have wf: "wf_packet ?p" using wf_client_packet[OF fd] by simp
  have ser: "serialize_payload (payload_buf ?e) 0 ?p = Some (?buf, 146)"
    using serialize_payload_eq[OF wf, of "payload_buf ?e" 0] arrays_room[OF b] by simp
  obtain data where "(if ciphered ?e then seal_packet (keys ?e) ?buf (payload_cipher ?e) else Some ?buf) = Some data"
    by (rule sent_on_wire[OF fd b])
  then have "send_packet ?e ub efd 0 ?fd st = after_write ?e ty (take 146 data) efd 0 ?fd (st\<lparr>pktTypeCounter := c\<rparr>)"
    using ty ser client_packet_set[OF fd, of ty] by (simp add: send_packet_def)
  then show ?thesis
    using after_write_runs[of efd "st\<lparr>pktTypeCounter := c\<rparr>" ?fd] assms(1,3) fd(1) by (simp add: counter_simps)
qed

lemma receive_runs:
  assumes "client_inv efd st" and "fd < MAX_EVENTS"
  shows "receive_packet r now 0 fd st \<noteq> None"
proof -
  have "length (packets_time (table st)) = MAX_EVENTS" using assms(1) by (simp add: client_inv_def table_ok_def conns_ok_def)
  then show ?thesis
    using assms(2) drop_runs[OF assms]
    by (cases r) (auto simp: receive_packet_def setEventRecvTime_def resetSendPkt_def getRTT_def)
qed

lemma dispatch_runs:
  assumes "client_inv efd st" and "event_ok st e" and "interval (conf st) \<noteq> 0"
  shows "client_dispatch ub efd 0 e st \<noteq> None"
  using assms drop_runs[of efd st "ce_fd e"] send_runs[OF assms] receive_runs[of efd st "ce_fd e"]
  by (simp add: client_dispatch_def event_ok_def)

lemma dispatch_same:
  "client_dispatch ub efd port e st = Some st' \<Longrightarrow> idmap st' = idmap st \<and> conf st' = conf st"
  by (auto simp: client_dispatch_def drop_connection_def send_packet_def after_write_def receive_packet_def Let_def
      split: if_splits Option.bind_splits write_result.splits receive_result.splits prod.splits)

lemma dispatches_run:
  assumes "client_inv efd st" and "interval (conf st) \<noteq> 0" and "list_all (event_ok st) events"
    and "distinct (map ce_fd events)" and "list_all (\<lambda>e. registered efd st (ce_fd e)) events"
  shows "foldM (client_dispatch ub efd 0) events st \<noteq> None"
  using assms
proof (induction events arbitrary: st)
  case (Cons e events)
  then obtain u where u: "client_dispatch ub efd 0 e st = Some u" using dispatch_runs[of efd st e ub] by auto
  have h: "handled efd (ce_fd e) st u" using dispatch_handled[OF u] Cons.prems by simp
  have same: "idmap u = idmap st" "conf u = conf st" using dispatch_same[OF u] by simp_all
  have "list_all (\<lambda>e. registered efd u (ce_fd e)) events"
    using h Cons.prems(4,5) unfolding handled_def list_all_iff
    by (metis (no_types, lifting) distinct.simps(2) image_eqI list.map(2) list.set_intros(2) list.set_map)
  moreover have "event_ok u = event_ok st" using same by (auto simp: event_ok_def)
  then have "list_all (event_ok u) events" using Cons.prems(3) by simp
  ultimately show ?case
    using Cons.IH[of u] Cons.prems(2,4) h same u by (simp add: handled_def)
qed simp

lemma round_runs:
  assumes "client_inv efd st" and "interval (conf st) \<noteq> 0" and "list_all (event_ok st) events"
    and "distinct (map ce_fd events)" and "list_all (\<lambda>e. registered efd st (ce_fd e)) events"
  shows "epollLoop_round upper efd 0 events st \<noteq> None"
proof (cases "close_conns st ! 0 > 0")
  case False
  then show ?thesis
    using dispatches_run[OF assms, of "upper (c_requestRate (conf st))"] assms(1)
    by (simp add: epollLoop_round_def client_inv_def)
next
  case True
  obtain t where t: "closeConnections efd (close_conns st ! 0) (table st) = Some t"
    using closeConnections_eq[of "table st"] assms(1) by (auto simp: client_inv_def table_ok_def)
  then have c: "core t = core (table st)" by (rule core_closeConnections)
  let ?u = "st\<lparr>table := t, port_conns := [port_conns st ! 0 - close_conns st ! 0], close_conns := [0]\<rparr>"
  have "client_inv efd ?u" using assms(1) table_ok_keep[OF c] by (simp add: client_inv_def)
  moreover have "registered efd ?u = registered efd st" using core_interest[OF c] by (auto simp: registered_def)
  moreover have "event_ok ?u = event_ok st" by (auto simp: event_ok_def)
  ultimately have "foldM (client_dispatch (upper (c_requestRate (conf st))) efd 0) events ?u \<noteq> None"
    using assms(2-5) by (intro dispatches_run) simp_all
  moreover have "(port_conns st)[0 := x] = [x]" "(close_conns st)[0 := x] = [x]" for x
    using assms(1) by (cases "port_conns st"; cases "close_conns st"; simp add: client_inv_def)+
  ultimately show ?thesis
    using True t assms(1) by (simp add: epollLoop_round_def client_inv_def)
qed

lemma sweep_runs: "table_ok efd s \<Longrightarrow> \<exists>t. updateEvents ep clk s = Some t \<and> table_ok efd t"
  unfolding updateEvents_def
proof (rule foldM_runs[where P = "table_ok efd"])
  fix fd s assume "fd \<in> set [0..<MAX_EVENTS]" and s: "table_ok efd s"
  with sweep_one_runs[OF s, of fd ep clk]
  show "\<exists>t. sweep_one ep clk fd s = Some t \<and> table_ok efd t" by (auto intro: sweep_one_keeps)
qed

text \<open>C25: in a state that satisfies the invariant no handler of the client leaves an array or divides by
  zero: every round of the event loop and every sweep runs to its end.  This is of the client as it is
  shipped, without \<^verbatim>\<open>CIPHER\<close> and with the arrays as declared, as long as the burst interval is not zero, the
  descriptors are smaller than the range of session identities and the tables, and the events of a round
  are for different registered descriptors; of a client built with the cipher, whose declared arrays
  overrun, it holds only with four bytes more in them.\<close>

theorem client_never_stuck:
  assumes "client_inv efd st" and "interval (conf st) \<noteq> 0" and "list_all (event_ok st) events"
    and "distinct (map ce_fd events)" and "list_all (\<lambda>e. registered efd st (ce_fd e)) events"
  shows "(\<exists>st'. epollLoop_round upper efd 0 events st = Some st' \<and> client_inv efd st') \<and>
    (\<exists>t. updateEvents (c_epoch (conf st)) clk (table st) = Some t \<and> client_inv efd (st\<lparr>table := t\<rparr>))"
proof -
  obtain st' where st': "epollLoop_round upper efd 0 events st = Some st'" using round_runs[OF assms, of upper] by blast
  have ok: "table_ok efd (table st)" using assms(1) by (simp add: client_inv_def)
  from sweep_runs[OF ok] show ?thesis using st' round_keeps[OF st' assms(1,4,5)] assms(1) by (fastforce simp: client_inv_def)
qed

definition idle_client :: "int client_state" where
  "idle_client = demo_client\<lparr>table := open_table\<lparr>interest := [(3, 5) \<mapsto> EPOLLOUT], total_conns := 1\<rparr>,
     conf := demo_client_conf\<lparr>interval := 10000\<rparr>\<rparr>"

lemma idle_client_inv: "client_inv 3 idle_client"
  using open_table_ok
  by (simp add: client_inv_def idle_client_def demo_client_def table_ok_def conns_ok_def)
    (auto simp: open_table_def demo_client_conf_def client_initConfigs_def)

definition demo_event :: client_event where
  "demo_event = \<lparr>ce_fd = 5, ce_error = False, ce_out = True, ce_in = False, ce_send = plain_env (Wrote 146),
     ce_receive = Got 146, ce_now = (100, 9)\<rparr>"

theorem client_never_stuck_witness:
  "(\<exists>st'. epollLoop_round (\<lambda>r. 50) 3 0 [demo_event] idle_client = Some st' \<and> client_inv 3 st') \<and>
    (\<exists>t. updateEvents (c_epoch (conf idle_client)) (\<lambda>fd. (200, 0)) (table idle_client) = Some t \<and>
      client_inv 3 (idle_client\<lparr>table := t\<rparr>))"
  by (rule client_never_stuck[OF idle_client_inv])
    (simp_all add: event_ok_def demo_event_def plain_env_def demo_env_def arrays_ok_def idle_client_def registered_def,
     simp_all add: MAX_EVENTS_def demo_client_def)

section \<open>Turns\<close>

text \<open>C17: a sweep registers for writing exactly the connections that are open, idle and a whole epoch past
  their last packet, and leaves every other entry as it is.  A connection that was registered is flagged
  as sending; for one that was not, its first turn, the registration clears the flag again, so that its
  first request is not protected against a second one.\<close>

theorem sweep_arms:
  assumes "table_ok efd s" and "fd < MAX_EVENTS" and "p = packets_time s ! fd"
  shows "\<exists>t. updateEvents ep clk s = Some t \<and> table_ok efd t \<and>
    (packets_time t ! fd, interest t (efd, fd)) =
      (if pt_efd p = 0 \<or> sendingFlag p = 1 \<or> connectionClosed p = 1 \<or> client_getTimeDiff (virtual_time p) (clk fd) sdiv S_TO_US < ep
       then (p, interest s (efd, fd))
       else if interest s (efd, fd) = None then (p\<lparr>sendingFlag := 0, connectionClosed := 0\<rparr>, Some EPOLLOUT)
       else (p\<lparr>sendingFlag := 1\<rparr>, Some EPOLLOUT))"
proof -
  obtain t where t: "updateEvents ep clk s = Some t" "table_ok efd t" using sweep_runs[OF assms(1)] by blast
  from updateEvents_conn[OF t(1) assms(1,2)] t show ?thesis
    by (auto simp: conn_def swept_def due_def assms(3) not_less)
qed

theorem sweep_arms_witness:
  "\<exists>t. updateEvents 60 (\<lambda>fd. (61, 0)) (table idle_client) = Some t \<and> table_ok 3 t \<and>
    (packets_time t ! 5, interest t (3, 5)) =
      (if pt_efd (packets_time (table idle_client) ! 5) = 0 \<or> sendingFlag (packets_time (table idle_client) ! 5) = 1 \<or>
         connectionClosed (packets_time (table idle_client) ! 5) = 1 \<or>
         client_getTimeDiff (virtual_time (packets_time (table idle_client) ! 5)) (61, 0) sdiv S_TO_US < 60
       then (packets_time (table idle_client) ! 5, interest (table idle_client) (3, 5))
       else if interest (table idle_client) (3, 5) = None
       then ((packets_time (table idle_client) ! 5)\<lparr>sendingFlag := 0, connectionClosed := 0\<rparr>, Some EPOLLOUT)
       else ((packets_time (table idle_client) ! 5)\<lparr>sendingFlag := 1\<rparr>, Some EPOLLOUT))"
  by (rule sweep_arms) (use idle_client_inv in \<open>simp_all add: client_inv_def\<close>, simp add: MAX_EVENTS_def)

text \<open>C16: a connection whose turn has come sends: after the sweep the event loop finds it writable, and
  its packet, with its own identities and the type that is due, is written to its socket, as far as the
  socket takes it, provided it takes any.  The client is built as shipped, without \<^verbatim>\<open>CIPHER\<close> and with the declared array; its
  burst interval is not zero, no connections are waiting to be closed, and its descriptor is smaller than
  the range of session identities and the tables.\<close>

theorem due_connection_sends:
  assumes "client_inv efd st" and "event_ok st e" and "interval (conf st) \<noteq> 0" and "close_conns st ! 0 \<le> 0"
    and "p = packets_time (table st) ! ce_fd e" and "due (c_epoch (conf st)) (clk (ce_fd e)) p"
    and "ce_out e" and "\<not> ce_error e" and "\<not> ciphered (ce_send e)" and "send_result (ce_send e) = Wrote k" and "0 < k"
  shows "\<exists>t st'. updateEvents (c_epoch (conf st)) clk (table st) = Some t \<and> interest t (efd, ce_fd e) = Some EPOLLOUT \<and>
    epollLoop_round upper efd 0 [e] (st\<lparr>table := t\<rparr>) = Some st' \<and>
    wire st' = wire st @ [(ce_fd e, take k (packet_bytes (client_packet (idmap st)
      (fst (getPktTypeNum (upper (c_requestRate (conf st))) (pktTypeCounter st))) (ce_fd e))))]"
proof -
  let ?fd = "ce_fd e" and ?ub = "upper (c_requestRate (conf st))"
  obtain ty c where ty: "getPktTypeNum ?ub (pktTypeCounter st) = (ty, c)" by fastforce
  have ok: "table_ok efd (table st)" and cl: "length (close_conns st) = 1" using assms(1) by (simp_all add: client_inv_def)
  have fd: "?fd < MAX_EVENTS" "?fd < length (idmap st)" "146 \<le> length (payload_buf (ce_send e))"
    using assms(2) arrays_room by (simp_all add: event_ok_def)
  obtain t where t: "updateEvents (c_epoch (conf st)) clk (table st) = Some t" "table_ok efd t"
    using sweep_runs[OF ok] by blast
  have ev: "interest t (efd, ?fd) = Some EPOLLOUT"
    using updateEvents_conn[OF t(1) ok fd(1)] assms(5,6) by (simp add: conn_def swept_def split: if_splits)
  let ?st = "st\<lparr>table := t\<rparr>" and ?bytes = "packet_bytes (client_packet (idmap st) ty ?fd)"
  have tl: "length (packets_time t) = MAX_EVENTS" using t(2) by (simp add: table_ok_def conns_ok_def)
  have l: "length ?bytes = 146" using length_packet_bytes wf_client_packet[OF fd(1,2)] by simp
  obtain st' where st': "send_packet (ce_send e) ?ub efd 0 ?fd ?st = Some st'"
    "wire st' = wire st @ [(?fd, take k (take 146 (splice (payload_buf (ce_send e)) 0 ?bytes)))]"
    by (rule send_packet_eq[of ?fd ?st "ce_send e" efd EPOLLOUT ?ub ty c _ k 0])
      (use fd tl ev assms(3,9-11) ty in simp_all)
  have "epollLoop_round upper efd 0 [e] ?st = Some st'"
    using st'(1) assms(4,7,8) cl by (simp add: epollLoop_round_def client_dispatch_def foldM_Nil)
  then show ?thesis using t(1) ev st'(2) l ty by (intro exI[of _ t] exI[of _ st']) (simp add: splice_def)
qed

theorem due_connection_sends_witness:
  "\<exists>t st'. updateEvents (c_epoch (conf idle_client)) (\<lambda>fd. (61, 0)) (table idle_client) = Some t \<and>
    interest t (3, ce_fd demo_event) = Some EPOLLOUT \<and>
    epollLoop_round (\<lambda>r. 50) 3 0 [demo_event] (idle_client\<lparr>table := t\<rparr>) = Some st' \<and>
    wire st' = wire idle_client @ [(ce_fd demo_event, take 146 (packet_bytes (client_packet (idmap idle_client)
      (fst (getPktTypeNum 50 (pktTypeCounter idle_client))) (ce_fd demo_event))))]"
  by (rule due_connection_sends[OF idle_client_inv, where upper = "\<lambda>r. 50"])
    (simp_all add: event_ok_def demo_event_def plain_env_def demo_env_def arrays_ok_def idle_client_def due_def open_table_def closed_entry_def
      demo_client_def demo_client_conf_def client_initConfigs_def MAX_EVENTS_def client_getTimeDiff_def S_TO_US_def, simp add: INT_MIN_def INT_MAX_def)

text \<open>A connection that the client has closed and that is then reset by its peer is taken from the active
  connections twice and stays among the dead ones.\<close>

lemma closed_then_dropped:
  assumes "closeConnection efd fd s = Some (1, t)" and "client_deleteEpollEvent fd t = Some u"
  shows "active_conns u = active_conns s - 2 \<and> dead_conns u = dead_conns s + 1 \<and> total_conns u = total_conns s - 1"
  using assms
  by (auto simp: closeConnection_def client_deleteEpollEvent_def update_entry_Some split: Option.bind_splits if_splits)

end
