(* ===== verification/EpollRestore.thy ===== *)
theory EpollRestore
  imports EpollTheorems
begin

text \<open>
  The restoring of closed connections in \<^verbatim>\<open>client/epoll.c\<close>: which connections come back, with
  which times, and what becomes of the counts.
\<close>



section \<open>The scan\<close>







section \<open>What a call does\<close>







end
