(* ===== verification/RedisConnect.thy ===== *)
theory RedisConnect
  imports RedisTheorems
begin

text \<open>
  Connecting to the cluster, \<^verbatim>\<open>__connect_cluster\<close> of \<^verbatim>\<open>redis/connect.c\<close> as a whole: from
  the text that describes the nodes to a cluster in which every slot has the context of its owner.
\<close>

section \<open>The description of a cluster\<close>

record master =
  m_ident :: cstr
  m_ip :: cstr
  m_port :: int
  m_cport :: cstr
  m_flags :: cstr
  m_first :: int
  m_last :: int
  m_more :: cstr

text \<open>\<open>m_more\<close> is the rest of the line: the further slot ranges of the master, if it has any.\<close>

definition master_line :: "master \<Rightarrow> cstr" where
  "master_line m = node_line (m_ident m) (m_ip m) (m_port m) (m_cport m) (m_flags m) (m_first m) (m_last m) @ m_more m"

definition master_ok :: "master \<Rightarrow> bool" where
  "master_ok m \<longleftrightarrow> 32 \<notin> set (m_ident m) \<and> 58 \<notin> set (m_ip m) \<and> 32 \<notin> set (m_cport m) \<and>
     (m_cport m = [] \<or> \<not> is_digit (hd (m_cport m))) \<and> 99 \<notin> set (m_flags m) \<and> 0 \<le> m_port m \<and> m_port m \<le> INT_MAX \<and>
     0 \<le> m_first m \<and> m_first m < int SLOTS \<and> 0 \<le> m_last m \<and> m_last m < int SLOTS \<and>
     (m_more m = [] \<or> \<not> is_digit (hd (m_more m)))"

text \<open>The slots of the first range of a master; the code reads no other.\<close>

definition owns :: "master \<Rightarrow> nat \<Rightarrow> bool" where
  "owns m s \<longleftrightarrow> m_first m \<le> int s \<and> int s \<le> m_last m"

text \<open>The owner of a slot: the last master whose first range covers it.\<close>

definition owner :: "master list \<Rightarrow> nat \<Rightarrow> nat \<Rightarrow> bool" where
  "owner ms s i \<longleftrightarrow> i < length ms \<and> owns (ms ! i) s \<and> (\<forall>i'. i < i' \<longrightarrow> i' < length ms \<longrightarrow> \<not> owns (ms ! i') s)"

text \<open>The answer \<open>text\<close> to \<^verbatim>\<open>cluster nodes\<close> lists the masters \<open>ms\<close> and any slaves, a line each.\<close>

definition describes :: "cstr \<Rightarrow> master list \<Rightarrow> bool" where
  "describes text ms \<longleftrightarrow> (\<exists>ls. text = concat (map (\<lambda>l. l @ [10]) ls) \<and> list_all (\<lambda>l. 10 \<notin> set l) ls \<and>
     filter (\<lambda>l. \<not> is_slave l) ls = map master_line ms) \<and> list_all master_ok ms \<and> length ms < MAXNODES"

text \<open>The code searches a copied line for \<^verbatim>\<open>slave\<close> before it has terminated it, so it reads on into the
  uninitialised rest of the heap block: nowhere may the stale bytes there complete the word.\<close>

definition memory_harmless :: "(nat \<Rightarrow> cstr) \<Rightarrow> master list \<Rightarrow> bool" where
  "memory_harmless slack ms \<longleftrightarrow> (\<forall>n. list_all (\<lambda>m. \<not> is_slave (master_line m @ slack n)) ms)"

definition blank_ok :: "'c clusterInfo \<Rightarrow> bool" where
  "blank_ok cl \<longleftrightarrow> length (cl_argv cl) = MAXNODES \<and> length (cl_parse cl) = MAXNODES \<and> length (slot_to_host cl) = SLOTS"

section \<open>From the text to the nodes\<close>

definition parsed :: "(nat \<Rightarrow> u8 list) \<Rightarrow> nat \<Rightarrow> master \<Rightarrow> 'c parseArgv" where
  "parsed junk i m = \<lparr>n_ip = m_ip m, n_context = Indeterminate, n_port = m_port m, n_start_slot = m_first m,
     n_end_slot = m_last m, n_slots = junk i\<rparr>"

lemma parse_master: "master_ok m \<Longrightarrow> parse_node (master_line m) = Some (m_ip m, m_port m, m_first m, m_last m)"
  unfolding master_line_def by (rule parse_node_line) (auto simp: master_ok_def SLOTS_def INT_MAX_def)

lemma process_masters:
  assumes "list_all master_ok ms" and "length ms < MAXNODES" and "length (cl_parse cl) = MAXNODES"
    and "length (cl_argv cl) = MAXNODES" and "take (length ms) (cl_argv cl) = map master_line ms" and "cl_len cl = length ms"
  shows "process_cluterInfo junk cl = Some (cl\<lparr>cl_parse :=
    splice (cl_parse cl) 0 (map (\<lambda>i. Some (parsed junk i (ms ! i))) [0..<length ms])\<rparr>)"
proof -
  let ?f = "\<lambda>i. do { line \<leftarrow> load (cl_argv cl) i; (ip, port, a, b) \<leftarrow> parse_node line;
    Some (Some \<lparr>n_ip = ip, n_context = Indeterminate, n_port = port, n_start_slot = a, n_end_slot = b, n_slots = junk i\<rparr>) }"
  have "?f i = Some (Some (parsed junk i (ms ! i)))" if "i < length ms" for i
  proof -
    have "cl_argv cl ! i = take (length ms) (cl_argv cl) ! i" using that by simp
    also have "\<dots> = master_line (ms ! i)" using that by (simp only: assms(5) nth_map)
    finally show ?thesis
      using that assms(1,2,4) parse_master[of "ms ! i"] by (simp add: list_all_length parsed_def)
  qed
  then have A: "foldM (\<lambda>i p. Option.bind (?f i) (store p i)) [0..<length ms] (cl_parse cl) =
      Some (splice (cl_parse cl) 0 (map (\<lambda>i. Some (parsed junk i (ms ! i))) [0..<length ms]))"
    using assms(2,3) by (intro foldM_fill) simp_all
  have B: "foldM (\<lambda>i p. do { line \<leftarrow> load (cl_argv cl) i; (ip, port, a, b) \<leftarrow> parse_node line;
        store p i (Some \<lparr>n_ip = ip, n_context = Indeterminate, n_port = port, n_start_slot = a, n_end_slot = b, n_slots = junk i\<rparr>) })
        [0..<length ms] (cl_parse cl) = foldM (\<lambda>i p. Option.bind (?f i) (store p i)) [0..<length ms] (cl_parse cl)"
    by (intro foldM_cong) (auto split: Option.bind_splits)
  show ?thesis by (simp only: process_cluterInfo_def assms(6) A B Option.bind.simps)
qed

section \<open>Contexts\<close>

text \<open>\<open>reach ip port\<close> is the context a connection to the node gives, whenever it is made.\<close>

definition connects :: "('c, 'w) redis_connect \<Rightarrow> (cstr \<Rightarrow> int \<Rightarrow> 'c option) \<Rightarrow> bool" where
  "connects connect reach \<longleftrightarrow> (\<forall>ip port w. fst (connect ip port w) = reach ip port)"

definition reached :: "(cstr \<Rightarrow> int \<Rightarrow> 'c option) \<Rightarrow> master \<Rightarrow> 'c option" where
  "reached reach m = reach (m_ip m) (m_port m)"

lemma add_contexts_nodes:
  assumes "connects connect reach" and "\<And>j. i \<le> j \<Longrightarrow> j < i + n \<Longrightarrow> node cl j = Some (x j)"
    and "g = (\<lambda>j. reach (n_ip (x j)) (n_port (x j)))"
  shows "\<exists>cl' w'. add_contexts connect n i cl w = Some (cl', w') \<and> slot_to_host cl' = slot_to_host cl \<and>
    (\<forall>j. node cl' j = (if i \<le> j \<and> j < i + n \<and> (\<forall>j'. i \<le> j' \<and> j' \<le> j \<longrightarrow> g j' \<noteq> None)
      then Some ((x j)\<lparr>n_context := Valid (the (g j))\<rparr>) else node cl j))"
  using assms(2)
proof (induction n arbitrary: i cl w)
  case (Suc n)
  have x: "node cl i = Some (x i)" using Suc.prems by simp
  obtain w1 where w1: "connect (n_ip (x i)) (n_port (x i)) w = (g i, w1)"
  proof (cases "connect (n_ip (x i)) (n_port (x i)) w")
    case (Pair c w1)
    moreover have "fst (connect (n_ip (x i)) (n_port (x i)) w) = g i"
      using assms(1) by (simp add: connects_def assms(3))
    ultimately show thesis using that by simp
  qed
  show ?case
  proof (cases "g i")
    case None
    then show ?thesis using x w1 by auto
  next
    case (Some c)
    let ?cl = "cl\<lparr>cl_parse := (cl_parse cl)[i := Some ((x i)\<lparr>n_context := Valid c\<rparr>)]\<rparr>"
    have i: "i < length (cl_parse cl)" using x by (auto simp: node_def load_def split: Option.bind_splits if_splits)
    have n: "node ?cl j = (if j = i then Some ((x i)\<lparr>n_context := Valid c\<rparr>) else node cl j)" for j
      using i by (auto simp: node_def load_def nth_list_update)
    then have "node ?cl j = Some (x j)" if "Suc i \<le> j" "j < Suc i + n" for j
      using Suc.prems[of j] that by simp
    from Suc.IH[where i = "Suc i" and cl = ?cl and w = w1, OF this] obtain cl' w' where "add_contexts connect n (Suc i) ?cl w1 = Some (cl', w')"
      and a: "slot_to_host cl' = slot_to_host ?cl"
      and "\<forall>j. node cl' j = (if Suc i \<le> j \<and> j < Suc i + n \<and> (\<forall>j'. Suc i \<le> j' \<and> j' \<le> j \<longrightarrow> g j' \<noteq> None)
        then Some ((x j)\<lparr>n_context := Valid (the (g j))\<rparr>) else node ?cl j)" by auto
    moreover have "(\<forall>j'. i \<le> j' \<and> j' \<le> j \<longrightarrow> g j' \<noteq> None) \<longleftrightarrow> (\<forall>j'. Suc i \<le> j' \<and> j' \<le> j \<longrightarrow> g j' \<noteq> None)" for j
    proof -
      have "i \<le> j' \<longleftrightarrow> j' = i \<or> Suc i \<le> j'" for j' by auto
      then show ?thesis using Some by auto
    qed
    ultimately have "add_contexts connect (Suc n) i cl w = Some (cl', w')" and
      "node cl' j = (if i \<le> j \<and> j < i + Suc n \<and> (\<forall>j'. i \<le> j' \<and> j' \<le> j \<longrightarrow> g j' \<noteq> None)
        then Some ((x j)\<lparr>n_context := Valid (the (g j))\<rparr>) else node cl j)" for j
      using x w1 Some i n by (auto simp: set_node_def)
    moreover have "slot_to_host cl' = slot_to_host cl" using a by simp
    ultimately show ?thesis by blast
  qed
qed auto

section \<open>The cluster after connecting\<close>

lemma nodes_of_text:
  assumes "describes text ms" and "memory_harmless slack ms" and "\<forall>i. length (junk i) = SLOTS" and "blank_ok cl"
  obtains cl1 cl2 where "from_str_to_cluster slack text cl = Some cl1" and "process_cluterInfo junk cl1 = Some cl2"
    and "parsed_ok cl2" and "cl_len cl2 = length ms"
    and "\<forall>i < length ms. cl_parse cl2 ! i = Some (parsed junk i (ms ! i))"
proof -
  obtain ls where ls: "text = concat (map (\<lambda>l. l @ [10]) ls)" "list_all (\<lambda>l. 10 \<notin> set l) ls"
      "filter (\<lambda>l. \<not> is_slave l) ls = map master_line ms"
    and ms: "list_all master_ok ms" "length ms < MAXNODES"
    using assms(1) by (auto simp: describes_def)
  let ?cl1 = "cl\<lparr>cl_argv := splice (cl_argv cl) 0 (map master_line ms), cl_len := length ms\<rparr>"
  let ?p = "splice (cl_parse cl) 0 (map (\<lambda>i. Some (parsed junk i (ms ! i))) [0..<length ms])"
  have l: "length (cl_argv cl) = 50" "length (cl_parse cl) = 50" "length ms < 50"
    using assms(4) ms(2) by (simp_all add: blank_ok_def MAXNODES_def)
  have "harmless slack ls" using assms(2) by (simp only: harmless_def memory_harmless_def ls(3) list.pred_map comp_def simp_thms)
  from from_str_masters[OF this ls(2), of "[]" "map master_line ms" cl]
  have 1: "from_str_to_cluster slack text cl = Some ?cl1" using ls(1,3) l by simp
  have 2: "process_cluterInfo junk ?cl1 = Some (?cl1\<lparr>cl_parse := ?p\<rparr>)"
    using process_masters[OF ms, of ?cl1 junk] l by (simp add: MAXNODES_def splice_def)
  have n: "?p ! i = Some (parsed junk i (ms ! i))" if "i < length ms" for i
    using that l by (simp add: nth_splice)
  then have "parsed_ok (?cl1\<lparr>cl_parse := ?p\<rparr>)"
    using ms assms(3,4) l
    by (auto simp: parsed_ok_def blank_ok_def MAXNODES_def parsed_def master_ok_def list_all_length)
  then show thesis
  proof (rule that[OF 1 2])
    show "cl_len (?cl1\<lparr>cl_parse := ?p\<rparr>) = length ms" by simp
    show "\<forall>i < length ms. cl_parse (?cl1\<lparr>cl_parse := ?p\<rparr>) ! i = Some (parsed junk i (ms ! i))" using n by simp
  qed
qed

text \<open>A master is connected only if the masters before it in the description are.\<close>

definition routed :: "(cstr \<Rightarrow> int \<Rightarrow> 'c option) \<Rightarrow> master list \<Rightarrow> 'c clusterInfo \<Rightarrow> bool" where
  "routed reach ms cl \<longleftrightarrow> (\<forall>i s. owner ms s i \<longrightarrow> s < SLOTS \<longrightarrow>
     route cl s = Some (if \<forall>j \<le> i. reached reach (ms ! j) \<noteq> None then Valid (the (reached reach (ms ! i))) else Indeterminate))"

lemma connect_routes:
  assumes "connect ip port w = (Some c, w0)" and "redis c [ascii ''cluster'', ascii ''nodes''] w0 = (Some r, w1)"
    and "describes (r_str r) ms" and "memory_harmless slack ms" and "\<forall>i. length (junk i) = SLOTS" and "blank_ok blank"
    and "connects connect reach"
  obtains cl w' where "connect_cluster connect redis slack junk blank ip port w = Some (cl, w')"
    and "routed reach ms cl"
proof -
  have "blank_ok (blank\<lparr>globalContext := c\<rparr>)" using assms(6) by (simp add: blank_ok_def)
  then obtain cl1 cl2 where
    cl1: "from_str_to_cluster slack (r_str r) (blank\<lparr>globalContext := c\<rparr>) = Some cl1" and
    cl2: "process_cluterInfo junk cl1 = Some cl2" "parsed_ok cl2" "cl_len cl2 = length ms"
      "\<forall>i < length ms. cl_parse cl2 ! i = Some (parsed junk i (ms ! i))"
    by (rule nodes_of_text[OF assms(3-5)])
  obtain cl3 where cl3: "assign_slot cl2 = Some cl3" "assigned cl2 (length ms) cl3"
    using cl2(3) by (auto intro: assign_slot_assigned[OF cl2(2)])
  have len: "length ms < MAXNODES" using assms(3) by (simp add: describes_def)
  define x :: "nat \<Rightarrow> 'a parseArgv" where "x j = (parsed junk j (ms ! j))\<lparr>n_slots :=
    if m_first (ms ! j) \<le> m_last (ms ! j) then (replicate SLOTS 0)[j := 1] else replicate SLOTS 0\<rparr>" for j
  have x: "node cl3 j = Some (x j)" if "j < length ms" for j
    using cl3(2) cl2(4) that that len
    by (auto simp: assigned_def node_def x_def parsed_def)
  have "cl_len cl3 = length ms" using cl3(2) cl2(3) by (simp add: assigned_def)
  moreover have gx: "(\<lambda>j. reached reach (ms ! j)) = (\<lambda>j. reach (n_ip (x j)) (n_port (x j)))"
    by (simp add: reached_def x_def parsed_def)
  moreover obtain cl w' where cl: "add_contexts connect (length ms) 0 cl3 w1 = Some (cl, w')"
      "slot_to_host cl = slot_to_host cl3"
      "\<forall>j. node cl j = (if 0 \<le> j \<and> j < 0 + length ms \<and> (\<forall>j'. 0 \<le> j' \<and> j' \<le> j \<longrightarrow> reached reach (ms ! j') \<noteq> None)
        then Some ((x j)\<lparr>n_context := Valid (the (reached reach (ms ! j)))\<rparr>) else node cl3 j)"
    using add_contexts_nodes[OF assms(7) _ gx, of 0 "length ms" cl3 w1] x by auto
  ultimately have "connect_cluster connect redis slack junk blank ip port w = Some (cl, w')"
    using assms(1,2) cl1 cl2(1) cl3(1) by (simp add: connect_cluster_def cluster_info_def add_context_to_cluster_def)
  then show thesis
  proof (rule that)
    show "routed reach ms cl"
      unfolding routed_def
    proof (intro allI impI)
      fix i s
      assume own: "owner ms s i" and s: "s < SLOTS"
      then have i: "i < length ms" and o: "owns (ms ! i) s" by (simp_all add: owner_def)
      have c: "covers (the (cl_parse cl2 ! j)) s \<longleftrightarrow> owns (ms ! j) s" if "j < length ms" for j
        using cl2(4) that by (simp add: covers_def parsed_def owns_def)
      have "slot_to_host cl3 ! s = fold (\<lambda>i h. if covers (the (cl_parse cl2 ! i)) s then Some i else h) [0..<length ms] (slot_to_host cl2 ! s)"
        using cl3(2) s by (simp add: assigned_def)
      also have "\<dots> = Some i" by (rule last_owner[OF i]) (use c i own in \<open>auto simp: owner_def\<close>)
      finally have "load (slot_to_host cl) s = Some (Some i)"
        using cl(2) cl3(2) s by (simp add: assigned_def)
      moreover have "s < length (n_slots (x i))" using o s by (auto simp: x_def owns_def)
      ultimately show "route cl s = Some (if \<forall>j \<le> i. reached reach (ms ! j) \<noteq> None then Valid (the (reached reach (ms ! i))) else Indeterminate)"
        using cl(3) i x[OF i] by (simp add: route_def) (simp add: x_def parsed_def)
    qed
  qed
qed

lemma last_master:
  assumes "\<exists>m \<in> set ms. owns m s"
  obtains i where "owner ms s i"
proof -
  let ?I = "{i. i < length ms \<and> owns (ms ! i) s}"
  have I: "finite ?I" "?I \<noteq> {}" using assms by (auto simp: in_set_conv_nth)
  define k where "k = Max ?I"
  have "k \<in> ?I" unfolding k_def by (rule Max_in[OF I])
  moreover have "i' \<le> k" if "i' < length ms" "owns (ms ! i') s" for i'
    using that unfolding k_def by (intro Max_ge[OF I(1)]) simp
  ultimately have "owner ms s k" by (auto simp: owner_def not_less[symmetric])
  then show thesis by (rule that)
qed

section \<open>Properties\<close>

text \<open>C10: when the first node answers with a description of the cluster and every master in it accepts a
  connection, then connecting gives a cluster in which every key whose slot is in the first range of a
  master is routed to the context of the last such master; slaves and further ranges on a line do not
  matter.  If the first ranges cover all slots the cluster is ready: every key has a context.  The
  theorem assumes that the uninitialised memory behind a copied line, which the code reads, does not
  complete the word \<^verbatim>\<open>slave\<close> there; otherwise a master is dropped.  The slots of the further ranges of
  a master are not covered: the code does not read them.\<close>

theorem connected_cluster_routes:
  assumes "connect ip port w = (Some c, w0)" and "redis c [ascii ''cluster'', ascii ''nodes''] w0 = (Some r, w1)"
    and "describes (r_str r) ms" and "memory_harmless slack ms" and "\<forall>i. length (junk i) = SLOTS" and "blank_ok blank"
    and "connects connect reach" and "\<forall>m \<in> set ms. reached reach m \<noteq> None"
  shows "\<exists>cl w'. connect_cluster connect redis slack junk blank ip port w = Some (cl, w') \<and>
    (\<forall>key i. owner ms (the (slot_of key)) i \<longrightarrow>
      route cl (the (slot_of key)) = Some (Valid (the (reached reach (ms ! i))))) \<and>
    ((\<forall>s < SLOTS. \<exists>m \<in> set ms. owns m s) \<longrightarrow> cluster_ready cl)"
proof -
  obtain cl w' where cl: "connect_cluster connect redis slack junk blank ip port w = Some (cl, w')"
    and r: "routed reach ms cl"
    by (rule connect_routes[of connect ip port w c w0 redis r w1 ms slack junk blank reach, OF assms(1-7)])
  have all: "reached reach (ms ! j) \<noteq> None" if "j < length ms" for j
    using assms(8) nth_mem[OF that] by blast
  have v: "route cl s = Some (Valid (the (reached reach (ms ! i))))" if "owner ms s i" "s < SLOTS" for i s
  proof -
    have "\<forall>j \<le> i. reached reach (ms ! j) \<noteq> None" using all that(1) le_less_trans by (auto simp: owner_def)
    with r that show ?thesis by (simp add: routed_def)
  qed
  have "cluster_ready cl" if cover: "\<forall>s < SLOTS. \<exists>m \<in> set ms. owns m s"
    unfolding cluster_ready_def
  proof (intro allI impI)
    fix s assume s: "s < SLOTS"
    obtain i where "owner ms s i" using last_master cover s by blast
    then show "\<exists>c. route cl s = Some (Valid c)" using v s by blast
  qed
  moreover have "the (slot_of key) < SLOTS" for key using slot_less[of key] by (simp add: slot_of_eq)
  ultimately show ?thesis using cl v by blast
qed

definition demo_masters :: "master list" where
  "demo_masters = [\<lparr>m_ident = ascii ''a1'', m_ip = ascii ''10.0.0.1'', m_port = 7001, m_cport = ascii ''@17001'',
       m_flags = ascii ''master - 0 0 1 '', m_first = 0, m_last = 8191, m_more = []\<rparr>,
     \<lparr>m_ident = ascii ''b2'', m_ip = ascii ''10.0.0.2'', m_port = 7002, m_cport = [],
       m_flags = ascii ''myself,master - 0 0 2 '', m_first = 8192, m_last = 16383,
       m_more = ascii '' 17-20''\<rparr>]"

definition demo_lines :: "cstr list" where
  "demo_lines = [master_line (demo_masters ! 0), ascii ''c3 10.0.0.3:7003@17003 slave a1 0 0 1 connected'', master_line (demo_masters ! 1)]"

definition demo_nodes :: "(nat, unit) redis_command" where
  "demo_nodes c args w = (Some \<lparr>r_type = REPLY_STRING, r_str = concat (map (\<lambda>l. l @ [10]) demo_lines)\<rparr>, w)"

definition demo_connect :: "(cstr \<Rightarrow> int \<Rightarrow> nat option) \<Rightarrow> (nat, unit) redis_connect" where
  "demo_connect reach ip port w = (reach ip port, w)"

definition blank_cluster :: "nat clusterInfo" where
  "blank_cluster = \<lparr>cl_len = 0, cl_argv = replicate MAXNODES [], cl_parse = replicate MAXNODES None,
     slot_to_host = replicate SLOTS None, globalContext = 0\<rparr>"

lemma set_node_line: "set (node_line ident ip port cport mid a b) \<subseteq>
    set ident \<union> set ip \<union> set cport \<union> set mid \<union> set (ascii ''connected'') \<union> {32, 58, 45} \<union> {c. is_digit c}"
  using decimal_chars by (auto simp: node_line_def)

text \<open>What the allocator left behind the lines: the end of an older line.\<close>

definition demo_stale :: "nat \<Rightarrow> cstr" where
  "demo_stale n = ascii ''ected 5461-10922''"

lemma demo_chars:
  assumes "m \<in> set demo_masters"
  shows "10 \<notin> set (master_line m)" and "118 \<notin> set (master_line m)"
proof -
  have "c \<notin> set (master_line m)" if "c = 10 \<or> c = 118" for c
    using assms that set_node_line[of "m_ident m" "m_ip m" "m_port m" "m_cport m" "m_flags m" "m_first m" "m_last m"]
    by (auto simp: demo_masters_def master_line_def ascii_def is_digit_def)
  then show "10 \<notin> set (master_line m)" "118 \<notin> set (master_line m)" by blast+
qed

lemma no_slave: "118 \<notin> set l \<Longrightarrow> \<not> is_slave l"
  using set_mono_sublist[of "ascii ''slave''" l] by (auto simp: is_slave_def ascii_def)

lemma demo_harmless: "memory_harmless demo_stale demo_masters"
  using demo_chars(2) by (auto simp: memory_harmless_def list_all_iff demo_stale_def ascii_def intro!: no_slave)

lemma demo_describes: "describes (concat (map (\<lambda>l. l @ [10]) demo_lines)) demo_masters"
proof -
  have "\<not> is_slave (master_line m)" if "m \<in> set demo_masters" for m
    by (rule no_slave[OF demo_chars(2)[OF that]])
  moreover have "is_slave (demo_lines ! 1)"
    using strstr_None[of "demo_lines ! 1" "ascii ''slave''"] by (simp add: is_slave_def demo_lines_def ascii_def)
  ultimately have "filter (\<lambda>l. \<not> is_slave l) demo_lines = map master_line demo_masters"
    by (simp add: demo_lines_def demo_masters_def)
  moreover have "list_all (\<lambda>l. 10 \<notin> set l) demo_lines"
    using demo_chars(1) by (simp add: demo_lines_def demo_masters_def ascii_def)
  moreover have "list_all master_ok demo_masters"
    by (simp add: demo_masters_def master_ok_def ascii_def is_digit_def INT_MAX_def SLOTS_def)
  ultimately show ?thesis by (auto simp: describes_def demo_masters_def MAXNODES_def)
qed

theorem connected_cluster_routes_witness:
  "\<exists>cl. connect_cluster (demo_connect (\<lambda>ip port. Some (nat port))) demo_nodes demo_stale (\<lambda>i. replicate SLOTS 7) blank_cluster
      (ascii ''10.0.0.1'') 7001 () = Some (cl, ()) \<and> cluster_ready cl \<and>
    (\<forall>key. owns (demo_masters ! 1) (the (slot_of key)) \<longrightarrow> route cl (the (slot_of key)) = Some (Valid 7002))"
proof -
  let ?r = "\<lambda>(ip :: cstr) port. Some (nat port)"
  have "\<exists>cl w'. connect_cluster (demo_connect ?r) demo_nodes demo_stale (\<lambda>i. replicate SLOTS 7) blank_cluster
      (ascii ''10.0.0.1'') 7001 () = Some (cl, w') \<and>
    (\<forall>key i. owner demo_masters (the (slot_of key)) i \<longrightarrow>
      route cl (the (slot_of key)) = Some (Valid (the (reached ?r (demo_masters ! i))))) \<and>
    ((\<forall>s < SLOTS. \<exists>m \<in> set demo_masters. owns m s) \<longrightarrow> cluster_ready cl)"
  proof (rule connected_cluster_routes[OF _ _ _ demo_harmless])
    show "demo_connect ?r (ascii ''10.0.0.1'') 7001 () = (Some 7001, ())" by (simp add: demo_connect_def)
    show "demo_nodes 7001 [ascii ''cluster'', ascii ''nodes''] () =
      (Some \<lparr>r_type = REPLY_STRING, r_str = concat (map (\<lambda>l. l @ [10]) demo_lines)\<rparr>, ())" by (simp add: demo_nodes_def)
    show "describes (r_str \<lparr>r_type = REPLY_STRING, r_str = concat (map (\<lambda>l. l @ [10]) demo_lines)\<rparr>) demo_masters"
      using demo_describes by simp
  qed (simp_all add: blank_ok_def blank_cluster_def connects_def demo_connect_def reached_def)
  moreover have "\<forall>s < SLOTS. \<exists>m \<in> set demo_masters. owns m s" by (auto simp: demo_masters_def owns_def SLOTS_def)
  ultimately obtain cl where cl: "connect_cluster (demo_connect ?r) demo_nodes demo_stale (\<lambda>i. replicate SLOTS 7) blank_cluster
      (ascii ''10.0.0.1'') 7001 () = Some (cl, ())" "cluster_ready cl"
    "\<And>key i. owner demo_masters (the (slot_of key)) i \<Longrightarrow>
      route cl (the (slot_of key)) = Some (Valid (the (reached ?r (demo_masters ! i))))" by auto
  have "route cl (the (slot_of key)) = Some (Valid 7002)" if "owns (demo_masters ! 1) (the (slot_of key))" for key
    using cl(3)[of key 1] that by (simp add: owner_def reached_def) (simp add: demo_masters_def)
  with cl(1,2) show ?thesis by blast
qed

text \<open>C36: when a master refuses its connection, connecting still returns a cluster, in which the keys in the
  first ranges of that master and of every master after it in the description are lost: getting or
  setting one reads a context that was never written.  As for the routes, the uninitialised memory behind
  a copied line is assumed not to complete the word \<^verbatim>\<open>slave\<close>.\<close>

theorem refused_master_undefined:
  assumes "connect ip port w = (Some c, w0)" and "redis c [ascii ''cluster'', ascii ''nodes''] w0 = (Some r, w1)"
    and "describes (r_str r) ms" and "memory_harmless slack ms" and "\<forall>i. length (junk i) = SLOTS" and "blank_ok blank"
    and "connects connect reach" and "reached reach (ms ! k) = None" and "k \<le> i"
    and "db_ok db key" and "owner ms (the (slot_of (decimal db @ 8 # key))) i"
  shows "\<exists>cl w'. connect_cluster connect redis slack junk blank ip port w = Some (cl, w') \<and>
    set_withdb redis cl key v db w' = None \<and> get_withdb redis cl cap key old db w' = None"
proof -
  let ?s = "the (slot_of (decimal db @ 8 # key))"
  obtain cl w' where cl: "connect_cluster connect redis slack junk blank ip port w = Some (cl, w')"
    and r: "routed reach ms cl"
    by (rule connect_routes[of connect ip port w c w0 redis r w1 ms slack junk blank reach, OF assms(1-7)])
  have "\<not> (\<forall>j \<le> i. reached reach (ms ! j) \<noteq> None)" using assms(8,9) by blast
  moreover have "?s < SLOTS" using slot_less[of "decimal db @ 8 # key"] by (simp add: slot_of_eq)
  ultimately have "route cl ?s = Some Indeterminate" using r assms(11) by (auto simp: routed_def)
  then have "set_withdb redis cl key v db w' = None" "get_withdb redis cl cap key old db w' = None"
    by (simp_all add: set_withdb_def get_withdb_def set_nodb_def get_nodb_def db_key_eq[OF assms(10)] slot_of_eq)
  with cl show ?thesis by blast
qed

theorem refused_master_undefined_witness:
  "\<exists>cl. connect_cluster (demo_connect (\<lambda>ip port. if port = 7001 then None else Some (nat port))) demo_nodes demo_stale
      (\<lambda>i. replicate SLOTS 7) blank_cluster (ascii ''10.0.0.2'') 7002 () = Some (cl, ()) \<and>
    set_withdb demo_nodes cl (ascii ''42'') (ascii ''7'') 1 () = None \<and> get_withdb demo_nodes cl 80 (ascii ''42'') [] 1 () = None"
proof -
  let ?r = "\<lambda>(ip :: cstr) (port :: int). if port = 7001 then None else Some (nat port)"
  let ?s = "the (slot_of (decimal 1 @ 8 # ascii ''42''))"
  have "?s < SLOTS" using slot_less[of "decimal 1 @ 8 # ascii ''42''"] by (simp add: slot_of_eq)
  then have "\<exists>m \<in> set demo_masters. owns m ?s" by (auto simp: demo_masters_def owns_def SLOTS_def)
  then obtain i where i: "owner demo_masters ?s i" by (rule last_master)
  have "\<exists>cl w'. connect_cluster (demo_connect ?r) demo_nodes demo_stale (\<lambda>i. replicate SLOTS 7) blank_cluster
      (ascii ''10.0.0.2'') 7002 () = Some (cl, w') \<and>
    set_withdb demo_nodes cl (ascii ''42'') (ascii ''7'') 1 w' = None \<and> get_withdb demo_nodes cl 80 (ascii ''42'') [] 1 w' = None"
  proof (rule refused_master_undefined[where k = 0 and reach = ?r, OF _ _ _ demo_harmless _ _ _ _ _ _ i])
    show "demo_connect ?r (ascii ''10.0.0.2'') 7002 () = (Some 7002, ())" by (simp add: demo_connect_def)
    show "demo_nodes 7002 [ascii ''cluster'', ascii ''nodes''] () =
      (Some \<lparr>r_type = REPLY_STRING, r_str = concat (map (\<lambda>l. l @ [10]) demo_lines)\<rparr>, ())" by (simp add: demo_nodes_def)
    show "describes (r_str \<lparr>r_type = REPLY_STRING, r_str = concat (map (\<lambda>l. l @ [10]) demo_lines)\<rparr>) demo_masters"
      using demo_describes by simp
    show "reached ?r (demo_masters ! 0) = None" by (simp add: reached_def demo_masters_def)
    show "db_ok 1 (ascii ''42'')" by (simp add: db_ok_small ascii_def)
  qed (simp_all add: blank_ok_def blank_cluster_def connects_def demo_connect_def)
  then show ?thesis by simp
qed

end
