(* ===== verification/ServerDispatch.thy ===== *)
theory ServerDispatch
  imports ServerTheorems
begin

text \<open>
  The distribution of packets over the workers: the event loop of \<^verbatim>\<open>server/server.c\<close> over a
  sequence of packets, which go to the rings in groups of consecutive packets, the workers taking turns.
\<close>

section \<open>Numbers of packets\<close>

text \<open>The worker of the packet that makes the minute counter \<open>m\<close>, and its share of packets counted from \<open>n\<close> on.\<close>

definition worker_no :: "'d configs \<Rightarrow> nat \<Rightarrow> nat" where
  "worker_no conf m = nat ((int m div packets_group conf) mod threads_num conf)"

definition share :: "'d configs \<Rightarrow> nat \<Rightarrow> nat \<Rightarrow> 'p list \<Rightarrow> 'p list" where
  "share conf j n ps = map snd (filter (\<lambda>(m, p). worker_no conf m = j) (enumerate n ps))"

lemma share_simps [simp]:
  "share conf j n [] = []"
  "share conf j n (p # ps) = (if worker_no conf n = j then [p] else []) @ share conf j (Suc n) ps"
  by (simp_all add: share_def)

lemma share_append: "share conf j n (ps @ qs) = share conf j n ps @ share conf j (n + length ps) qs"
  by (induction ps arbitrary: n) simp_all

lemma length_share: "length (share conf j n ps) = card {m \<in> {n..<n + length ps}. worker_no conf m = j}"
proof (induction ps arbitrary: n)
  case (Cons p ps)
  have "{m \<in> {n..<n + length (p # ps)}. worker_no conf m = j} =
      (if worker_no conf n = j then {n} else {}) \<union> {m \<in> {Suc n..<Suc n + length ps}. worker_no conf m = j}"
    by (auto simp: less_Suc_eq_le) (metis Suc_leI le_neq_implies_less)+
  also have "card \<dots> = card (if worker_no conf n = j then {n} else {}) + card {m \<in> {Suc n..<Suc n + length ps}. worker_no conf m = j}"
    by (rule card_Un_disjoint) auto
  finally show ?case using Cons.IH[of "Suc n"] by simp
qed simp

text \<open>In any window of \<open>t\<close> groups of \<open>g\<close> numbers each residue class of groups has \<open>g\<close> members.\<close>

lemma window_count:
  assumes "0 < g" and "j < t"
  shows "card {m \<in> {n..<n + g * t}. (m div g) mod t = j} = g"
proof -
  let ?P = "\<lambda>m. (m div g) mod t = j"
  have gt: "0 < g * t" using assms by simp
  have P: "?P m \<longleftrightarrow> (m mod (g * t)) div g = j" for m
    using assms(1) by (simp add: mod_mult2_eq)
  have "bij_betw (\<lambda>m. m mod (g * t)) {n..<n + g * t} {0..<g * t}"
  proof (rule bij_betw_imageI)
    show inj: "inj_on (\<lambda>m. m mod (g * t)) {n..<n + g * t}"
    proof (rule inj_onI)
      fix a b assume ab: "a \<in> {n..<n + g * t}" "b \<in> {n..<n + g * t}" "a mod (g * t) = b mod (g * t)"
      then have "int (g * t) dvd int a - int b" by (metis mod_eq_dvd_iff zmod_int)
      moreover have "\<bar>int a - int b\<bar> < int (g * t)" using ab(1,2) unfolding atLeastLessThan_iff by linarith
      ultimately show "a = b" using dvd_imp_le_int[of "int a - int b" "int (g * t)"] by force
    qed
    have "(\<lambda>m. m mod (g * t)) ` {n..<n + g * t} \<subseteq> {0..<g * t}" using gt by auto
    moreover have "card ((\<lambda>m. m mod (g * t)) ` {n..<n + g * t}) = card {0..<g * t}"
      using card_image[OF inj] by simp
    ultimately show "(\<lambda>m. m mod (g * t)) ` {n..<n + g * t} = {0..<g * t}"
      by (intro card_subset_eq) simp_all
  qed
  then have "bij_betw (\<lambda>m. m mod (g * t)) {m \<in> {n..<n + g * t}. ?P m} {r \<in> {0..<g * t}. r div g = j}"
    by (rule bij_betw_Collect) (simp only: P)
  then have "card {m \<in> {n..<n + g * t}. ?P m} = card {r \<in> {0..<g * t}. r div g = j}"
    by (rule bij_betw_same_card)
  also have "{r \<in> {0..<g * t}. r div g = j} = {j * g..<j * g + g}"
  proof -
    have le: "j * g + g \<le> g * t" using assms(2) mult_le_mono2[of "Suc j" t g] by (simp add: algebra_simps)
    have d: "r div g = j \<longleftrightarrow> j * g \<le> r \<and> r < j * g + g" for r
    proof
      assume "r div g = j"
      then show "j * g \<le> r \<and> r < j * g + g"
        using div_times_less_eq_dividend[of r g] dividend_less_div_times[OF assms(1), of r] by (simp add: add.commute)
    next
      assume "j * g \<le> r \<and> r < j * g + g"
      then show "r div g = j" by (intro div_nat_eqI) (simp_all add: algebra_simps)
    qed
    have "r \<in> {r \<in> {0..<g * t}. r div g = j} \<longleftrightarrow> r \<in> {j * g..<j * g + g}" for r
      using le unfolding mem_Collect_eq d atLeastLessThan_iff by linarith
    then show ?thesis by (rule set_eqI)
  qed
  finally show ?thesis by simp
qed

lemma windows_count:
  assumes "0 < g" and "j < t"
  shows "card {m \<in> {n..<n + k * (g * t)}. (m div g) mod t = j} = k * g"
proof (induction k arbitrary: n)
  case (Suc k)
  let ?A = "{m \<in> {n..<n + g * t}. (m div g) mod t = j}" and ?B = "{m \<in> {n + g * t..<n + g * t + k * (g * t)}. (m div g) mod t = j}"
  have "{m \<in> {n..<n + Suc k * (g * t)}. (m div g) mod t = j} = ?A \<union> ?B" by auto
  then have "card {m \<in> {n..<n + Suc k * (g * t)}. (m div g) mod t = j} = card (?A \<union> ?B)" by simp
  also have "card (?A \<union> ?B) = card ?A + card ?B" by (rule card_Un_disjoint) auto
  also have "\<dots> = Suc k * g" using Suc.IH[of "n + g * t"] window_count[OF assms, of n] by simp
  finally show ?case .
qed simp

lemma length_share_turns:
  assumes "configs_ok conf" and "int j < threads_num conf" and "length ps = k * (nat (packets_group conf) * nat (threads_num conf))"
  shows "length (share conf j n ps) = k * nat (packets_group conf)"
proof -
  have c: "0 < packets_group conf" "0 < threads_num conf" using assms(1) by (simp_all add: configs_ok_def MIN_THREADS_def)
  then have "worker_no conf m = (m div nat (packets_group conf)) mod nat (threads_num conf)" for m
    by (simp add: worker_no_def nat_mod_distrib nat_div_distrib pos_imp_zdiv_nonneg_iff)
  moreover have "0 < nat (packets_group conf)" "j < nat (threads_num conf)" using c assms(2) by simp_all
  ultimately show ?thesis using windows_count by (simp add: length_share assms(3))
qed

section \<open>The event loop\<close>

text \<open>The event of a packet \<open>(data, fd, now)\<close> that arrives alone.\<close>

definition arrival :: "u8 list \<Rightarrow> u8 list \<times> u32 \<times> timeval \<Rightarrow> event" where
  "arrival junk = (\<lambda>(data, fd, now). \<lparr>err = False, hup = False, readable = True, ev_fd = fd, accepts = [],
     ev_input = [Data data, Would_block], ev_time = now, ev_junk = junk\<rparr>)"

definition stored :: "u32 \<Rightarrow> u8 list \<times> u32 \<times> timeval \<Rightarrow> msg" where
  "stored efd = (\<lambda>(data, fd, now). (data, fd, efd, now))"

definition received :: "server_state \<Rightarrow> nat" where
  "received s = unat (receive_counter_min (stats s))"

definition arrives :: "u32 \<Rightarrow> u8 list \<times> u32 \<times> timeval \<Rightarrow> bool" where
  "arrives sfd = (\<lambda>(data, fd, now). length data = PAYLOAD_SIZE \<and> fd \<noteq> sfd)"

lemma next_is_worker_no:
  assumes "Suc (received s) < 2 ^ 32"
  shows "next_thread conf s = worker_no conf (Suc (received s))"
    and "unat (receive_counter_min (stats s) + 1) = Suc (received s)"
proof -
  show u: "unat (receive_counter_min (stats s) + 1) = Suc (received s)"
    using assms by (simp add: received_def unat_word_ariths)
  show "next_thread conf s = worker_no conf (Suc (received s))"
    by (simp only: next_thread_def worker_no_def uint_nat u)
qed

lemma one_arrival:
  assumes "server_ok conf s" and "arrives sfd p" and "length junk = BUFF_SIZE" and "Suc (received s) < 2 ^ 32"
    and "used (rings s ! worker_no conf (Suc (received s))) \<noteq> 4095"
  obtains s' where "server_dispatch conf efd sfd (arrival junk p) s = Some (Goes s')" and "server_ok conf s'"
    and "received s' = Suc (received s)" and "length (rings s') = length (rings s)"
    and "\<forall>j < length (rings s). items (rings s' ! j) = items (rings s ! j)
      @ (if worker_no conf (Suc (received s)) = j then [stored efd p] else [])"
    and "open_fds s' = open_fds s" and "written s' = written s"
proof -
  obtain data fd now where p: "p = (data, fd, now)" "length data = PAYLOAD_SIZE" "fd \<noteq> sfd"
    using assms(2) by (auto simp: arrives_def)
  note w = next_is_worker_no[OF assms(4)]
  let ?t = "worker_no conf (Suc (received s))"
  have buf: "read_loop [Data data, Would_block] junk = Some (Drained (data @ drop PAYLOAD_SIZE junk))"
    using read_loop_data[of "[data]" junk] p(2) assms(3) by (simp add: BUFF_SIZE_def)
  have m: "sent_message (data @ drop PAYLOAD_SIZE junk, fd, efd, now) = stored efd p"
    using p by (simp add: sent_message_def slice_def stored_def)
  obtain r where r: "processEPOLLIN conf [Data data, Would_block] now junk efd fd s =
      Some (Goes (s\<lparr>stats := server_increReceivePkts (stats s), rings := (rings s)[?t := r]\<rparr>))"
    "ring_ok r" "items r = items (rings s ! ?t) @ [stored efd p]"
    using processEPOLLIN_drained[OF assms(1) buf, of now efd fd, unfolded w(1) m] p(2) assms(5) by auto
  let ?s = "s\<lparr>stats := server_increReceivePkts (stats s), rings := (rings s)[?t := r]\<rparr>"
  have "?t < length (rings s)" using next_thread_ok(2)[OF assms(1)] by (simp only: w(1))
  moreover have "server_dispatch conf efd sfd (arrival junk p) s = Some (Goes ?s)"
    using p(1,3) r(1) by (simp add: server_dispatch_def arrival_def)
  moreover have "server_ok conf ?s"
    using assms(1) r(2) by (auto simp: server_ok_def list_all_iff dest: set_update_subset_insert[THEN subsetD])
  moreover have "received ?s = Suc (received s)"
    using w(2) by (simp add: received_def server_increReceivePkts_def)
  ultimately show thesis using r(3) by (intro that[of ?s]) auto
qed

lemma arrivals_distributed:
  assumes "server_ok conf s" and "list_all (arrives sfd) ps" and "length junk = BUFF_SIZE" and "received s + length ps < 2 ^ 32"
    and "\<forall>j < length (rings s). used (rings s ! j) + length (share conf j (Suc (received s)) ps) \<le> 4095"
  shows "\<exists>s'. server_events conf efd sfd (map (arrival junk) ps) s = Some (Goes s') \<and> server_ok conf s' \<and>
    received s' = received s + length ps \<and> length (rings s') = length (rings s) \<and>
    (\<forall>j < length (rings s). items (rings s' ! j) = items (rings s ! j) @ map (stored efd) (share conf j (Suc (received s)) ps)) \<and>
    open_fds s' = open_fds s \<and> written s' = written s"
  using assms
proof (induction ps arbitrary: s)
  case (Cons p ps)
  let ?n = "Suc (received s)"
  let ?t = "worker_no conf ?n"
  have n: "?n < 2 ^ 32" using Cons.prems(4) by simp
  have t: "?t < length (rings s)" using next_thread_ok(2)[OF Cons.prems(1)] next_is_worker_no(1)[OF n, of conf] by simp
  then have u: "used (rings s ! ?t) \<noteq> 4095" using Cons.prems(5) by fastforce
  have a: "arrives sfd p" using Cons.prems(2) by simp
  obtain s1 where s1: "server_dispatch conf efd sfd (arrival junk p) s = Some (Goes s1)" "server_ok conf s1"
    "received s1 = ?n" "length (rings s1) = length (rings s)"
    "\<forall>j < length (rings s). items (rings s1 ! j) = items (rings s ! j) @ (if ?t = j then [stored efd p] else [])"
    "open_fds s1 = open_fds s" "written s1 = written s"
    by (rule one_arrival[OF Cons.prems(1) a Cons.prems(3) n u])
  have "used (rings s1 ! j) + length (share conf j (Suc ?n) ps) \<le> 4095" if "j < length (rings s)" for j
    using arg_cong[OF s1(5)[rule_format, OF that], of length] Cons.prems(5)[rule_format, OF that] by (simp split: if_splits)
  then have "\<exists>s'. server_events conf efd sfd (map (arrival junk) ps) s1 = Some (Goes s') \<and> server_ok conf s' \<and>
    received s' = received s1 + length ps \<and> length (rings s') = length (rings s1) \<and>
    (\<forall>j < length (rings s1). items (rings s' ! j) = items (rings s1 ! j) @ map (stored efd) (share conf j (Suc (received s1)) ps)) \<and>
    open_fds s' = open_fds s1 \<and> written s' = written s1"
    using Cons.prems(2-4) s1(2-4) by (intro Cons.IH) simp_all
  then show ?case using s1 by auto
qed auto

section \<open>Properties\<close>

text \<open>C14: the load is balanced: after as many packets as all workers take in \<open>k\<close> of their turns, every
  worker has got exactly \<open>k\<close> groups of packets, wherever in a turn the counter started; they are the
  packets of its turns, in the order of their arrival.\<close>

theorem workers_balanced:
  assumes "server_ok conf s" and "list_all (arrives sfd) ps" and "length junk = BUFF_SIZE"
    and "length ps = k * (nat (packets_group conf) * nat (threads_num conf))" and "received s + length ps < 2 ^ 32"
    and "\<forall>j < length (rings s). used (rings s ! j) + k * nat (packets_group conf) \<le> 4095"
  shows "\<exists>s'. server_events conf efd sfd (map (arrival junk) ps) s = Some (Goes s') \<and>
    (\<forall>j < length (rings s). items (rings s' ! j) = items (rings s ! j) @ map (stored efd) (share conf j (Suc (received s)) ps) \<and>
      length (share conf j (Suc (received s)) ps) = k * nat (packets_group conf))"
proof -
  have share: "length (share conf j n ps) = k * nat (packets_group conf)" if "j < length (rings s)" for j n
    using assms(1) that by (intro length_share_turns assms(4)) (auto simp: server_ok_def)
  have "\<forall>j < length (rings s). used (rings s ! j) + length (share conf j (Suc (received s)) ps) \<le> 4095"
    using assms(6) share by simp
  from arrivals_distributed[OF assms(1-3,5) this, of efd] share show ?thesis by blast
qed

definition demo_arrivals :: "(u8 list \<times> u32 \<times> timeval) list" where
  "demo_arrivals = concat (replicate 200 [(replicate 146 1, 5, (0, 1)), (replicate 146 2, 7, (0, 2))])"

lemma demo_arrivals_ok: "list_all (arrives 4) demo_arrivals" "length demo_arrivals = 400"
proof -
  have "set demo_arrivals \<subseteq> {(replicate 146 1, 5, (0, 1)), (replicate 146 2, 7, (0, 2))}"
    by (auto simp: demo_arrivals_def split: if_splits)
  then show "list_all (arrives 4) demo_arrivals" by (auto simp: list_all_iff arrives_def dest!: subsetD)
  show "length demo_arrivals = 400" by (simp add: demo_arrivals_def length_concat sum_list_replicate)
qed

theorem workers_balanced_witness:
  "\<exists>s'. server_events demo_server_configs 3 4 (map (arrival (replicate 200 0)) demo_arrivals) demo_state = Some (Goes s') \<and>
    (\<forall>j < length (rings demo_state). items (rings s' ! j) = items (rings demo_state ! j) @ map (stored 3)
        (share demo_server_configs j (Suc (received demo_state)) demo_arrivals) \<and>
      length (share demo_server_configs j (Suc (received demo_state)) demo_arrivals) = 1 * nat (packets_group demo_server_configs))"
  by (rule workers_balanced[OF demo_server_ok demo_arrivals_ok(1)])
    (simp_all add: BUFF_SIZE_def received_def demo_state_def zero_server_statistics_def demo_arrivals_ok(2) demo_server_configs_def)

end
