(* ===== verification/ClientUpdate.thy ===== *)
theory ClientUpdate
  imports ClientSafety
begin

text \<open>
  A change of the number of connections while the client runs: the new settings are read by the update
  thread of \<^verbatim>\<open>client/client.c\<close>, which opens connections itself and leaves the closing of them
  to the next round of the event loop.
\<close>

section \<open>The new settings\<close>

definition settings_are :: "'d::{linorder,zero,one} config_file \<Rightarrow> int \<Rightarrow> bool" where
  "settings_are file c \<longleftrightarrow> lookup_int file ''epoch'' \<noteq> None \<and> lookup_int file ''burst'' \<noteq> None \<and>
     lookup_int file ''connections'' = Some c \<and> lookup_float file ''requestRate'' \<noteq> None \<and> lookup_int file ''kill'' = Some 0"

lemma updateEpoch_read:
  assumes "settings_are file c" and "0 \<le> c" and "c \<le> INT_MAX" and "0 \<le> c_connections cf0" and "c_connections cf0 \<le> INT_MAX"
  obtains cfg where "client_updateEpoch scale (Some file) cf0 =
      (if c = c_connections cf0 then 0 else if c_connections cf0 < c then INCRE else DECRE, cfg)"
    and "c_connections cfg = c" and "kill cfg = 0" and "c_ports_count cfg = c_ports_count cf0"
proof -
  have "(word_of_int (c_connections cf0) :: u32) < word_of_int c \<longleftrightarrow> c_connections cf0 < c"
    using assms(2-5) by (simp add: word_less_def uint_word_of_int INT_MAX_def)
  then have "\<exists>cfg. client_updateEpoch scale (Some file) cf0 =
      (if c = c_connections cf0 then 0 else if c_connections cf0 < c then INCRE else DECRE, cfg) \<and>
    c_connections cfg = c \<and> kill cfg = 0 \<and> c_ports_count cfg = c_ports_count cf0"
    using assms(1) by (auto simp: settings_are_def client_updateEpoch_def update_connections_def Let_def)
  then show thesis using that by blast
qed

section \<open>Fewer connections\<close>

lemma closable_close_all:
  assumes "distinct fds" and "set fds \<subseteq> {0..<length (packets_time s)}" and "fd < length (packets_time s)"
  shows "closable efd (close_all fds s) fd \<longleftrightarrow> closable efd s fd \<and> fd \<notin> set fds"
  using assms fold_entries[of fds "packets_time s" "\<lambda>fd p. p\<lparr>connectionClosed := 1\<rparr>"]
  by (auto simp: closable_def close_all_def)

text \<open>C20: when the settings ask for fewer connections, the update thread leaves the table alone and the
  next round of the event loop closes connections: the first open ones behind the head of the map, in the
  order of the map, up to the difference, and no other.  The connection at the head of the map is never
  closed, even when it is open (the loop over the map starts at 1), so that one connection too few is
  closed when all others are closed already; the count of the port falls by the whole difference, and the
  request is forgotten.  No other closing is pending before.\<close>

theorem connections_reduced:
  assumes "client_inv efd st" and "c_ports_count (conf st) = 1" and "close_conns st = [0]"
    and "settings_are file c" and "0 \<le> c" and "c < c_connections (conf st)" and "c_connections (conf st) \<le> INT_MAX"
    and "fds = take (nat (c_connections (conf st) - c)) (filter (closable efd (table st)) (tl (connsMap (table st))))"
  shows "\<exists>st1 st2. client_update_cfg scale vtenth vdelay now attempts (Some file) st = Some (False, st1) \<and>
    table st1 = table st \<and> epollLoop_round upper efd 0 [] st1 = Some st2 \<and> close_conns st2 = [0] \<and>
    hd (port_conns st2) = hd (port_conns st) - (c_connections (conf st) - c) \<and>
    active_conns (table st2) = active_conns (table st) - int (length fds) \<and>
    (\<forall>fd < MAX_EVENTS. closable efd (table st2) fd \<longleftrightarrow> closable efd (table st) fd \<and> fd \<notin> set fds)"
proof -
  let ?d = "c_connections (conf st) - c"
  obtain cfg where cfg: "client_updateEpoch scale (Some file) (conf st) = (DECRE, cfg)" "c_connections cfg = c" "kill cfg = 0"
      "c_ports_count cfg = 1"
    by (rule updateEpoch_read[OF assms(4,5), of "conf st" scale]) (use assms(2,5-7) in auto)
  let ?st1 = "st\<lparr>conf := cfg, close_conns := [?d]\<rparr>"
  have 1: "client_update_cfg scale vtenth vdelay now attempts (Some file) st = Some (False, ?st1)"
    using cfg assms(3,6) by (simp add: client_update_cfg_def updateConnections_def deleteConnections_def)
  obtain n where n: "port_conns st = [n]" using assms(1) by (cases "port_conns st") (auto simp: client_inv_def)
  have ok: "conns_ok (table st)" using assms(1) by (simp add: client_inv_def table_ok_def)
  let ?st2 = "?st1\<lparr>table := close_all fds (table st), port_conns := [n - ?d], close_conns := [0]\<rparr>"
  have 2: "epollLoop_round upper efd 0 [] ?st1 = Some ?st2"
    using assms(6,8) n closeConnections_eq[OF ok, of efd ?d] by (simp add: epollLoop_round_def)
  have "distinct fds" "set fds \<subseteq> {0..<length (packets_time (table st))}"
    using taken_ok[OF ok] ok by (simp_all add: assms(8) conns_ok_def)
  then have "closable efd (close_all fds (table st)) fd \<longleftrightarrow> closable efd (table st) fd \<and> fd \<notin> set fds" if "fd < MAX_EVENTS" for fd
    using closable_close_all that ok by (simp add: conns_ok_def)
  with 1 2 n show ?thesis by (simp add: close_all_def)
qed

definition demo_running :: "int \<Rightarrow> int client_state" where
  "demo_running c = idle_client\<lparr>conf := (conf idle_client)\<lparr>c_connections := c, c_ports_count := 1\<rparr>\<rparr>"

lemma demo_running_inv: "client_inv 3 (demo_running c)"
  using idle_client_inv by (simp add: demo_running_def client_inv_def)

lemma demo_running_fields: "c_connections (conf (demo_running c)) = c" "c_ports_count (conf (demo_running c)) = 1"
  "close_conns (demo_running c) = [0]" "client_ips (demo_running c) = 1" "dead_conns (table (demo_running c)) = 0"
  "c_epoch (conf (demo_running c)) = 60"
  by (simp_all add: demo_running_def idle_client_def demo_client_def open_table_def blank_table_def demo_client_conf_def client_initConfigs_def)

lemma demo_settings_are: "settings_are (demo_settings c b) c"
  by (simp add: settings_are_def demo_settings_def)

lemma upt_three: "3 \<le> n \<Longrightarrow> [0..<n] = 0 # 1 # 2 # [3..<n]"
  using upt_add_eq_append[of 0 3 "n - 3"] by (simp add: upt_rec)

lemma demo_taken: "take 2 (filter (closable 3 (table (demo_running 42))) (tl (connsMap (table (demo_running 42))))) = [1, 2]"
proof -
  have c: "closable 3 (table (demo_running 42)) fd" if "fd < MAX_EVENTS" for fd
    using that by (simp add: demo_running_def idle_client_def open_table_def closed_entry_def closable_def)
  have "connsMap (table (demo_running 42)) = [0..<MAX_EVENTS]"
    by (simp add: demo_running_def idle_client_def open_table_def blank_table_def)
  also have "\<dots> = 0 # 1 # 2 # [3..<MAX_EVENTS]"
    by (rule upt_three) (simp add: MAX_EVENTS_def)
  finally have "tl (connsMap (table (demo_running 42))) = 1 # 2 # [3..<MAX_EVENTS]" by simp
  moreover have "closable 3 (table (demo_running 42)) 1" "closable 3 (table (demo_running 42)) 2"
    by (rule c, simp add: MAX_EVENTS_def)+
  ultimately show ?thesis by simp
qed

theorem connections_reduced_witness:
  "\<exists>st1 st2. client_update_cfg exact_scale (\<lambda>e g. e) (\<lambda>u e g. e) ((0, 0), (0, 0)) (\<lambda>ip i. Bind_fails) (Some (demo_settings 40 5000)) (demo_running 42)
      = Some (False, st1) \<and>
    table st1 = table (demo_running 42) \<and> epollLoop_round (\<lambda>r. 100) 3 0 [] st1 = Some st2 \<and> close_conns st2 = [0] \<and>
    hd (port_conns st2) = hd (port_conns (demo_running 42)) - 2 \<and>
    active_conns (table st2) = active_conns (table (demo_running 42)) - 2 \<and>
    closable 3 (table st2) 0 \<and> \<not> closable 3 (table st2) 1 \<and> \<not> closable 3 (table st2) 2 \<and> closable 3 (table st2) 3"
proof -
  have c: "closable 3 (table (demo_running 42)) 0" "closable 3 (table (demo_running 42)) 3"
    by (simp_all add: demo_running_def idle_client_def open_table_def closed_entry_def closable_def MAX_EVENTS_def)
  have "\<exists>st1 st2. client_update_cfg exact_scale (\<lambda>e g. e) (\<lambda>u e g. e) ((0, 0), (0, 0)) (\<lambda>ip i. Bind_fails) (Some (demo_settings 40 5000)) (demo_running 42)
      = Some (False, st1) \<and>
    table st1 = table (demo_running 42) \<and> epollLoop_round (\<lambda>r. 100) 3 0 [] st1 = Some st2 \<and> close_conns st2 = [0] \<and>
    hd (port_conns st2) = hd (port_conns (demo_running 42)) - (c_connections (conf (demo_running 42)) - 40) \<and>
    active_conns (table st2) = active_conns (table (demo_running 42)) - int (length [1, 2 :: nat]) \<and>
    (\<forall>fd < MAX_EVENTS. closable 3 (table st2) fd \<longleftrightarrow> closable 3 (table (demo_running 42)) fd \<and> fd \<notin> set [1, 2])"
    by (rule connections_reduced[OF demo_running_inv[of 42] _ _ demo_settings_are[of 40 5000]])
      (simp_all add: INT_MAX_def demo_running_fields demo_taken)
  then obtain st1 st2 where st: "client_update_cfg exact_scale (\<lambda>e g. e) (\<lambda>u e g. e) ((0, 0), (0, 0)) (\<lambda>ip i. Bind_fails) (Some (demo_settings 40 5000)) (demo_running 42)
      = Some (False, st1)"
    "table st1 = table (demo_running 42)" "epollLoop_round (\<lambda>r. 100) 3 0 [] st1 = Some st2" "close_conns st2 = [0]"
    "hd (port_conns st2) = hd (port_conns (demo_running 42)) - 2" "active_conns (table st2) = active_conns (table (demo_running 42)) - 2"
    "\<forall>fd < MAX_EVENTS. closable 3 (table st2) fd \<longleftrightarrow> closable 3 (table (demo_running 42)) fd \<and> fd \<notin> set [1, 2]"
    by (auto simp: demo_running_fields)
  have "0 < MAX_EVENTS" "1 < MAX_EVENTS" "2 < MAX_EVENTS" "3 < MAX_EVENTS" by (simp_all add: MAX_EVENTS_def)
  then have "closable 3 (table st2) 0 \<and> \<not> closable 3 (table st2) 1 \<and> \<not> closable 3 (table st2) 2 \<and> closable 3 (table st2) 3"
    using st(7) c by simp
  with st(1-6) show ?thesis by blast
qed

section \<open>More connections\<close>

lemma nothing_to_restore: "dead_conns s = 0 \<Longrightarrow> 0 < n \<Longrightarrow> restoreConnections vdelay efd n ep iv now s = Some (n, s)"
proof -
  assume "dead_conns s = 0" "0 < n"
  moreover have "[0..<MAX_EVENTS] = 0 # [1..<MAX_EVENTS]" using upt_conv_Cons[of 0 MAX_EVENTS] by (simp add: MAX_EVENTS_def)
  ultimately show ?thesis by (simp add: restoreConnections_def)
qed

text \<open>C21: when the settings ask for more connections and none is closed, the update thread at once makes
  the same whole number of attempts on each of its addresses; when all succeed, their descriptors are open
  and idle.  The connections of the port are counted as if the remainder had been opened too.  Assumed is
  that the burst interval of the new settings is not zero (a small number of connections times a small burst
  scales to zero, and then the code divides by zero), that there are at least as many new connections as
  addresses and at most the bound of 60000 for each, and that the descriptors fit the table.\<close>

theorem connections_added:
  assumes "client_inv efd st" and "c_ports_count (conf st) = 1" and "dead_conns (table st) = 0"
    and "settings_are file c" and "c \<le> INT_MAX" and "0 \<le> c_connections (conf st)" and "d = c - c_connections (conf st)"
    and "0 < client_ips st" and "client_ips st \<le> d" and "d div client_ips st \<le> MAX_CONN_PER_PORT"
    and "interval (snd (client_updateEpoch scale (Some file) (conf st))) \<noteq> 0"
    and "fds = map (\<lambda>(ip, i). f ip i) (List.product [0..<nat (client_ips st)] [0..<nat (d div client_ips st)])"
    and "list_all (\<lambda>fd. fd < MAX_EVENTS) fds"
  shows "\<exists>st1. client_update_cfg scale vtenth vdelay now (\<lambda>ip i. Connected (f ip i)) (Some file) st = Some (False, st1) \<and>
    list_all (opened efd (table st1)) fds \<and> int (length fds) = d - d mod client_ips st \<and>
    hd (port_conns st1) = hd (port_conns st) + d \<and> total_conns (table st1) = total_conns (table st)"
proof -
  have d: "0 < d" using assms(8,9) by simp
  obtain cfg where cfg: "client_updateEpoch scale (Some file) (conf st) = (INCRE, cfg)" "c_connections cfg = c" "kill cfg = 0"
      "c_ports_count cfg = 1"
    by (rule updateEpoch_read[OF assms(4), of "conf st" scale]) (use assms(2,5-7) d in auto)
  obtain n where n: "port_conns st = [n]" using assms(1) by (cases "port_conns st") (auto simp: client_inv_def)
  have e: "efds st = [efd]" "length (packets_time (table st)) = MAX_EVENTS"
    using assms(1) by (simp_all add: client_inv_def table_ok_def conns_ok_def)
  obtain t where t: "createEvents vdelay cfg (client_ips st) d efd (snd now) (\<lambda>ip i. Connected (f ip i)) (table st) = Some t"
    "list_all (opened efd t) fds" "int (length fds) = d - d mod client_ips st" "total_conns t = total_conns (table st)"
    using createEvents_opens[OF assms(8-10) _ e(2), of cfg f vdelay efd "snd now"] assms(11-13) cfg(1) by auto
  have "client_update_cfg scale vtenth vdelay now (\<lambda>ip i. Connected (f ip i)) (Some file) st =
      Some (False, st\<lparr>conf := cfg, table := t, port_conns := [n + d]\<rparr>)"
    using cfg d assms(7) n e(1) t(1) nothing_to_restore[OF assms(3) d]
    by (simp add: client_update_cfg_def updateConnections_def addConnections_def)
  then show ?thesis using t(2-4) n by simp
qed

theorem connections_added_witness:
  "\<exists>st1. client_update_cfg exact_scale (\<lambda>e g. e) (\<lambda>u e g. e) ((0, 0), (0, 0)) (\<lambda>ip i. Connected (20 + i)) (Some (demo_settings 42 5000)) (demo_running 40)
      = Some (False, st1) \<and>
    list_all (opened 3 (table st1)) [20, 21] \<and> int (length [20, 21 :: nat]) = 2 - 2 mod client_ips (demo_running 40) \<and>
    hd (port_conns st1) = hd (port_conns (demo_running 40)) + 2 \<and> total_conns (table st1) = total_conns (table (demo_running 40))"
proof (rule connections_added[OF demo_running_inv _ _ demo_settings_are])
  have "interval (snd (client_updateEpoch exact_scale (Some (demo_settings 42 5000)) cf)) \<noteq> 0" if "c_connections cf = 40" "c_epoch cf = 60" for cf
    using that by (simp add: client_updateEpoch_def demo_settings_def update_connections_def burst_interval_def Let_def S_TO_US_def exact_scale_def BASE_CONNS_def int32_def)
  then show "interval (snd (client_updateEpoch exact_scale (Some (demo_settings 42 5000)) (conf (demo_running 40)))) \<noteq> 0"
    using demo_running_fields by simp
qed (simp_all add: demo_running_fields INT_MAX_def MAX_CONN_PER_PORT_def MAX_EVENTS_def upt_rec)

end
