(* ===== verification/ClientTurns.thy ===== *)
theory ClientTurns
  imports ClientSafety
begin

text \<open>
  The life of a request on one connection of \<^verbatim>\<open>client/client.c\<close>: from the visit of the sweep that arms the
  connection to the answer, while the threads of the client go on with everything else.
\<close>

section \<open>Everything else\<close>

text \<open>
  The steps in which nothing is reported for the descriptor: the event loop handles other connections or
  closes some, the sweep visits any descriptor (also this one), and the update thread makes a round, in
  which the kernel does not give out the descriptor again.
\<close>

inductive quiet_step :: "int \<Rightarrow> nat \<Rightarrow> 'd::{linorder,zero,one} client_state \<Rightarrow> 'd client_state \<Rightarrow> bool" for efd fd where
  other: "client_dispatch ub efd 0 e st = Some st' \<Longrightarrow> registered efd st (ce_fd e) \<Longrightarrow> ce_fd e \<noteq> fd \<Longrightarrow> quiet_step efd fd st st'"
| closing: "epollLoop_round upper efd 0 [] st = Some st' \<Longrightarrow> quiet_step efd fd st st'"
| sweep: "sweep_one (c_epoch (conf st)) clk i (table st) = Some t \<Longrightarrow> quiet_step efd fd st (st\<lparr>table := t\<rparr>)"
| update: "client_update_cfg scale vtenth vdelay now att cf st = Some (False, st') \<Longrightarrow> (\<And>ip i. att ip i \<noteq> Connected fd) \<Longrightarrow>
    quiet_step efd fd st st'"

lemma quiet_is_step: "quiet_step efd fd st st' \<Longrightarrow> client_step efd st st'"
  by (induction rule: quiet_step.induct) (auto intro: client_step.intros)

section \<open>What they leave alone\<close>

text \<open>The sending flag and the registration of the descriptor, and what was sent on it.\<close>

definition watched :: "int \<Rightarrow> nat \<Rightarrow> conn_table \<Rightarrow> int \<times> ep_event option" where
  "watched efd fd t = (sendingFlag (packets_time t ! fd), interest t (efd, fd))"

definition sent_on :: "nat \<Rightarrow> 'd client_state \<Rightarrow> u8 list list" where
  "sent_on fd st = map snd (filter (\<lambda>x. fst x = fd) (wire st))"

lemma watched_update:
  assumes "update_entry f i s = Some t" and "i \<noteq> fd \<or> (\<forall>p. sendingFlag (f p) = sendingFlag p)"
  shows "watched efd fd t = watched efd fd s"
  using assms by (cases "i = fd") (auto simp: update_entry_Some watched_def nth_list_update)

lemma watched_counts:
  "watched efd fd (s\<lparr>active_conns := a\<rparr>) = watched efd fd s" "watched efd fd (s\<lparr>dead_conns := d\<rparr>) = watched efd fd s"
  "watched efd fd (s\<lparr>total_conns := a\<rparr>) = watched efd fd s"
  by (simp_all add: watched_def)

lemma watched_closeConnection: "closeConnection e i s = Some (r, t) \<Longrightarrow> watched efd fd t = watched efd fd s"
  by (auto simp: closeConnection_def watched_counts watched_update split: Option.bind_splits if_splits)

lemma watched_restoreConnection: "restoreConnection e i s = Some (r, t) \<Longrightarrow> watched efd fd t = watched efd fd s"
  by (auto simp: restoreConnection_def watched_counts watched_update split: Option.bind_splits if_splits)

lemma watched_setEventSendTime: "setEventSendTime i g iv now sent s = Some t \<Longrightarrow> watched efd fd t = watched efd fd s"
  by (auto simp: setEventSendTime_def watched_update split: if_splits option.splits)

lemma watched_setEventRecvTime: "setEventRecvTime i g now s = Some t \<Longrightarrow> watched efd fd t = watched efd fd s"
  by (auto simp: setEventRecvTime_def watched_update split: if_splits)

lemma watched_setVirtualEventTime: "setVirtualEventTime vd i c tm ep iv s = Some t \<Longrightarrow> watched efd fd t = watched efd fd s"
  by (auto simp: setVirtualEventTime_def Let_def watched_setEventSendTime watched_setEventRecvTime split: Option.bind_splits)

lemma watched_close_loop: "close_loop e n is s = Some t \<Longrightarrow> watched efd fd t = watched efd fd s"
  by (induction e n "is" s rule: close_loop.induct)
    (auto simp: watched_closeConnection split: Option.bind_splits if_splits)

lemma watched_restore_loop: "restore_loop vd e ep iv now n is s = Some (r, t) \<Longrightarrow> watched efd fd t = watched efd fd s"
proof (induction "is" arbitrary: n s)
  case (Cons i "is")
  from Cons.prems show ?case
    by (auto simp: watched_counts watched_restoreConnection watched_setVirtualEventTime dest!: Cons.IH
        split: Option.bind_splits if_splits)
qed (auto simp: watched_counts split: if_splits)

lemma watched_connect_one:
  "connect_one vd cfg e tot tm a (c, s) = Some (d, t) \<Longrightarrow> a \<noteq> Connected fd \<Longrightarrow> watched efd fd t = watched efd fd s"
  by (auto simp: connect_one_def setEventTimeEfd_def Let_def watched_setVirtualEventTime watched_update
      split: attempt.splits Option.bind_splits)

lemma watched_createEvents:
  assumes "createEvents vd cfg ips c e tm att s = Some t" and "\<And>ip i. att ip i \<noteq> Connected fd"
  shows "watched efd fd t = watched efd fd s"
proof -
  obtain tot xs d where "foldM (\<lambda>(ip, i). connect_one vd cfg e tot tm (att ip i)) xs (0, s) = Some (d, t)"
    using assms(1) by (auto simp: createEvents_def Let_def split: if_splits)
  from foldM_keeps[where P = "\<lambda>(c, u). watched efd fd u = watched efd fd s", OF this] show ?thesis
    using watched_connect_one assms(2) by fastforce
qed

text \<open>The event loop on another descriptor.\<close>

lemma watched_drop:
  assumes "drop_connection port i st = Some st'" and "i \<noteq> fd"
  shows "watched efd fd (table st') = watched efd fd (table st) \<and> wire st' = wire st"
proof -
  obtain t ns where t: "client_deleteEpollEvent i (table st) = Some t" "st' = st\<lparr>table := t, port_conns := ns\<rparr>"
    using assms(1) by (auto simp: drop_connection_def split: Option.bind_splits)
  then have "watched efd fd t = watched efd fd (table st)"
    using assms(2) by (auto simp: client_deleteEpollEvent_def watched_def update_entry_Some split: Option.bind_splits)
  with t(2) show ?thesis by simp
qed

lemma watched_modify:
  "client_modifyEpollEvent e i ev s = Some t \<Longrightarrow> i \<noteq> fd \<Longrightarrow> watched efd fd t = watched efd fd s"
  by (auto simp: client_modifyEpollEvent_def client_addEpollEvent_def setEventTimeEfd_def update_entry_Some watched_def Let_def
      split: option.splits Option.bind_splits if_splits)

lemma watched_after_write:
  assumes "after_write e ty data efd' port i st = Some st'" and "i \<noteq> fd"
  shows "watched efd fd (table st') = watched efd fd (table st) \<and> sent_on fd st' = sent_on fd st"
proof (cases "\<exists>c. send_result e = Wrote c \<and> c \<noteq> 0")
  case False
  then show ?thesis
    using assms watched_drop[of port i st st' fd efd]
    by (auto simp: after_write_def sent_on_def split: write_result.splits if_splits)
next
  case True
  then obtain c where c: "send_result e = Wrote c" "c \<noteq> 0" by blast
  obtain t u where t: "client_modifyEpollEvent efd' i EPOLLIN (table st) = Some t \<or> resetSendPkt i (table st) = Some t"
    and u: "setEventSendTime i None (interval (conf st)) (send_now e) (send_last e) t = Some u"
    and st': "table st' = u" "wire st' = wire st @ [(i, take c data)]"
    using assms(1) c by (cases "ty = CLIENT_REQUEST_PKT") (auto simp: after_write_def Let_def split: Option.bind_splits, blast+)
  have "watched efd fd t = watched efd fd (table st)"
    using t assms(2) by (auto simp: resetSendPkt_def watched_update dest: watched_modify)
  then show ?thesis using watched_setEventSendTime[OF u] assms(2) by (simp add: st' sent_on_def)
qed

lemma watched_dispatch:
  assumes "client_dispatch ub efd' port e st = Some st'" and "ce_fd e \<noteq> fd"
  shows "watched efd fd (table st') = watched efd fd (table st) \<and> sent_on fd st' = sent_on fd st"
proof -
  have send: "watched efd fd (table st') = watched efd fd (table st) \<and> sent_on fd st' = sent_on fd st"
    if "send_packet (ce_send e) ub efd' port (ce_fd e) st = Some st'"
  proof -
    note h = that
    obtain ty data c where "after_write (ce_send e) ty data efd' port (ce_fd e) (st\<lparr>pktTypeCounter := c\<rparr>) = Some st'"
      using h by (auto simp: send_packet_def Let_def split: Option.bind_splits prod.splits)
    from watched_after_write[OF this assms(2), of efd] show ?thesis by (simp add: sent_on_def)
  qed
  have receive: "watched efd fd (table st') = watched efd fd (table st) \<and> sent_on fd st' = sent_on fd st"
    if "receive_packet (ce_receive e) (ce_now e) port (ce_fd e) st = Some st'"
    using that assms(2) watched_drop[of port "ce_fd e" st st' fd efd]
    by (auto simp: receive_packet_def resetSendPkt_def sent_on_def watched_update dest!: watched_setEventRecvTime
        split: receive_result.splits if_splits Option.bind_splits)
  show ?thesis
    using assms send receive watched_drop[of port "ce_fd e" st st' fd efd]
    by (auto simp: client_dispatch_def sent_on_def split: if_splits)
qed

lemma watched_closing:
  assumes "epollLoop_round upper efd' port [] st = Some st'"
  shows "watched efd fd (table st') = watched efd fd (table st) \<and> wire st' = wire st"
  using assms watched_close_loop[of efd' _ _ "table st" _ efd fd]
  by (auto simp: epollLoop_round_def closeConnections_def foldM_Nil split: Option.bind_splits if_splits)

text \<open>The update thread.\<close>

lemma watched_addConnections:
  fixes st :: "'d client_state"
  assumes "addConnections vtenth vd now att c st = Some st'" and "\<And>ip i. att ip i \<noteq> Connected fd"
  shows "watched efd fd (table st') = watched efd fd (table st) \<and> wire st' = wire st"
proof -
  define P where "P s \<longleftrightarrow> watched efd fd (table s) = watched efd fd (table st) \<and> wire s = wire st" for s :: "'d client_state"
  have step: "P s'" if "do {
         efd \<leftarrow> load (efds s) port;
         (restore_left, t) \<leftarrow> restoreConnections vtenth efd k (c_epoch (conf s)) (interval (conf s)) (fst now) (table s);
         t \<leftarrow> createEvents vd (conf s) (client_ips s) restore_left efd (snd now) att t;
         n \<leftarrow> load (port_conns s) port;
         ns \<leftarrow> store (port_conns s) port (n + k);
         Some (s\<lparr>table := t, port_conns := ns\<rparr>)
       } = Some s'" and "P s" for port s s' k
  proof -
    note h = that
    obtain e t r u ns where "restoreConnections vtenth e k (c_epoch (conf s)) (interval (conf s)) (fst now) (table s) = Some (r, t)"
      "createEvents vd (conf s) (client_ips s) r e (snd now) att t = Some u" "s' = s\<lparr>table := u, port_conns := ns\<rparr>"
      using h(1) by (auto split: Option.bind_splits)
    moreover from this have "watched efd fd u = watched efd fd t" by (intro watched_createEvents[OF _ assms(2)])
    ultimately show ?thesis
      using h(2) watched_restore_loop[of vtenth e _ _ "fst now" k _ "table s" r t efd fd] by (simp add: restoreConnections_def P_def)
  qed
  have "P st" by (simp add: P_def)
  with assms(1) have "P st'"
    by (auto simp: addConnections_def Let_def split: if_splits elim!: foldM_keeps[where P = P] intro: step)
  then show ?thesis by (simp add: P_def)
qed

lemma watched_deleteConnections: "deleteConnections c st = Some st' \<Longrightarrow> table st' = table st \<and> wire st' = wire st"
  by (auto simp: deleteConnections_def Let_def split: if_splits Option.bind_splits
      elim!: foldM_keeps[where P = "\<lambda>s. table s = table st \<and> wire s = wire st"])

lemma watched_update_cfg:
  assumes "client_update_cfg scale vtenth vd now att cf st = Some (False, st')" and "\<And>ip i. att ip i \<noteq> Connected fd"
  shows "watched efd fd (table st') = watched efd fd (table st) \<and> wire st' = wire st"
proof -
  obtain flag cfg where u: "client_updateEpoch scale cf (conf st) = (flag, cfg)" by fastforce
  have a: "addConnections vtenth vd now att c (st\<lparr>conf := cfg\<rparr>) = Some st' \<Longrightarrow>
      watched efd fd (table st') = watched efd fd (table st) \<and> wire st' = wire st" for c
    using watched_addConnections[of vtenth vd now att c "st\<lparr>conf := cfg\<rparr>" st' fd efd] assms(2) by simp
  have d: "deleteConnections c (st\<lparr>conf := cfg\<rparr>) = Some st' \<Longrightarrow>
      watched efd fd (table st') = watched efd fd (table st) \<and> wire st' = wire st" for c
    using watched_deleteConnections[of c "st\<lparr>conf := cfg\<rparr>" st'] by simp
  show ?thesis
    using assms(1) u by (auto simp: client_update_cfg_def updateConnections_def Let_def split: if_splits dest: a d)
qed

section \<open>The turn of a connection\<close>

text \<open>The descriptor is flagged as sending and registered for an event.\<close>

definition busy :: "int \<Rightarrow> nat \<Rightarrow> ep_event \<Rightarrow> 'd client_state \<Rightarrow> bool" where
  "busy efd fd ev st \<longleftrightarrow> client_inv efd st \<and> fd < MAX_EVENTS \<and> watched efd fd (table st) = (1, Some ev)"

lemma watched_sweep_one:
  assumes "sweep_one ep clk i s = Some t" and "table_ok efd s" and "fd < MAX_EVENTS" and "fst (watched efd fd s) = 1"
  shows "watched efd fd t = watched efd fd s"
proof -
  have l: "length (packets_time s) = MAX_EVENTS" using assms(2) by (simp add: table_ok_def conns_ok_def)
  then have i: "i < MAX_EVENTS" using assms(1) by (auto simp: sweep_one_def entry_def load_def split: if_splits Option.bind_splits)
  have "conn efd t fd = conn efd s fd"
    using sweep_one_conn[OF assms(1,2) i, of fd] assms(4) by (cases "fd = i") (simp_all add: swept_def conn_def due_def watched_def)
  then show ?thesis by (simp add: conn_def watched_def)
qed

lemma quiet_keeps:
  assumes "quiet_step efd fd st st'" and "busy efd fd ev st"
  shows "busy efd fd ev st' \<and> sent_on fd st' = sent_on fd st"
proof -
  have inv: "client_inv efd st'" by (rule client_step_keeps[OF quiet_is_step[OF assms(1)]]) (use assms(2) in \<open>simp add: busy_def\<close>)
  have b: "client_inv efd st" "fd < MAX_EVENTS" "watched efd fd (table st) = (1, Some ev)" using assms(2) by (simp_all add: busy_def)
  have "watched efd fd (table st') = watched efd fd (table st) \<and> sent_on fd st' = sent_on fd st"
    using assms(1)
  proof cases
    case (other ub e)
    from watched_dispatch[OF other(1,3)] show ?thesis .
  next
    case (closing upper)
    from watched_closing[OF closing] show ?thesis by (simp add: sent_on_def)
  next
    case (sweep clk i t)
    with watched_sweep_one[OF sweep(2) _ b(2), of efd] b show ?thesis by (simp add: sent_on_def client_inv_def)
  next
    case (update scale vtenth vd now att cf)
    from watched_update_cfg[OF update] show ?thesis by (simp add: sent_on_def)
  qed
  with inv b show ?thesis by (simp add: busy_def)
qed

lemma quiet_run_keeps:
  assumes "(quiet_step efd fd)\<^sup>*\<^sup>* st st'" and "busy efd fd ev st"
  shows "busy efd fd ev st' \<and> sent_on fd st' = sent_on fd st"
  using assms(1)
proof (induction rule: rtranclp_induct)
  case (step y z)
  from quiet_keeps[OF step.hyps(2)] step.IH show ?case by auto
qed (use assms(2) in simp)

lemma sweep_arms_one:
  assumes "client_inv efd st" and "fd < MAX_EVENTS" and "due (c_epoch (conf st)) (clk fd) (packets_time (table st) ! fd)"
    and "interest (table st) (efd, fd) \<noteq> None" and "sweep_one (c_epoch (conf st)) clk fd (table st) = Some t"
  shows "busy efd fd EPOLLOUT (st\<lparr>table := t\<rparr>)"
proof -
  have ok: "table_ok efd (table st)" using assms(1) by (simp add: client_inv_def)
  have "conn efd t fd = swept (c_epoch (conf st)) (clk fd) (conn efd (table st) fd)"
    using sweep_one_conn[OF assms(5) ok assms(2), of fd] by simp
  then have "watched efd fd t = (1, Some EPOLLOUT)" using assms(3,4) by (simp add: conn_def swept_def watched_def)
  moreover have "client_inv efd (st\<lparr>table := t\<rparr>)" using sweep_one_keeps[OF assms(5) ok] assms(1) by (simp add: client_inv_def)
  ultimately show ?thesis using assms(2) by (simp add: busy_def)
qed

lemma request_sent:
  assumes "send_packet e ub efd 0 fd st = Some st'" and "busy efd fd ev st" and "send_result e = Wrote k" and "0 < k"
    and "fst (getPktTypeNum ub (pktTypeCounter st)) = CLIENT_REQUEST_PKT"
  shows "busy efd fd EPOLLIN st' \<and> (\<exists>bytes. sent_on fd st' = sent_on fd st @ [bytes])"
proof -
  have b: "client_inv efd st" "fd < MAX_EVENTS" "sendingFlag (packets_time (table st) ! fd) = 1" "interest (table st) (efd, fd) = Some ev"
    using assms(2) by (simp_all add: busy_def watched_def)
  have inv: "client_inv efd st'"
    using send_handled[OF assms(1) b(1)] b(4) by (simp add: registered_def handled_def)
  obtain data t where t: "client_modifyEpollEvent efd fd EPOLLIN (table st) = Some t"
    "setEventSendTime fd None (interval (conf st)) (send_now e) (send_last e) t = Some (table st')"
    "wire st' = wire st @ [(fd, data)]"
    using assms(1,3-5) by (auto simp: send_packet_def after_write_def Let_def split: Option.bind_splits prod.splits)
  then have "watched efd fd t = (1, Some EPOLLIN)" using b by (auto simp: client_modifyEpollEvent_def watched_def)
  then have "busy efd fd EPOLLIN st'" using watched_setEventSendTime[OF t(2)] inv b(2) by (simp add: busy_def)
  then show ?thesis using t(3) by (simp add: sent_on_def)
qed

text \<open>C12: on a connection that has been registered before, at most one request is outstanding: the sweep
  arms it when it is due, and whatever the threads of the client do from then on, until something is
  reported for it, exactly one packet is sent on it, the request; then it is registered for
  reading only and refused by every sweep, at any time.  It may send again only after an answer has been
  read, which clears its flag.  (The first turn of a connection is not covered: its registration clears
  the flag that protects it.)  Assumed is that some of the request is written and that the kernel does not give its
  descriptor to a new connection; events of other descriptors, visits of the sweep, closings and
  rounds of the update thread are taken in any order, each as a whole.\<close>

theorem one_request_outstanding:
  assumes "client_inv efd st" and "fd < MAX_EVENTS" and "due (c_epoch (conf st)) (clk fd) (packets_time (table st) ! fd)"
    and "interest (table st) (efd, fd) \<noteq> None"
    and "sweep_one (c_epoch (conf st)) clk fd (table st) = Some t"
    and "(quiet_step efd fd)\<^sup>*\<^sup>* (st\<lparr>table := t\<rparr>) st1"
    and "client_dispatch ub efd 0 e st1 = Some st2" and "ce_fd e = fd" and "ce_out e" and "\<not> ce_error e"
    and "send_result (ce_send e) = Wrote k" and "0 < k"
    and "fst (getPktTypeNum ub (pktTypeCounter st1)) = CLIENT_REQUEST_PKT"
    and "(quiet_step efd fd)\<^sup>*\<^sup>* st2 st3"
  shows "(\<exists>bytes. sent_on fd st3 = sent_on fd st @ [bytes]) \<and> interest (table st3) (efd, fd) = Some EPOLLIN \<and>
    canSendPkt fd ep now (table st3) = Some (False, table st3) \<and>
    (0 < n \<longrightarrow> (\<exists>st4. receive_packet (Got n) later 0 fd st3 = Some st4 \<and> sendingFlag (packets_time (table st4) ! fd) = 0))"
proof -
  have b: "busy efd fd EPOLLOUT (st\<lparr>table := t\<rparr>)" by (rule sweep_arms_one[OF assms(1-5)])
  have b1: "busy efd fd EPOLLOUT st1 \<and> sent_on fd st1 = sent_on fd (st\<lparr>table := t\<rparr>)" by (rule quiet_run_keeps[OF assms(6) b])
  have "send_packet (ce_send e) ub efd 0 fd st1 = Some st2" using assms(7-10) by (simp add: client_dispatch_def)
  from request_sent[OF this conjunct1[OF b1] assms(11-13)]
  have b2: "busy efd fd EPOLLIN st2" "\<exists>bytes. sent_on fd st2 = sent_on fd st1 @ [bytes]" by simp_all
  have b3: "busy efd fd EPOLLIN st3 \<and> sent_on fd st3 = sent_on fd st2" by (rule quiet_run_keeps[OF assms(14) b2(1)])
  then have l: "fd < length (packets_time (table st3))" "fd < MAX_EVENTS"
    "sendingFlag (packets_time (table st3) ! fd) = 1" "interest (table st3) (efd, fd) = Some EPOLLIN"
    by (simp_all add: busy_def client_inv_def table_ok_def conns_ok_def watched_def)
  then have "canSendPkt fd ep now (table st3) = Some (False, table st3)" by (simp add: canSendPkt_def)
  moreover have "\<exists>st4. receive_packet (Got n) later 0 fd st3 = Some st4 \<and> sendingFlag (packets_time (table st4) ! fd) = 0" if "0 < n"
    using that l by (simp add: receive_packet_def setEventRecvTime_def resetSendPkt_def getRTT_def)
  ultimately show ?thesis using b1 b2(2) b3 l(4) by (auto simp: sent_on_def)
qed

lemma idle_due: "due (c_epoch (conf idle_client)) (61, 0) (packets_time (table idle_client) ! 5)"
  by (simp add: idle_client_def due_def open_table_def closed_entry_def demo_client_def demo_client_conf_def client_initConfigs_def
      MAX_EVENTS_def client_getTimeDiff_def S_TO_US_def int32_def)

theorem one_request_outstanding_witness:
  "\<exists>t st2 st3. sweep_one (c_epoch (conf idle_client)) (\<lambda>fd. (61, 0)) 5 (table idle_client) = Some t \<and>
    client_dispatch 50 3 0 demo_event (idle_client\<lparr>table := t\<rparr>) = Some st2 \<and> quiet_step 3 5 st2 st3 \<and>
    (\<exists>bytes. sent_on 5 st3 = sent_on 5 idle_client @ [bytes]) \<and> interest (table st3) (3, 5) = Some EPOLLIN \<and>
    canSendPkt 5 60 (9000, 0) (table st3) = Some (False, table st3) \<and>
    (0 < (146 :: nat) \<longrightarrow> (\<exists>st4. receive_packet (Got 146) (100, 900) 0 5 st3 = Some st4 \<and> sendingFlag (packets_time (table st4) ! 5) = 0))"
proof -
  have fd: "5 < MAX_EVENTS" by (simp add: MAX_EVENTS_def)
  have ok: "table_ok 3 (table idle_client)" using idle_client_inv by (simp add: client_inv_def)
  have int: "interest (table idle_client) (3, 5) \<noteq> None" by (simp add: idle_client_def)
  obtain t where t: "sweep_one (c_epoch (conf idle_client)) (\<lambda>fd. (61, 0)) 5 (table idle_client) = Some t"
    using sweep_one_runs[OF ok fd] by blast
  have b: "busy 3 5 EPOLLOUT (idle_client\<lparr>table := t\<rparr>)" by (rule sweep_arms_one[OF idle_client_inv fd idle_due int t])
  then have inv: "client_inv 3 (idle_client\<lparr>table := t\<rparr>)" by (simp add: busy_def)
  have c: "pktTypeCounter idle_client = 0" by (simp add: idle_client_def demo_client_def)
  have e: "ce_fd demo_event = 5" "ce_out demo_event" "\<not> ce_error demo_event" "send_result (ce_send demo_event) = Wrote 146"
    by (simp_all add: demo_event_def plain_env_def demo_env_def)
  have ty: "fst (getPktTypeNum 50 (pktTypeCounter (idle_client\<lparr>table := t\<rparr>))) = CLIENT_REQUEST_PKT"
    by (simp add: c getPktTypeNum_def Let_def)
  have ev: "event_ok (idle_client\<lparr>table := t\<rparr>) demo_event"
    by (simp add: event_ok_def demo_event_def plain_env_def demo_env_def arrays_ok_def idle_client_def demo_client_def MAX_EVENTS_def)
  have "interval (conf (idle_client\<lparr>table := t\<rparr>)) \<noteq> 0" by (simp add: idle_client_def)
  from dispatch_runs[OF inv ev this, of 50]
  obtain st2 where st2: "client_dispatch 50 3 0 demo_event (idle_client\<lparr>table := t\<rparr>) = Some st2" by blast
  have "send_packet (ce_send demo_event) 50 3 0 5 (idle_client\<lparr>table := t\<rparr>) = Some st2"
    using st2 e(1-3) by (simp add: client_dispatch_def)
  from request_sent[OF this b e(4) _ ty] have "table_ok 3 (table st2)" by (simp add: busy_def client_inv_def)
  from sweep_one_runs[OF this fd, of "c_epoch (conf st2)" "\<lambda>fd. (9000, 0)"]
  obtain u where u: "sweep_one (c_epoch (conf st2)) (\<lambda>fd. (9000, 0)) 5 (table st2) = Some u" by blast
  have q: "quiet_step 3 5 st2 (st2\<lparr>table := u\<rparr>)" by (rule quiet_step.sweep[OF u])
  then have run: "(quiet_step 3 5)\<^sup>*\<^sup>* st2 (st2\<lparr>table := u\<rparr>)" by (rule r_into_rtranclp)
  have "(\<exists>bytes. sent_on 5 (st2\<lparr>table := u\<rparr>) = sent_on 5 idle_client @ [bytes]) \<and> interest (table (st2\<lparr>table := u\<rparr>)) (3, 5) = Some EPOLLIN \<and>
    canSendPkt 5 60 (9000, 0) (table (st2\<lparr>table := u\<rparr>)) = Some (False, table (st2\<lparr>table := u\<rparr>)) \<and>
    (0 < (146 :: nat) \<longrightarrow> (\<exists>st4. receive_packet (Got 146) (100, 900) 0 5 (st2\<lparr>table := u\<rparr>) = Some st4 \<and>
      sendingFlag (packets_time (table st4) ! 5) = 0))"
    by (rule one_request_outstanding[OF idle_client_inv fd idle_due int t rtranclp.rtrancl_refl st2 e(1-4) _ ty run]) simp
  then show ?thesis by (intro exI[of _ t] exI[of _ st2] exI[of _ "st2\<lparr>table := u\<rparr>"] conjI[OF t conjI[OF st2 conjI[OF q]]])
qed

end
