(* ===== verification/ServerWork.thy ===== *)
theory ServerWork
  imports ServerTheorems
begin

text \<open>
  A worker of \<^verbatim>\<open>server/server.c\<close> over several packets: the rounds of its loop, one for each packet in
  its ring, and the order of its answers.
\<close>

fun worker_rounds ::
    "'d configs \<Rightarrow> ('d \<Rightarrow> u32) \<Rightarrow> ('c, 'w) redis_command \<Rightarrow> 'c clusterInfo \<Rightarrow> u64 list \<Rightarrow> nat \<Rightarrow> round list
      \<Rightarrow> server_state \<times> 'w \<Rightarrow> (server_state \<times> 'w) outcome option" where
  "worker_rounds conf to_us redis cl table thread [] sw = Some (Goes sw)"
| "worker_rounds conf to_us redis cl table thread (e # es) sw = do {
     r \<leftarrow> process_packet conf to_us redis cl table e thread sw;
     (case r of
        Goes sw \<Rightarrow> worker_rounds conf to_us redis cl table thread es sw
      | Waits \<Rightarrow> Some Waits
      | Exits \<Rightarrow> Some Exits)
   }"

text \<open>What the worker writes for a packet that came as \<open>data\<close> from \<open>fd\<close>, in a given round.\<close>

definition answer :: "round \<Rightarrow> packet_format \<times> u8 list \<times> u32 \<times> u32 \<times> timeval \<Rightarrow> (u32 \<times> u8 list) list" where
  "answer e = (\<lambda>(pk, data, fd, efd, t). reply e fd pk)"

definition sent_job :: "bool \<Rightarrow> u64 list \<Rightarrow> packet_format \<times> u8 list \<times> u32 \<times> u32 \<times> timeval \<Rightarrow> bool" where
  "sent_job cipher table = (\<lambda>(pk, data, fd, efd, t). on_wire cipher table pk data)"

definition good_round :: "bool \<Rightarrow> 'd configs \<Rightarrow> ('d \<Rightarrow> u32) \<Rightarrow> round \<Rightarrow> bool" where
  "good_round cipher conf to_us e \<longleftrightarrow> round_ok conf to_us e \<and> deciphers e = cipher"

lemma processDatabase_fits:
  assumes "redis_laws redis rd" and "cluster_ready cl" and "wf_packet pk" and "db_fits rd cl w"
  obtains w' where "processDatabase redis cl junk pk w = Some w'" and "db_fits rd cl w'"
proof (rule processDatabase_runs[OF assms, of junk])
  let ?u = "decimal (sint (userID pk ! 0))" and ?d = "decimal (sint (dstDeviceID pk ! 0))"
  let ?s = "decimal (uint (state pk ! 0))" and ?i = "decimal (sint (userID pk ! 1))"
  fix w' assume w': "processDatabase redis cl junk pk w = Some w'"
    "same_db rd cl w' (db_default (db_update (db_default (db_value rd cl w) USER_DEVICE_DB ?u ?d) DEVICE_STATE_DB ?u ?s) USER_KEY_DB ?i ?d)"
  have sv: "short_value ?d" "short_value ?s" by (rule short_sint, rule short_u8)
  have "db_fits rd cl w'"
    using assms(4) w'(2) sv
    by (auto simp: db_fits_def same_db_def db_default_def db_update_def short_value_def split: option.splits if_splits)
  with w'(1) show thesis by (rule that)
qed

lemma one_round:
  assumes "thread < length (rings s)" and "list_all ring_ok (rings s)" and "items (rings s ! thread) = (data, fd, efd, t) # rest"
    and "on_wire cipher table pk data" and "good_round cipher conf to_us e"
    and "redis_laws redis rd" and "cluster_ready cl" and "db_fits rd cl w"
  obtains s' w' where "process_packet conf to_us redis cl table e thread (s, w) = Some (Goes (s', w'))"
    and "thread < length (rings s')" and "list_all ring_ok (rings s')" and "items (rings s' ! thread) = rest"
    and "written s' = written s @ reply e fd pk" and "db_fits rd cl w'"
proof -
  have wf: "wf_packet pk" using assms(4) by (simp add: on_wire_def)
  obtain w' where w': "processDatabase redis cl (value_junk e) pk w = Some w'" "db_fits rd cl w'"
    by (rule processDatabase_fits[OF assms(6,7) wf assms(8)])
  have ok: "ring_ok (rings s ! thread)" using assms(1,2) by (simp add: list_all_length)
  have e: "on_wire (deciphers e) table pk data" "round_ok conf to_us e" using assms(4,5) by (simp_all add: good_round_def)
  obtain s' where s': "process_packet conf to_us redis cl table e thread (s, w) = Some (Goes (s', w'))"
    "written s' = written s @ reply e fd pk" "items (rings s' ! thread) = rest"
    using take_packet_answers[OF assms(1) ok assms(3) e w'(1)] by blast
  from work_keeps[OF process_packet_takes[OF s'(1)] assms(2)] that[OF s'(1) _ _ s'(3,2) w'(2)] assms(1) show thesis by simp
qed

text \<open>C13: a worker answers the requests in its ring in the order in which they arrived, each on the
  socket it came from and with the client's packet in the server's direction, as far as the socket takes
  it and unless the write fails, and no other packet, until the ring is empty.  The worker may be built
  with or without \<^verbatim>\<open>CIPHER\<close>, and the packets must have been sent alike: without it (as
  \<^verbatim>\<open>client.h\<close> has it) all arrays are as declared; with it (as \<^verbatim>\<open>server.h\<close> has it) the
  theorem assumes four bytes more than the 146 declared in the arrays of client and worker that encryption
  and decryption write (the declared ones overrun), and that each busy wait ends.  No other thread runs
  meanwhile, and the database is assumed to answer as in the theorem on reading what was written.\<close>

theorem worker_answers_in_order:
  assumes "thread < length (rings s)" and "list_all ring_ok (rings s)" and "items (rings s ! thread) = map snd jobs"
    and "list_all (sent_job cipher table) jobs" and "length rounds = length jobs" and "list_all (good_round cipher conf to_us) rounds"
    and "redis_laws redis rd" and "cluster_ready cl" and "db_fits rd cl w"
  shows "\<exists>s' w'. worker_rounds conf to_us redis cl table thread rounds (s, w) = Some (Goes (s', w')) \<and>
    items (rings s' ! thread) = [] \<and> written s' = written s @ concat (map2 answer rounds jobs)"
  using assms
proof (induction jobs arbitrary: s w rounds)
  case (Cons job jobs)
  obtain pk data fd efd t where j: "job = (pk, data, fd, efd, t)" by (cases job)
  obtain e es where r: "rounds = e # es" using Cons.prems(5) by (cases rounds) auto
  obtain s1 w1 where s1: "process_packet conf to_us redis cl table e thread (s, w) = Some (Goes (s1, w1))"
    "thread < length (rings s1)" "list_all ring_ok (rings s1)" "items (rings s1 ! thread) = map snd jobs"
    "written s1 = written s @ reply e fd pk" "db_fits rd cl w1"
    by (rule one_round[of thread s data fd efd t "map snd jobs" cipher table pk conf to_us e redis rd cl w])
      (use Cons.prems j r in \<open>simp_all add: sent_job_def\<close>)
  from Cons.IH[OF s1(2-4) _ _ _ Cons.prems(7-8) s1(6), of es] Cons.prems(4-6) r s1(1,5) show ?case
    by (auto simp: j answer_def)
qed simp


section \<open>Two requests of two connections and a heartbeat\<close>

definition demo_job :: "u32 \<Rightarrow> packet_format \<times> u8 list \<times> u32 \<times> u32 \<times> timeval" where
  "demo_job fd = (demo_request, demo_bytes, fd, 3, (1, 2))"

definition demo_beat :: "packet_format \<times> u8 list \<times> u32 \<times> u32 \<times> timeval" where
  "demo_beat = (initPayload, packet_bytes initPayload, 9, 3, (1, 2))"

lemma demo_puts:
  obtains r where "ring_ok r" and "items r = map snd [demo_job 7, demo_beat, demo_job 8]"
proof -
  have m: "msg_ok (demo_bytes, fd, 3, (1, 2))" "sent_message (demo_bytes, fd, 3, (1, 2)) = snd (demo_job fd)"
    "msg_ok (packet_bytes initPayload, 9, 3, (1, 2))" "sent_message (packet_bytes initPayload, 9, 3, (1, 2)) = snd demo_beat" for fd
    using length_packet_bytes[OF wf_demo_request] length_packet_bytes[OF wf_initPayload]
    by (simp_all add: msg_ok_def sent_message_def demo_job_def demo_beat_def demo_bytes_def slice_def)
  obtain p where p: "ring_ok p" "items p = [snd (demo_job 7)]"
    using ring_put_ok[OF ring_ok_init m(1)[of 7]] m(2)[of 7] by auto
  then have "used p \<noteq> 4095" using length_items[of p] by simp
  then obtain q where q: "ring_ok q" "items q = [snd (demo_job 7), snd demo_beat]"
    using ring_put_ok[OF p(1) m(3)] m(4) p(2) by auto
  then have "used q \<noteq> 4095" using length_items[of q] by simp
  from ring_put_ok[OF q(1) m(1)[of 8] this] that show thesis using q(2) m(2)[of 8] by auto
qed

theorem worker_answers_in_order_witness:
  "\<exists>r s w. items r = map snd [demo_job 7, demo_beat, demo_job 8] \<and>
    worker_rounds demo_server_configs (\<lambda>d. 0) demo_redis demo_cluster [] 0 [demo_round, demo_round, demo_round\<lparr>write_result := Some 100\<rparr>]
      (demo_state\<lparr>rings := [r]\<rparr>, \<lambda>k. None) = Some (Goes (s, w)) \<and>
    items (rings s ! 0) = [] \<and>
    written s = [(7, packet_bytes (demo_request\<lparr>direction := SERVER_TO_APP\<rparr>)),
      (8, take 100 (packet_bytes (demo_request\<lparr>direction := SERVER_TO_APP\<rparr>)))]"
proof -
  obtain r where r: "ring_ok r" "items r = map snd [demo_job 7, demo_beat, demo_job 8]" by (rule demo_puts)
  have j: "list_all (sent_job False []) [demo_job 7, demo_beat, demo_job 8]"
    using demo_on_wire wf_initPayload by (simp add: sent_job_def demo_job_def demo_beat_def on_wire_def)
  have g: "list_all (good_round False demo_server_configs (\<lambda>d. 0)) [demo_round, demo_round, demo_round\<lparr>write_result := Some 100\<rparr>]"
    by (simp add: good_round_def round_ok_def demo_round_def)
  have wf: "wf_packet (demo_request\<lparr>direction := SERVER_TO_APP\<rparr>)" using wf_demo_request by (simp add: wf_packet_def)
  have ty: "getPktType demo_request = REQUEST_PKT" "getPktType initPayload \<noteq> REQUEST_PKT"
    by (simp_all add: demo_request_def getPktType_def initPayload_def REQUEST_PKT_def)
  have a: "concat (map2 answer [demo_round, demo_round, demo_round\<lparr>write_result := Some 100\<rparr>] [demo_job 7, demo_beat, demo_job 8]) =
      [(7, packet_bytes (demo_request\<lparr>direction := SERVER_TO_APP\<rparr>)), (8, take 100 (packet_bytes (demo_request\<lparr>direction := SERVER_TO_APP\<rparr>)))]"
    using ty length_packet_bytes[OF wf] by (simp add: answer_def reply_def demo_job_def demo_beat_def demo_round_def)
  have "\<exists>s w. worker_rounds demo_server_configs (\<lambda>d. 0) demo_redis demo_cluster [] 0 [demo_round, demo_round, demo_round\<lparr>write_result := Some 100\<rparr>]
      (demo_state\<lparr>rings := [r]\<rparr>, \<lambda>k. None) = Some (Goes (s, w)) \<and> items (rings s ! 0) = [] \<and>
    written s = written (demo_state\<lparr>rings := [r]\<rparr>) @
      concat (map2 answer [demo_round, demo_round, demo_round\<lparr>write_result := Some 100\<rparr>] [demo_job 7, demo_beat, demo_job 8])"
    by (rule worker_answers_in_order[OF _ _ _ j _ g demo_laws demo_ready demo_empty_fits]) (simp_all add: r)
  with r(2) show ?thesis unfolding a by (auto simp: demo_state_def)
qed

end
