(* ===== verification/ServerSetup.thy ===== *)
theory ServerSetup
  imports Server CString KeyTable PayloadCipher
begin

text \<open>
  The start of the server in \<^verbatim>\<open>server/server.c\<close>: the addresses and options of its sockets, the
  receiving thread up to its event loop, the rings and workers, and \<^verbatim>\<open>main\<close>.  What the system
  calls return is an argument.
\<close>

section \<open>Sockets\<close>

text \<open>What happens to an address that \<^verbatim>\<open>getaddrinfo\<close> offers.\<close>

datatype bind_attempt = No_socket | Not_bound u32 | Bound u32

fun bind_loop :: "bind_attempt list \<Rightarrow> server_state \<Rightarrow> u32 option \<times> server_state" where
  "bind_loop [] s = (None, s)"
| "bind_loop (No_socket # rps) s = bind_loop rps s"
| "bind_loop (Not_bound sfd # rps) s =
    (let s = s\<lparr>open_fds := sfd # open_fds s\<rparr> in bind_loop rps (s\<lparr>open_fds := remove1 sfd (open_fds s)\<rparr>))"
| "bind_loop (Bound sfd # rps) s = (Some sfd, s\<lparr>open_fds := sfd # open_fds s\<rparr>)"

text \<open>The descriptor, \<open>None\<close> for -1; \<open>result\<close> is the list of \<^verbatim>\<open>getaddrinfo\<close>.\<close>

definition create_and_bind :: "bind_attempt list option \<Rightarrow> server_state \<Rightarrow> u32 option \<times> server_state" where
  "create_and_bind result s = (case result of None \<Rightarrow> (None, s) | Some rps \<Rightarrow> bind_loop rps s)"

fun createServerFDs :: "bind_attempt list option list \<Rightarrow> server_state \<Rightarrow> (u32 list \<times> server_state) outcome" where
  "createServerFDs [] s = Goes ([], s)"
| "createServerFDs (p # ps) s = (case create_and_bind p s of
     (None, s) \<Rightarrow> Exits
   | (Some fd, s) \<Rightarrow> (case createServerFDs ps s of
       Goes (fds, s) \<Rightarrow> Goes (fd # fds, s)
     | Waits \<Rightarrow> Waits
     | Exits \<Rightarrow> Exits))"

text \<open>\<^verbatim>\<open>fcntl\<close>: the flags read, -1 for an error, and whether they can be set.\<close>

record socket_calls =
  keepalive_set :: bool
  reuseaddr_set :: bool
  flags_read :: int
  flags_set :: bool

definition make_socket_non_blocking :: "socket_calls \<Rightarrow> int" where
  "make_socket_non_blocking c = (if flags_read c = -1 then -1 else if \<not> flags_set c then -1 else 0)"

text \<open>Whether the program goes on.\<close>

definition setServerSocket :: "socket_calls \<Rightarrow> bool" where
  "setServerSocket c =
    (if \<not> keepalive_set c then False
     else if \<not> reuseaddr_set c then False
     else make_socket_non_blocking c \<noteq> -1)"

definition setClientSocket :: "socket_calls \<Rightarrow> bool" where
  "setClientSocket c =
    (if \<not> keepalive_set c then False
     else if \<not> reuseaddr_set c then False
     else make_socket_non_blocking c \<noteq> -1)"

text \<open>
  \<^verbatim>\<open>modifyEpollEvent\<close> changes nothing of the state, and \<^verbatim>\<open>processEPOLLOUT\<close> returns at
  once.
\<close>

definition server_modifyEpollEvent :: "bool \<Rightarrow> server_state \<Rightarrow> server_state outcome" where
  "server_modifyEpollEvent registered s = (if \<not> registered then Exits else Goes s)"

definition processEPOLLOUT :: "u32 \<Rightarrow> u32 \<Rightarrow> server_state \<Rightarrow> server_state" where
  "processEPOLLOUT efd fd s = s"

section \<open>The local address\<close>

record interface =
  if_addressed :: bool
  if_inet :: bool
  if_name :: cstr
  if_host :: "cstr option"

definition HOST_LEN :: nat where "HOST_LEN = 1025"

text \<open>\<^verbatim>\<open>getLocalIP\<close>: the result and the buffer.  \<^verbatim>\<open>getnameinfo\<close> is called for
  every interface, its failure only matters for the one that matches.\<close>

fun local_ip_loop :: "cstr \<Rightarrow> interface list \<Rightarrow> cstr \<Rightarrow> (int \<times> cstr) outcome option" where
  "local_ip_loop device [] ip = Some (Goes (FAILURE, ip))"
| "local_ip_loop device (ifa # ifas) ip =
    (if \<not> if_addressed ifa then local_ip_loop device ifas ip
     else if if_name ifa = device \<and> if_inet ifa then
       (case if_host ifa of
          None \<Rightarrow> Some Exits
        | Some host \<Rightarrow> map_option (\<lambda>h. Goes (SUCCESS, h)) (strcpy HOST_LEN host))
     else local_ip_loop device ifas ip)"

definition getLocalIP :: "cstr \<Rightarrow> interface list option \<Rightarrow> cstr \<Rightarrow> (int \<times> cstr) outcome option" where
  "getLocalIP device ifaddrs ip = (case ifaddrs of None \<Rightarrow> Some Exits | Some ifas \<Rightarrow> local_ip_loop device ifas ip)"

text \<open>What \<^verbatim>\<open>printServerStarted\<close> prints: the address, or that there is none.\<close>

definition printServerStarted :: "cstr \<Rightarrow> interface list option \<Rightarrow> cstr option outcome option" where
  "printServerStarted device ifaddrs = do {
     r \<leftarrow> getLocalIP device ifaddrs [];
     Some (case r of
       Goes (status, ip) \<Rightarrow> Goes (if status = SUCCESS then Some ip else None)
     | Waits \<Rightarrow> Waits
     | Exits \<Rightarrow> Exits)
   }"

section \<open>Threads\<close>

record listen_calls =
  addresses :: "bind_attempt list option"
  socket_options :: socket_calls
  listens :: bool
  epoll_fd :: "u32 option"
  added :: bool

text \<open>\<^verbatim>\<open>server\<close> up to its loop: the epoll instance and the listening socket.\<close>

definition server_start :: "listen_calls \<Rightarrow> server_state \<Rightarrow> ((u32 \<times> u32) \<times> server_state) outcome" where
  "server_start c s = (case create_and_bind (addresses c) s of
     (None, s) \<Rightarrow> Exits
   | (Some sfd, s) \<Rightarrow>
       if \<not> setServerSocket (socket_options c) then Exits
       else if \<not> listens c then Exits
       else (case epoll_fd c of
         None \<Rightarrow> Exits
       | Some efd \<Rightarrow> (case server_addEpollEvent (added c) s of
           Goes s \<Rightarrow> Goes ((efd, sfd), s)
         | Waits \<Rightarrow> Waits
         | Exits \<Rightarrow> Exits)))"

text \<open>\<^verbatim>\<open>initThreads\<close> over the numbers of the threads still to start; the ring of a thread is
  stored in an array of \<^verbatim>\<open>MAX_THREADS\<close> cells.\<close>

fun start_workers :: "(nat \<Rightarrow> bool) \<Rightarrow> nat list \<Rightarrow> server_state \<Rightarrow> server_state outcome option" where
  "start_workers created [] s = Some (Goes s)"
| "start_workers created (thread # ts) s =
    (if \<not> int thread < MAX_THREADS then None
     else let s = s\<lparr>rings := rings s @ [ring_buffer_init]\<rparr> in
       if \<not> created thread then Some Exits
       else start_workers created ts s)"

definition initThreads :: "(nat \<Rightarrow> bool) \<Rightarrow> int \<Rightarrow> server_state \<Rightarrow> server_state outcome option" where
  "initThreads created num s =
    (if \<not> num \<ge> MIN_THREADS then None
     else start_workers created [0..<nat num] s)"

text \<open>The receiving threads of \<^verbatim>\<open>main\<close>, one for each port.\<close>

fun start_servers :: "(nat \<Rightarrow> bool) \<Rightarrow> (nat \<Rightarrow> listen_calls) \<Rightarrow> int list \<Rightarrow> nat list \<Rightarrow> server_state
    \<Rightarrow> ((u32 \<times> u32) list \<times> server_state) outcome option" where
  "start_servers created calls ps [] s = Some (Goes ([], s))"
| "start_servers created calls ps (port # rest) s = do {
     p \<leftarrow> load ps port;
     if \<not> created port then Some Exits
     else (case server_start (calls port) s of
       Goes (sock, s) \<Rightarrow> do {
         r \<leftarrow> start_servers created calls ps rest s;
         (case r of
            Goes (socks, s) \<Rightarrow> Some (Goes (sock # socks, s))
          | Waits \<Rightarrow> Some Waits
          | Exits \<Rightarrow> Some Exits)
       }
     | Waits \<Rightarrow> Some Waits
     | Exits \<Rightarrow> Some Exits)
   }"

definition no_state :: server_state where
  "no_state = \<lparr>usr_num = 0, stats = zero_server_statistics, rings = [], open_fds = [], written = []\<rparr>"

record 'd server_env =
  server_settings :: "'d config_file option"
  settings_junk :: "'d server_junk"
  zero_delay :: 'd
  worker_created :: "nat \<Rightarrow> bool"
  server_created :: "nat \<Rightarrow> bool"
  listen_env :: "nat \<Rightarrow> listen_calls"
  updater_created :: bool
  local_interfaces :: "interface list option"

definition server_main ::
    "'d server_env \<Rightarrow> 'd configs \<Rightarrow> (u64 list \<times> 'd configs \<times> (u32 \<times> u32) list \<times> server_state) outcome option" where
  "server_main env memory = do {
     table \<leftarrow> initKeyTable;
     (_, cfg) \<leftarrow> server_getConfigs (server_settings env) (settings_junk env) (server_initConfigs (zero_delay env) memory);
     r \<leftarrow> initThreads (worker_created env) (threads_num cfg) no_state;
     (case r of
        Goes s \<Rightarrow> do {
          r \<leftarrow> start_servers (server_created env) (listen_env env) (ports cfg) [0..<nat (ports_count cfg)] s;
          (case r of
             Goes (socks, s) \<Rightarrow>
               if \<not> updater_created env then Some Exits
               else do {
                 r \<leftarrow> printServerStarted (dev cfg) (local_interfaces env);
                 (case r of
                    Goes _ \<Rightarrow> Some (Goes (table, cfg, socks, s))
                  | Waits \<Rightarrow> Some Waits
                  | Exits \<Rightarrow> Some Exits)
               }
           | Waits \<Rightarrow> Some Waits
           | Exits \<Rightarrow> Some Exits)
        }
      | Waits \<Rightarrow> Some Waits
      | Exits \<Rightarrow> Some Exits)
   }"

end
