(* ===== verification/ServerSafety.thy ===== *)
theory ServerSafety
  imports ServerSetup ServerWork StepInvariant
begin

text \<open>
  The server as a whole, from \<^verbatim>\<open>main\<close> on: its start, and the invariant of its runs, in which
  handlers, workers and the updates of the configuration alternate.
\<close>

section \<open>Start\<close>

lemma bind_loop_open: "bind_loop rps s = (Some fd, t) \<Longrightarrow> t = s\<lparr>open_fds := fd # open_fds s\<rparr>"
  by (induction rps s rule: bind_loop.induct) (auto simp: Let_def)

lemma bind_loop_none: "bind_loop rps s = (None, t) \<Longrightarrow> t = s"
  by (induction rps s rule: bind_loop.induct) (auto simp: Let_def)

lemma server_start_state:
  assumes "server_start c s = Goes ((efd, sfd), t)"
  shows "t = s\<lparr>open_fds := sfd # open_fds s, usr_num := usr_num s + 1\<rparr>"
  using assms
  by (auto simp: server_start_def create_and_bind_def server_addEpollEvent_def incr_usr_num_def
      split: prod.splits option.splits if_splits dest!: bind_loop_open)

lemma start_workers_state:
  "start_workers created ts s = Some (Goes t) \<Longrightarrow> t = s\<lparr>rings := rings s @ replicate (length ts) ring_buffer_init\<rparr>"
  by (induction created ts s rule: start_workers.induct) (auto simp: Let_def split: if_splits)

lemma start_servers_one:
  assumes "start_servers created calls ps [0..<n] s = Some (Goes (socks, t))" and "n \<le> 1"
  shows "t = s\<lparr>open_fds := map snd socks @ open_fds s, usr_num := usr_num s + int (length socks)\<rparr> \<and> length socks = n"
proof (cases n)
  case (Suc m)
  then have "[0..<n] = [0]" using assms(2) by simp
  with assms(1) show ?thesis
    by (auto simp: Suc split: Option.bind_splits outcome.splits if_splits dest!: server_start_state)
qed (use assms in simp)

section \<open>Runs\<close>

text \<open>The server with its configuration, which the update thread may change between the steps of the
  other threads.\<close>

inductive server_run :: "('d \<Rightarrow> u32) \<Rightarrow> ('c, 'w) redis_command \<Rightarrow> 'c clusterInfo \<Rightarrow> u64 list \<Rightarrow> u32 \<Rightarrow> u32
    \<Rightarrow> 'd configs \<times> server_state \<times> 'w \<Rightarrow> 'd configs \<times> server_state \<times> 'w \<Rightarrow> bool"
  for to_us redis cl table efd sfd where
  thread: "server_step cfg to_us redis cl table efd sfd (s, w) (t, w') \<Longrightarrow>
    server_run to_us redis cl table efd sfd (cfg, s, w) (cfg, t, w')"
| update_cfg: "server_updateEpoch cf cfg = (status, cfg') \<Longrightarrow>
    server_run to_us redis cl table efd sfd (cfg, s, w) (cfg', s, w)"

lemma updateEpoch_threads: "server_updateEpoch cf cfg = (status, cfg') \<Longrightarrow> threads_num cfg' = threads_num cfg"
  by (auto simp: server_updateEpoch_def Let_def split: option.splits if_splits)

lemma accept_rings: "acceptEpollEvents rs s = Goes t \<Longrightarrow> rings t = rings s"
  by (induction rs s rule: acceptEpollEvents.induct)
    (auto simp: server_addEpollEvent_def incr_usr_num_def Let_def split: if_splits)

lemma put_rings: "put_packet i buf now efd fd s = Some t \<Longrightarrow> length (rings t) = length (rings s)"
  by (auto simp: put_packet_def split: Option.bind_splits)

lemma dispatch_rings: "server_dispatch cfg efd sfd e s = Some (Goes t) \<Longrightarrow> length (rings t) = length (rings s)"
  by (auto simp: server_dispatch_def processEPOLLIN_def server_deleteEpollEvent_def decr_usr_num_def Let_def
      split: if_splits Option.bind_splits drained.splits dest: accept_rings put_rings)

lemma step_rings:
  assumes "server_step cfg to_us redis cl table efd sfd (s, w) (t, w')" and "counted s"
  shows "length (rings t) = length (rings s)"
proof -
  have ok: "list_all ring_ok (rings s)" using assms(2) by (simp add: counted_def)
  from assms(1) show ?thesis
    by cases (auto dest: dispatch_rings put_rings work_keeps[OF process_packet_takes ok] work_keeps[OF _ ok])
qed

text \<open>The invariant of a server with \<open>n\<close> workers.\<close>

definition server_inv :: "int \<Rightarrow> 'd configs \<times> server_state \<times> 'w \<Rightarrow> bool" where
  "server_inv n = (\<lambda>(cfg, s, w). counted s \<and> int (length (rings s)) = n \<and> threads_num cfg = n)"

lemma server_run_keeps:
  assumes "server_run to_us redis cl table efd sfd x y" and "server_inv n x"
  shows "server_inv n y"
  using assms(1)
proof cases
  case (thread cfg s w t w')
  then have "server_inv n (cfg, s, w)" using assms(2) by simp
  then have "counted s" by (simp add: server_inv_def)
  with \<open>server_inv n (cfg, s, w)\<close> counted_step[OF thread(3)] step_rings[OF thread(3)] thread(2) show ?thesis by (simp add: server_inv_def)
next
  case (update_cfg cf cfg status cfg' s w)
  then have "server_inv n (cfg, s, w)" using assms(2) by simp
  with updateEpoch_threads[OF update_cfg(3)] update_cfg(2) show ?thesis by (simp add: server_inv_def)
qed

interpretation srv: step_invariant "server_run to_us redis cl table efd sfd" "server_inv n"
  for to_us redis cl table efd sfd n
  by unfold_locales (rule server_run_keeps)

section \<open>From main on\<close>

lemma getThreadIndex_range:
  assumes "MIN_THREADS \<le> threads_num cfg" and "threads_num cfg \<le> MAX_THREADS"
  shows "getThreadIndex st cfg \<in> insert None (Some ` {0..<threads_num cfg})"
proof -
  let ?t = "word_of_int (threads_num cfg) :: u32" and ?g = "word_of_int (packets_group cfg) :: u32"
  have t: "uint ?t = threads_num cfg" "threads_num cfg < 2 ^ 31" "0 < threads_num cfg"
    using assms by (simp_all add: uint_word_of_int MIN_THREADS_def MAX_THREADS_def)
  let ?i = "(receive_counter_min st div ?g) mod ?t"
  have "uint ?i < threads_num cfg" using pos_mod_bound[OF t(3)] by (simp only: uint_mod t(1))
  moreover from this have "sint ?i = uint ?i" using t(2) by (intro sint_small) simp
  ultimately show ?thesis by (auto simp: getThreadIndex_def Let_def)
qed

lemma server_main_start:
  assumes "server_main env memory = Some (Goes (table, cfg, socks, s))"
    and "length (ports memory) = MAXPORTS" and "pred_option file_ints_ok (server_settings env)"
    and "junk_group (settings_junk env) \<le> INT_MAX"
  shows "configs_ok cfg \<and> rings s = replicate (nat (threads_num cfg)) ring_buffer_init \<and> open_fds s = map snd socks \<and>
    usr_num s = int (length socks) \<and> length socks = nat (ports_count cfg) \<and> length table = TABLE_SIZE"
proof -
  obtain status u where c: "server_getConfigs (server_settings env) (settings_junk env) (server_initConfigs (zero_delay env) memory) = Some (status, cfg)"
    and w: "initThreads (worker_created env) (threads_num cfg) no_state = Some (Goes u)"
    and l: "start_servers (server_created env) (listen_env env) (ports cfg) [0..<nat (ports_count cfg)] u = Some (Goes (socks, s))"
    and k: "initKeyTable = Some table"
    using assms(1) by (auto simp: server_main_def split: Option.bind_splits outcome.splits if_splits)
  have ok: "configs_ok cfg"
    by (rule init_getConfigs_ok[OF assms(2) _ assms(4) c]) (use assms(3) in simp)
  then have "nat (ports_count cfg) \<le> 1" by (auto simp: configs_ok_def MAXPORTS_def)
  from start_servers_one[OF l this] have "s = u\<lparr>open_fds := map snd socks @ open_fds u, usr_num := usr_num u + int (length socks)\<rparr>"
    "length socks = nat (ports_count cfg)" by simp_all
  moreover have "u = no_state\<lparr>rings := replicate (nat (threads_num cfg)) ring_buffer_init\<rparr>"
    using w start_workers_state by (force simp: initThreads_def no_state_def split: if_splits)
  moreover have "length table = TABLE_SIZE" using k by (simp add: initKeyTable_eq) auto
  ultimately show ?thesis using ok by (simp add: no_state_def)
qed

text \<open>C23: once \<^verbatim>\<open>main\<close> has started the server, then after any number of steps of its threads, whatever
  its settings file becomes, there is one well-formed ring for each worker and every packet goes to one
  of them or, with group size zero, to none; no descriptor is held twice, and the number of users never
  exceeds the number of open sockets.  A step is a handler of the event loop, a round of a worker or a
  change of the settings as a whole; a handler or worker that had to wait goes on at any later time, on a
  ring in any state, as the code does not test again.  Events may name descriptors that are closed by
  now; \<^verbatim>\<open>accept\<close> is assumed to return descriptors that are not open.  Runs end where the code is
  undefined.\<close>

theorem server_runs:
  assumes "server_main env memory = Some (Goes (table, cfg, socks, s))"
    and "length (ports memory) = MAXPORTS" and "pred_option file_ints_ok (server_settings env)"
    and "junk_group (settings_junk env) \<le> INT_MAX"
    and "(server_run to_us redis cl table efd sfd)\<^sup>*\<^sup>* (cfg, s, w) (cfg', t, w')"
  shows "int (length (rings t)) = threads_num cfg' \<and> list_all ring_ok (rings t) \<and>
    getThreadIndex (stats t) cfg' \<in> insert None (Some ` {0..<int (length (rings t))}) \<and>
    distinct (open_fds t) \<and> usr_num t \<le> int (length (open_fds t))"
proof -
  note start = server_main_start[OF assms(1-4)]
  have n: "MIN_THREADS \<le> threads_num cfg" "threads_num cfg \<le> MAX_THREADS" "ports_count cfg \<le> 1"
    using start by (simp_all add: configs_ok_def MAXPORTS_def)
  have "length (open_fds s) \<le> 1" using start n(3) by simp
  then have "distinct (open_fds s)" by (cases "open_fds s"; cases "tl (open_fds s)") auto
  then have "server_inv (threads_num cfg) (cfg, s, w)"
    using start n by (simp add: server_inv_def counted_def list_all_iff ring_ok_init MIN_THREADS_def)
  from srv.steps_keep[OF assms(5) this] have r: "counted t" "int (length (rings t)) = threads_num cfg" "threads_num cfg' = threads_num cfg"
    by (simp_all add: server_inv_def)
  then show ?thesis
    using n getThreadIndex_range[of cfg' "stats t"] by (simp add: counted_def)
qed

definition demo_server_env :: "int server_env" where
  "demo_server_env = \<lparr>server_settings = Some (demo_file 100), settings_junk = \<lparr>junk_delay = 0, junk_threads = 0, junk_group = 0\<rparr>,
     zero_delay = 0, worker_created = (\<lambda>n. True), server_created = (\<lambda>n. True),
     listen_env = (\<lambda>n. \<lparr>addresses = Some [No_socket, Not_bound 7, Bound 5],
       socket_options = \<lparr>keepalive_set = True, reuseaddr_set = True, flags_read = 2, flags_set = True\<rparr>,
       listens = True, epoll_fd = Some 6, added = True\<rparr>),
     updater_created = True, local_interfaces = Some []\<rparr>"

lemma demo_server_main:
  obtains table cfg s where "server_main demo_server_env blank_configs = Some (Goes (table, cfg, [(6, 5)], s))"
    by (rule that)
      (simp add: server_main_def demo_server_env_def blank_configs_def demo_file_def initKeyTable_eq
      server_getConfigs_def server_initConfigs_def read_ports_def looked_up_def ascii_def strcpy_def IP_LEN_def MAXPORTS_def
      isValidThreadNum_def MIN_THREADS_def MAX_THREADS_def initThreads_def server_start_def create_and_bind_def
      setServerSocket_def make_socket_non_blocking_def server_addEpollEvent_def printServerStarted_def getLocalIP_def Let_def upt_rec)

text \<open>A run of that server: a connection is accepted, its packet is put into the ring of the first worker,
  and that worker answers it.\<close>

lemma demo_accept:
  assumes "open_fds s = [5]" and "usr_num s = 1"
  shows "server_step cfg to_us redis cl table 6 5 (s, w) (s\<lparr>open_fds := [9, 5], usr_num := 2\<rparr>, w)"
proof -
  let ?e = "\<lparr>err = False, hup = False, readable = True, ev_fd = 5, accepts = [Accepted 9 True True, Accept_fails], ev_input = [],
    ev_time = (0, 0), ev_junk = []\<rparr>"
  have "server_dispatch cfg 6 5 ?e s = Some (Goes (s\<lparr>open_fds := [9, 5], usr_num := 2\<rparr>))"
    using assms by (simp add: server_dispatch_def server_addEpollEvent_def incr_usr_num_def)
  moreover have "fresh_accepts (accepts ?e) (open_fds s)" using assms by simp
  ultimately show ?thesis by (intro server_step.event)
qed

lemma demo_packet_steps:
  assumes "server_ok cfg s" and "items (rings s ! next_thread cfg s) = []"
  obtains t w where "(server_step cfg (\<lambda>d. 0) demo_redis demo_cluster table 6 5)\<^sup>*\<^sup>* (s, \<lambda>k. None) (t, w)"
    and "written t = written s @ [(9, packet_bytes (demo_request\<lparr>direction := SERVER_TO_APP\<rparr>))]" and "open_fds t = open_fds s"
proof -
  let ?t = "next_thread cfg s" and ?input = "[Data demo_bytes, Would_block]"
  obtain r where r: "processEPOLLIN cfg ?input (1, 2) (replicate 200 0) 6 9 s =
      Some (Goes (s\<lparr>stats := server_increReceivePkts (stats s), rings := (rings s)[?t := r]\<rparr>))"
      "ring_ok r" "items r = [(demo_bytes, 9, 6, (1, 2))]"
    by (rule packet_in_ring[OF assms, of "replicate 200 0" demo_bytes])
      (use on_wire_length[OF demo_on_wire] in \<open>simp_all add: BUFF_SIZE_def\<close>)
  let ?s1 = "s\<lparr>stats := server_increReceivePkts (stats s), rings := (rings s)[?t := r]\<rparr>"
  let ?e = "\<lparr>err = False, hup = False, readable = True, ev_fd = 9, accepts = [], ev_input = ?input,
    ev_time = (1, 2), ev_junk = replicate 200 0\<rparr>"
  have d: "server_dispatch cfg 6 5 ?e s = Some (Goes ?s1)" using r(1) by (simp add: server_dispatch_def)
  have one: "server_step cfg (\<lambda>d. 0) demo_redis demo_cluster table 6 5 (s, \<lambda>k. None) (?s1, \<lambda>k. None)"
    by (rule server_step.event[OF _ d]) simp
  have t: "?t < length (rings s)" by (rule next_thread_ok(2)[OF assms(1)])
  obtain w' where w': "processDatabase demo_redis demo_cluster (value_junk demo_round) demo_request (\<lambda>k. None) = Some w'"
    by (rule processDatabase_state[OF demo_laws demo_ready wf_demo_request demo_empty_fits])
  have "\<exists>s'. process_packet cfg (\<lambda>d. 0) demo_redis demo_cluster table demo_round ?t (?s1, \<lambda>k. None) = Some (Goes (s', w')) \<and>
    written s' = written s @ reply demo_round 9 demo_request \<and> open_fds s' = open_fds s"
    using take_packet_answers[of ?t ?s1 demo_bytes 9 6 "(1, 2)" "[]" demo_round table demo_request cfg "\<lambda>d. 0", OF _ _ _ _ demo_round_ok(1) w']
      t r(2,3) demo_on_wire by (auto simp: demo_round_def)
  then obtain s2 where s2: "process_packet cfg (\<lambda>d. 0) demo_redis demo_cluster table demo_round ?t (?s1, \<lambda>k. None) = Some (Goes (s2, w'))"
    "written s2 = written s @ reply demo_round 9 demo_request" "open_fds s2 = open_fds s"
    by blast
  have wf: "wf_packet (demo_request\<lparr>direction := SERVER_TO_APP\<rparr>)" using wf_demo_request by (simp add: wf_packet_def)
  have "reply demo_round 9 demo_request = [(9, packet_bytes (demo_request\<lparr>direction := SERVER_TO_APP\<rparr>))]"
    using length_packet_bytes[OF wf] by (simp add: reply_def demo_round_def demo_request_def getPktType_def)
  from one have "(server_step cfg (\<lambda>d. 0) demo_redis demo_cluster table 6 5)\<^sup>*\<^sup>* (s, \<lambda>k. None) (s2, w')"
    by (rule converse_rtranclp_into_rtranclp) (rule r_into_rtranclp, rule server_step.work[OF s2(1)])
  moreover have "reply demo_round 9 demo_request = [(9, packet_bytes (demo_request\<lparr>direction := SERVER_TO_APP\<rparr>))]" by fact
  ultimately show thesis using s2(2,3) by (intro that[of s2 w']) simp_all
qed

lemma threads_run:
  assumes "(server_step cfg to_us redis cl table efd sfd)\<^sup>*\<^sup>* x y"
  shows "(server_run to_us redis cl table efd sfd)\<^sup>*\<^sup>* (cfg, x) (cfg, y)"
  using assms
proof (induction rule: rtranclp_induct)
  case (step y z)
  from step.hyps(2) have "server_run to_us redis cl table efd sfd (cfg, y) (cfg, z)"
    by (cases y; cases z) (auto intro: server_run.thread)
  with step.IH show ?case by (rule rtranclp.rtrancl_into_rtrancl)
qed simp

lemma demo_run:
  obtains table cfg s t w where "server_main demo_server_env blank_configs = Some (Goes (table, cfg, [(6, 5)], s))"
    and "(server_run (\<lambda>d. 0) demo_redis demo_cluster table 6 5)\<^sup>*\<^sup>* (cfg, s, \<lambda>k. None) (cfg, t, w)"
    and "open_fds t = [9, 5]" and "written t = written s @ [(9, packet_bytes (demo_request\<lparr>direction := SERVER_TO_APP\<rparr>))]"
proof -
  obtain table cfg s where m: "server_main demo_server_env blank_configs = Some (Goes (table, cfg, [(6, 5)], s))"
    by (rule demo_server_main)
  have start: "configs_ok cfg" "rings s = replicate (nat (threads_num cfg)) ring_buffer_init" "open_fds s = [5]" "usr_num s = 1"
    using server_main_start[OF m]
    by (simp_all add: demo_server_env_def blank_configs_def MAXPORTS_def demo_file_def file_ints_ok_def INT_MIN_def INT_MAX_def)
  let ?s = "s\<lparr>open_fds := [9, 5], usr_num := 2\<rparr>"
  have ok: "server_ok cfg ?s" using start(1,2) by (simp add: server_ok_def list_all_iff ring_ok_init)
  have "next_thread cfg ?s < nat (threads_num cfg)" using next_thread_ok(2)[OF ok] start(2) by simp
  then have "items (rings ?s ! next_thread cfg ?s) = []" using start(2) by simp
  with ok obtain t w where t: "(server_step cfg (\<lambda>d. 0) demo_redis demo_cluster table 6 5)\<^sup>*\<^sup>* (?s, \<lambda>k. None) (t, w)"
    "written t = written s @ [(9, packet_bytes (demo_request\<lparr>direction := SERVER_TO_APP\<rparr>))]" "open_fds t = [9, 5]"
    by (rule demo_packet_steps) simp
  have "(server_step cfg (\<lambda>d. 0) demo_redis demo_cluster table 6 5)\<^sup>*\<^sup>* (s, \<lambda>k. None) (t, w)"
    by (rule converse_rtranclp_into_rtranclp[OF demo_accept[OF start(3,4)] t(1)])
  from threads_run[OF this] show thesis using m t(2,3) by (intro that)
qed

theorem server_runs_witness:
  "\<exists>table cfg s t w. server_main demo_server_env blank_configs = Some (Goes (table, cfg, [(6, 5)], s)) \<and>
    (server_run (\<lambda>d. 0) demo_redis demo_cluster table 6 5)\<^sup>*\<^sup>* (cfg, s, \<lambda>k. None) (cfg, t, w) \<and>
    open_fds t = [9, 5] \<and> written t = written s @ [(9, packet_bytes (demo_request\<lparr>direction := SERVER_TO_APP\<rparr>))] \<and>
    int (length (rings t)) = threads_num cfg \<and> list_all ring_ok (rings t) \<and>
    getThreadIndex (stats t) cfg \<in> insert None (Some ` {0..<int (length (rings t))}) \<and>
    distinct (open_fds t) \<and> usr_num t \<le> int (length (open_fds t))"
proof -
  obtain table cfg s t w where m: "server_main demo_server_env blank_configs = Some (Goes (table, cfg, [(6, 5)], s))"
    and run: "(server_run (\<lambda>d. 0) demo_redis demo_cluster table 6 5)\<^sup>*\<^sup>* (cfg, s, \<lambda>k. None) (cfg, t, w)"
    and t: "open_fds t = [9, 5]" "written t = written s @ [(9, packet_bytes (demo_request\<lparr>direction := SERVER_TO_APP\<rparr>))]"
    by (rule demo_run)
  have "int (length (rings t)) = threads_num cfg \<and> list_all ring_ok (rings t) \<and>
    getThreadIndex (stats t) cfg \<in> insert None (Some ` {0..<int (length (rings t))}) \<and>
    distinct (open_fds t) \<and> usr_num t \<le> int (length (open_fds t))"
    by (rule server_runs[OF m _ _ _ run])
      (simp_all add: demo_server_env_def blank_configs_def MAXPORTS_def demo_file_def file_ints_ok_def INT_MIN_def INT_MAX_def)
  with m run t show ?thesis by blast
qed

end
