(* ===== verification/RedisMain.thy ===== *)
theory RedisMain
  imports RedisTheorems
begin

text \<open>
  The test program \<^verbatim>\<open>redis/main.c\<close>: what each of its sixteen threads does with the cluster it
  is connected to, and \<^verbatim>\<open>main\<close>.  The threads share nothing but the servers.
\<close>

text \<open>\<^verbatim>\<open>get\<close> and \<^verbatim>\<open>set\<close> of \<^verbatim>\<open>redis.c\<close>.\<close>

definition redis_get ::
    "('c, 'w) redis_command \<Rightarrow> 'c clusterInfo \<Rightarrow> nat \<Rightarrow> cstr \<Rightarrow> cstr \<Rightarrow> int \<Rightarrow> 'w \<Rightarrow> (int \<times> cstr \<times> 'w) option" where
  "redis_get redis cl cap key get_in_value dbnum w = get_withdb redis cl cap key get_in_value dbnum w"

definition redis_set :: "('c, 'w) redis_command \<Rightarrow> 'c clusterInfo \<Rightarrow> cstr \<Rightarrow> cstr \<Rightarrow> int \<Rightarrow> 'w \<Rightarrow> (int \<times> 'w) option" where
  "redis_set redis cl key set_in_value dbnum w = set_withdb redis cl key set_in_value dbnum w"

definition VALUE_CAP :: nat where "VALUE_CAP = 1024 * 8"

text \<open>One pair of calls: set the key to \<open>s\<close>, read it back into \<^verbatim>\<open>value\<close>.\<close>

definition set_and_get ::
    "('c, 'w) redis_command \<Rightarrow> 'c clusterInfo \<Rightarrow> cstr \<Rightarrow> cstr \<Rightarrow> int \<times> cstr \<times> 'w \<Rightarrow> (int \<times> cstr \<times> 'w) option" where
  "set_and_get redis cl key s = (\<lambda>(acc, value, w). do {
     (r, w) \<leftarrow> redis_set redis cl key s 1 w;
     let acc = acc + r;
     (r, value, w) \<leftarrow> redis_get redis cl VALUE_CAP key value 1 w;
     Some (acc + r, value, w)
   })"

text \<open>The four pairs of \<^verbatim>\<open>db_function\<close>: the sum, the four values it prints, and the world.\<close>

definition db_function ::
    "('c, 'w) redis_command \<Rightarrow> 'c clusterInfo \<Rightarrow> cstr \<Rightarrow> int \<Rightarrow> 'w \<Rightarrow> (int \<times> cstr list \<times> 'w) option" where
  "db_function redis cl junk input w = do {
     key \<leftarrow> strcpy 100 (ascii ''key='' @ decimal input);
     (acc, v1, w) \<leftarrow> set_and_get redis cl key (ascii ''aaaaa'') (0, junk, w);
     (acc, v2, w) \<leftarrow> set_and_get redis cl key (ascii ''fffff'') (acc, v1, w);
     (acc, v3, w) \<leftarrow> set_and_get redis cl key (ascii ''eafde'') (acc, v2, w);
     (acc, v4, w) \<leftarrow> set_and_get redis cl key (ascii ''abcde'') (acc, v3, w);
     Some (acc, [v1, v2, v3, v4], w)
   }"

lemma set_and_get_eq:
  assumes "redis_laws redis rd" and "cluster_ready cl" and "db_ok 1 key" and "length s < VALUE_CAP"
  obtains w' where "set_and_get redis cl key s (acc, old, w) = Some (acc, s, w')"
    and "\<And>db' key'. db_ok db' key' \<Longrightarrow> db_value rd cl w' db' key' = (if db' = 1 \<and> key' = key then Some s else db_value rd cl w db' key')"
proof -
  obtain w' where w: "set_withdb redis cl key s 1 w = Some (0, w')"
    "\<And>db' key'. db_ok db' key' \<Longrightarrow> db_value rd cl w' db' key' = (if db' = 1 \<and> key' = key then Some s else db_value rd cl w db' key')"
    using set_withdb_eq[OF assms(1-3)] by blast
  have "get_withdb redis cl VALUE_CAP key old 1 w' = Some (0, s, w')"
    using get_withdb_eq[OF assms(1-3), of VALUE_CAP w' old] w(2)[OF assms(3)] assms(4) by (simp add: VALUE_CAP_def)
  with w show ?thesis by (intro that[of w']) (simp_all add: set_and_get_def redis_set_def redis_get_def)
qed

lemma thread_key:
  assumes "1 \<le> i" and "i \<le> 16"
  shows "strcpy 100 (ascii ''key='' @ decimal i) = Some (ascii ''key='' @ decimal i) \<and> db_ok 1 (ascii ''key='' @ decimal i)"
proof -
  have "length (decimal i) \<le> 2" using assms by (simp add: decimal_def decimal_nat.simps)
  then show ?thesis using db_ok_small[of 1] by (simp add: strcpy_def ascii_def)
qed

text \<open>Each thread of the test program succeeds: the sum of the results is zero and it reads back the
  four values it has set, the last of which stays; the keys of the other threads are left alone.\<close>

theorem test_threads_succeed:
  assumes "redis_laws redis rd" and "cluster_ready cl" and "1 \<le> i" and "i \<le> 16" and "1 \<le> j" and "j \<le> 16"
  shows "\<exists>w'. db_function redis cl junk i w = Some (0, map ascii [''aaaaa'', ''fffff'', ''eafde'', ''abcde''], w') \<and>
    db_value rd cl w' 1 (ascii ''key='' @ decimal j) =
      (if j = i then Some (ascii ''abcde'') else db_value rd cl w 1 (ascii ''key='' @ decimal j))"
proof -
  let ?k = "ascii ''key='' @ decimal i" and ?j = "ascii ''key='' @ decimal j"
  note ki = thread_key[OF assms(3,4)] and kj = thread_key[OF assms(5,6)]
  have jk: "?j = ?k \<longleftrightarrow> j = i"
    using assms(3-6) decimal_inj[of j 8 "[]" i "[]"] by (auto simp: is_digit_def INT_MIN_def INT_MAX_def)
  have step: "\<exists>w'. set_and_get redis cl ?k s (0, old, w) = Some (0, s, w') \<and>
      db_value rd cl w' 1 ?j = (if j = i then Some s else db_value rd cl w 1 ?j)" if "length s = 5" for s old w
  proof -
    have len: "length s < VALUE_CAP" using that by (simp add: VALUE_CAP_def)
    obtain w' where w': "set_and_get redis cl ?k s (0, old, w) = Some (0, s, w')"
      "\<And>db' key'. db_ok db' key' \<Longrightarrow> db_value rd cl w' db' key' = (if db' = 1 \<and> key' = ?k then Some s else db_value rd cl w db' key')"
      by (rule set_and_get_eq[OF assms(1,2) conjunct2[OF ki] len]) blast
    from w'(2)[OF conjunct2[OF kj]] jk have "db_value rd cl w' 1 ?j = (if j = i then Some s else db_value rd cl w 1 ?j)"
      by simp
    with w'(1) show ?thesis by blast
  qed
  have len: "length (ascii t) = length t" for t by (simp add: ascii_def)
  obtain w1 where 1: "set_and_get redis cl ?k (ascii ''aaaaa'') (0, junk, w) = Some (0, ascii ''aaaaa'', w1)"
    "db_value rd cl w1 1 ?j = (if j = i then Some (ascii ''aaaaa'') else db_value rd cl w 1 ?j)"
    using step[of "ascii ''aaaaa''"] by (auto simp: len)
  obtain w2 where 2: "set_and_get redis cl ?k (ascii ''fffff'') (0, ascii ''aaaaa'', w1) = Some (0, ascii ''fffff'', w2)"
    "db_value rd cl w2 1 ?j = (if j = i then Some (ascii ''fffff'') else db_value rd cl w1 1 ?j)"
    using step[of "ascii ''fffff''"] by (auto simp: len)
  obtain w3 where 3: "set_and_get redis cl ?k (ascii ''eafde'') (0, ascii ''fffff'', w2) = Some (0, ascii ''eafde'', w3)"
    "db_value rd cl w3 1 ?j = (if j = i then Some (ascii ''eafde'') else db_value rd cl w2 1 ?j)"
    using step[of "ascii ''eafde''"] by (auto simp: len)
  obtain w4 where 4: "set_and_get redis cl ?k (ascii ''abcde'') (0, ascii ''eafde'', w3) = Some (0, ascii ''abcde'', w4)"
    "db_value rd cl w4 1 ?j = (if j = i then Some (ascii ''abcde'') else db_value rd cl w3 1 ?j)"
    using step[of "ascii ''abcde''"] by (auto simp: len)
  have "db_function redis cl junk i w = Some (0, map ascii [''aaaaa'', ''fffff'', ''eafde'', ''abcde''], w4)"
    by (simp only: db_function_def conjunct1[OF ki] 1(1) 2(1) 3(1) 4(1) Option.bind.simps prod.case list.map)
  with 1(2) 2(2) 3(2) 4(2) show ?thesis by (intro exI[of _ w4]) simp
qed

theorem test_threads_succeed_witness:
  "\<exists>w'. db_function demo_redis demo_cluster [] 3 (\<lambda>k. None) = Some (0, map ascii [''aaaaa'', ''fffff'', ''eafde'', ''abcde''], w') \<and>
    db_value (\<lambda>w c. w) demo_cluster w' 1 (ascii ''key='' @ decimal 12) =
      (if 12 = (3 :: int) then Some (ascii ''abcde'') else db_value (\<lambda>w c. w) demo_cluster (\<lambda>k. None) 1 (ascii ''key='' @ decimal 12))"
  by (rule test_threads_succeed[OF demo_laws demo_ready]) simp_all

section \<open>The whole program\<close>

text \<open>The threads as wholes, in the order in which they run: \<^verbatim>\<open>thread[i]\<close> is \<open>i + 1\<close>.\<close>

definition run_threads :: "('c, 'w) redis_command \<Rightarrow> 'c clusterInfo \<Rightarrow> cstr \<Rightarrow> nat list \<Rightarrow> 'w \<Rightarrow> 'w option" where
  "run_threads redis cl junk order w = foldM (\<lambda>i w. map_option (\<lambda>(acc, vs, w). w) (db_function redis cl junk (int i + 1) w)) order w"

text \<open>The two loops of \<^verbatim>\<open>main\<close>: the first stops at a thread that cannot be created, the second joins
  all sixteen all the same; joining through an identifier that was never written is \<open>None\<close>.\<close>

definition created_threads :: "(nat \<Rightarrow> bool) \<Rightarrow> nat list" where
  "created_threads created = takeWhile created [0..<16]"

fun join_threads :: "(nat \<Rightarrow> bool) \<Rightarrow> nat list \<Rightarrow> nat list \<Rightarrow> unit option" where
  "join_threads joined th [] = Some ()"
| "join_threads joined th (i # is) =
    (if i \<notin> set th then None
     else if \<not> joined i then Some ()
     else join_threads joined th is)"

definition redis_main :: "(nat \<Rightarrow> bool) \<Rightarrow> (nat \<Rightarrow> bool) \<Rightarrow> unit option" where
  "redis_main created joined = join_threads joined (created_threads created) [0..<16]"

lemma run_threads_leave:
  assumes "redis_laws redis rd" and "cluster_ready cl" and "set order \<subseteq> {0..<16}"
  shows "\<exists>w'. run_threads redis cl junk order w = Some w' \<and> (\<forall>j < 16. db_value rd cl w' 1 (ascii ''key='' @ decimal (int j + 1)) =
    (if j \<in> set order then Some (ascii ''abcde'') else db_value rd cl w 1 (ascii ''key='' @ decimal (int j + 1))))"
  using assms(3)
proof (induction order arbitrary: w)
  case (Cons i order)
  let ?k = "\<lambda>j :: nat. ascii ''key='' @ decimal (int j + 1)"
  have i: "1 \<le> int i + 1" "int i + 1 \<le> 16" using Cons.prems by simp_all
  let ?v = "map ascii [''aaaaa'', ''fffff'', ''eafde'', ''abcde'']"
  have e: "\<exists>w'. db_function redis cl junk (int i + 1) w = Some (0, ?v, w') \<and>
    db_value rd cl w' 1 (?k j) = (if j = i then Some (ascii ''abcde'') else db_value rd cl w 1 (?k j))" if "j < 16" for j
    using test_threads_succeed[OF assms(1,2) i, of "int j + 1" junk w] that by simp
  obtain w1 where w1: "db_function redis cl junk (int i + 1) w = Some (0, ?v, w1)" using e[of 0] by auto
  have "db_value rd cl w1 1 (?k j) = (if j = i then Some (ascii ''abcde'') else db_value rd cl w 1 (?k j))" if "j < 16" for j
    using e[OF that] unfolding w1 by simp
  then show ?case using w1 Cons.IH[of w1] Cons.prems by (auto simp: run_threads_def)
qed (simp add: run_threads_def)

text \<open>In whatever order its threads run, the test program leaves under each of its sixteen keys the last
  value its own thread has set.\<close>

theorem test_program_result:
  assumes "redis_laws redis rd" and "cluster_ready cl" and "set order = {0..<16}" and "j < 16"
  shows "\<exists>w'. run_threads redis cl junk order w = Some w' \<and> db_value rd cl w' 1 (ascii ''key='' @ decimal (int j + 1)) = Some (ascii ''abcde'')"
  using run_threads_leave[OF assms(1,2), of order junk w] assms(3,4) by auto

theorem test_program_result_witness:
  "\<exists>w'. run_threads demo_redis demo_cluster [] (rev [0..<16]) (\<lambda>k. None) = Some w' \<and>
    db_value (\<lambda>w c. w) demo_cluster w' 1 (ascii ''key='' @ decimal (int 4 + 1)) = Some (ascii ''abcde'')"
  by (rule test_program_result[OF demo_laws demo_ready]) auto

text \<open>When a thread cannot be created, \<^verbatim>\<open>main\<close> joins identifiers that were never written, unless an
  earlier join fails.\<close>

theorem join_of_uncreated:
  assumes "k < 16" and "\<not> created k" and "\<forall>i < k. joined i"
  shows "redis_main created joined = None"
proof -
  have j: "join_threads joined th [i..<16] = None" if "i \<le> k" "k \<notin> set th" for i th
    using that
  proof (induction "k - i" arbitrary: i)
    case 0
    then show ?case using assms(1) by (simp add: upt_conv_Cons)
  next
    case (Suc m)
    then show ?case using Suc.hyps(1)[of "Suc i"] assms(1,3) by (simp add: upt_conv_Cons)
  qed
  have "k \<notin> set (created_threads created)" using assms(2) set_takeWhileD[of k created "[0..<16]"] by (auto simp: created_threads_def)
  then show ?thesis by (simp add: redis_main_def j)
qed

theorem join_of_uncreated_witness: "redis_main (\<lambda>i. i < 3) (\<lambda>i. True) = None"
  by (rule join_of_uncreated[where k = 3]) simp_all

end
