(* ===== verification/Spec2Isabelle.thy ===== *)
theory Spec2Isabelle
  imports WireTheorems ServerCipher DesTheorems RedisTheorems RingTheorems ServerTheorems ClientTheorems ClientSafety EpollRestore RedisConnect ServerDispatch ClientUpdate ClientTurns ServerWork ServerSafety RedisMain
begin

text \<open>
  A model of DaBao, a load generator (\<^verbatim>\<open>client/\<close>) and the server it drives
  (\<^verbatim>\<open>server/\<close>), as HOL functions, with the theorems that make its parts correct.

  \<^bold>\<open>Parts and how they interact.\<close>  Client threads keep many TCP connections open and send
  fixed packets of 146 bytes, one per connection and epoch; a connection that has sent a request
  waits for the answer before it may send again.  On the server an event loop reads each packet and
  puts it into the ring of one worker, the workers taking turns, a group of packets each; the worker decrypts and decodes the
  packet, wastes a configured delay, looks up and updates the Redis cluster, and writes the answer
  back to the socket.  Both programs count what they do and re-read their settings while running.

  \<^bold>\<open>Theories.\<close>
  \<^item> \<^verbatim>\<open>Prelude\<close>: loops that can fail, arrays as lists with explicit out-of-bounds
    accesses, machine words, C's \<^verbatim>\<open>int\<close>.
  \<^item> \<^verbatim>\<open>Utils\<close>, \<^verbatim>\<open>Payload\<close>: \<^verbatim>\<open>utils.c\<close>, \<^verbatim>\<open>payload.c\<close>; the shuffle permutes
    whatever the random numbers are.
  \<^item> \<^verbatim>\<open>SocketTools\<close>, \<^verbatim>\<open>Serialize\<close>: \<^verbatim>\<open>socket_tools.c\<close>, \<^verbatim>\<open>serialize.c\<close>,
    \<^verbatim>\<open>protocol.h\<close>; the scalar codecs satisfy one interface, from which the arrays and
    records follow.
  \<^item> \<^verbatim>\<open>DesCipher\<close>, \<^verbatim>\<open>KeyTable\<close>, \<^verbatim>\<open>PayloadCipher\<close>: \<^verbatim>\<open>DES/cipher.c\<close> and
    \<^verbatim>\<open>DES/payload_cipher.c\<close>; \<^verbatim>\<open>ServerCipher\<close>: the prototype \<^verbatim>\<open>server/cipher.c\<close>.
  \<^item> \<^verbatim>\<open>DesBlock\<close>, \<^verbatim>\<open>DesBits\<close>, \<^verbatim>\<open>DesSpec\<close>, \<^verbatim>\<open>DesCorrect\<close>, \<^verbatim>\<open>DesTheorems\<close>: \<^verbatim>\<open>DES/des.c\<close>, the
    textbook cipher on bits, the refinement between them, from which decryption inverts encryption.
  \<^item> \<^verbatim>\<open>CString\<close>, \<^verbatim>\<open>Crc16\<close>, \<^verbatim>\<open>Redis\<close>, \<^verbatim>\<open>RedisTheorems\<close>: the string functions
    used, \<^verbatim>\<open>redis/crc16.c\<close>, \<^verbatim>\<open>redis/connect.c\<close> and \<^verbatim>\<open>redis/redis.c\<close>: the parsing of
    the cluster description, the owner of each slot, a read after a write through redirections.  The
    parser reads uninitialised memory behind each copied line; that this memory does not complete the word
    \<^verbatim>\<open>slave\<close> is a hypothesis (\<open>harmless\<close>, \<open>memory_harmless\<close>).
  \<^item> \<^verbatim>\<open>RedisConnect\<close>: \<^verbatim>\<open>__connect_cluster\<close> as a whole, from the text that describes the
    nodes to a cluster that routes every key to its owner (the hypothesis \<open>cluster_ready\<close> of the
    theorems about the database), and what a refused connection leaves behind.
  \<^item> \<^verbatim>\<open>WireTheorems\<close>: the packet path from the client's struct to the server's.
  \<^item> \<^verbatim>\<open>BoundedQueue\<close>, \<^verbatim>\<open>Ring\<close>: the contract of a bounded queue as a locale, and
    \<^verbatim>\<open>server/ring.h\<close>, which is shown to satisfy it; its capacity is one less than its cells.
  \<^item> \<^verbatim>\<open>RingThreads\<close>, \<^verbatim>\<open>RingTheorems\<close>: the event loop and the worker at one ring, as a
    step relation in which the statements of the two threads interleave and either waits on a
    condition.  Runs in which both wait under a loop conserve and order the packets; the code waits
    under an \<^verbatim>\<open>if\<close>, and three runs show what is lost by that.
  \<^item> \<^verbatim>\<open>Statistics\<close>: \<^verbatim>\<open>statistics.c\<close> of both programs; the reports are the numbers printed.
  \<^item> \<^verbatim>\<open>ServerConfig\<close>, \<^verbatim>\<open>Server\<close>, \<^verbatim>\<open>ServerTheorems\<close>: \<^verbatim>\<open>server/server_config.c\<close>
    and \<^verbatim>\<open>server/server.c\<close>: the handlers of the event loop, the delay loop, one round of a
    worker; what a request does to the database, the counting of connections.  The part of a handler
    or round behind its wait is a definition of its own (\<open>put_packet\<close>, \<open>take_packet\<close>), since the
    code comes there from the wait without another test.
  \<^item> \<^verbatim>\<open>Epoll\<close>, \<^verbatim>\<open>EpollTheorems\<close>, \<^verbatim>\<open>EpollRestore\<close>: \<^verbatim>\<open>client/epoll.c\<close>, the table of connections with its
    times and flags; pacing, and the closing and restoring of connections.
  \<^item> \<^verbatim>\<open>ClientConfig\<close>, \<^verbatim>\<open>Client\<close>, \<^verbatim>\<open>ClientTheorems\<close>: \<^verbatim>\<open>client/client_config.c\<close>
    and \<^verbatim>\<open>client/client.c\<close>: the mix of packets, the creation and change of connections, the
    rounds of the event loop, of the update thread and of the sweep; the life of a request, and a
    request from the client's connection through the server's database back to the socket.
  \<^item> \<^verbatim>\<open>StepInvariant\<close>: an invariant kept by every step, as a locale; the runs of the client
    and of the server are its instances.
  \<^item> \<^verbatim>\<open>ClientSetup\<close>, \<^verbatim>\<open>ClientInvariant\<close>, \<^verbatim>\<open>ClientSweep\<close>, \<^verbatim>\<open>ClientSafety\<close>: the start
    of the client from \<^verbatim>\<open>init\<close> and \<^verbatim>\<open>main\<close>, the invariant of all its runs (the table keeps
    its shape and its count is that of the registrations), that no handler leaves an array, what a
    sweep arms, and the turn of a connection from the sweep that finds it due to the packet it sends.
  \<^item> \<^verbatim>\<open>ClientTurns\<close>: the life of a request on one connection, from the sweep to the answer, in runs in
    which everything else goes on.
  \<^item> \<^verbatim>\<open>ClientUpdate\<close>: a change of the number of connections in the settings, from the update
    thread to the connections that are opened or closed.
  \<^item> \<^verbatim>\<open>ServerSetup\<close>, \<^verbatim>\<open>ServerSafety\<close>: sockets, rings and workers from \<^verbatim>\<open>main\<close> on, and the
    invariant of all runs, in which handlers, workers and changes of the configuration alternate, and
    handlers and workers that had to wait go on at any later time.
  \<^item> \<^verbatim>\<open>ServerDispatch\<close>: the event loop over many packets: which worker gets which.
  \<^item> \<^verbatim>\<open>ServerWork\<close>: the rounds of a worker until its ring is empty, and the order of the
    answers.
  \<^item> \<^verbatim>\<open>RedisMain\<close>: the test program \<^verbatim>\<open>redis/main.c\<close>, its threads in any order.

  \<^bold>\<open>Conventions.\<close>  An operation that C leaves undefined (an access out of bounds, an
  indeterminate pointer, a failed assertion) is \<open>None\<close>; in the client so is the end of the program.
  On the server, where both matter, the result is an \<open>outcome\<close> that tells a normal end from
  waiting on a condition and from the end of the program.  C's counting loops are \<open>foldM\<close> over an
  index range, so every operation terminates by its structure; the loop over the connection map takes
  at most as many rounds as the map has entries, and the delay loop of \<^verbatim>\<open>nop\<close>, whose end
  depends on the clock, is a \<open>partial_function\<close>, with its termination as a theorem.  Uninitialised
  memory is an argument.  Integers keep their width.  Code outside the repository (hiredis,
  libconfig, \<^verbatim>\<open>rand\<close>, the clock, the results of system calls, the floating-point products) is an
  argument, with its documented behaviour as a hypothesis.

  \<^bold>\<open>Builds and array sizes.\<close>  The switch \<^verbatim>\<open>CIPHER\<close> of each program is a flag of the model
  (\<open>ciphered\<close>, \<open>deciphers\<close>): the server defines it, the client's header comments it out, so that as
  shipped the two do not fit together.  Without the switch the arrays have the sizes declared.  With it, the
  cipher accesses bytes up to 150 of arrays of \<^verbatim>\<open>PAYLOAD_SIZE\<close> = 146 bytes, for every packet, which is undefined
  (\<open>payload_cipher_overruns\<close>); theorems that cover the build with the cipher assume arrays of 150 bytes
  (\<open>arrays_ok\<close>, \<open>round_ok\<close>, \<open>on_wire\<close>), and say so.  Their witnesses are of the build without it.

  \<^bold>\<open>Not modelled.\<close>  Printing, sleeping and CPU affinity; the debugging output of
  \<^verbatim>\<open>connect.c\<close> and \<^verbatim>\<open>des.c\<close>; the interleaving of
  threads within a step, except at the ring, whose model takes single statements as steps: elsewhere the handling of an
  event, the visit of the sweep to a descriptor, a round of the update thread and what a worker does with
  a packet are whole steps, so that races on counters that are updated without a lock (\<^verbatim>\<open>epoll.c\<close> lines 23 and
  53, \<^verbatim>\<open>statistics.c\<close>) are outside the model; the life
  time of the array \<^verbatim>\<open>info\<close> that \<^verbatim>\<open>initThreads\<close> hands to its threads; the connecting and
  disconnecting of \<^verbatim>\<open>redis/main.c\<close>, whose results are undefined; the shell scripts.  The copies
  of \<^verbatim>\<open>DES/\<close> and \<^verbatim>\<open>socket_tools.c\<close> in the client are those of the server, and are modelled once.
\<close>


end
